(* ===== verification/Prelude.thy ===== *)
theory Prelude
  imports Main "HOL-Library.Word"
begin

text \<open>
  What every component shares: the outcomes of an operation that can stop the program, the
  sequencing of such operations, blocks of memory as lists with bounds-checked copies, and the
  collections of rewrite rules that the component theories use.
\<close>

section \<open>Outcomes\<close>

text \<open>
  The code has no exceptions. What ends a run is a memory error (undefined behaviour in C++, in
  practice a crash) or a call of \<open>exit\<close>. Each is a value of \<open>stop\<close>, and an operation that may end
  the run returns \<open>Inl\<close> of it.
  \<^item> \<open>NullDeref\<close>: a member access through a null pointer, such as \<open>m[k]->f\<close> where \<open>k\<close> is not a key
    of the map, since \<open>operator[]\<close> then inserts a null pointer and returns it;
  \<^item> \<open>PopEmpty\<close>: \<open>front\<close> or \<open>pop_front\<close> of an empty \<open>std::list\<close>;
  \<^item> \<open>OutOfBounds\<close>: a read or a write outside a block;
  \<^item> \<open>UninitRead\<close>: a variable read before anything was stored in it;
  \<^item> \<open>DanglingIter\<close>: an iterator used after its element was erased;
  \<^item> \<open>UseAfterFree\<close>: an access to a deleted object;
  \<^item> \<open>DivByZero\<close>: an integer division by zero;
  \<^item> \<open>AssertFailed\<close>: a failed \<open>assert\<close>;
  \<^item> \<open>Exited n\<close>: \<open>exit(n)\<close>.
\<close>

datatype stop =
    NullDeref
  | PopEmpty
  | OutOfBounds
  | UninitRead
  | DanglingIter
  | UseAfterFree
  | DivByZero
  | AssertFailed
  | Exited int

type_synonym 'a res = "stop + 'a"

named_theorems res_simps \<open>sequencing of operations that can stop the run\<close>
named_theorems buf_simps \<open>reads of blocks after writes\<close>
named_theorems len_simps \<open>lengths of blocks\<close>

definition rbind :: "'a res \<Rightarrow> ('a \<Rightarrow> 'b res) \<Rightarrow> 'b res" where
  "rbind m f = (case m of Inl e \<Rightarrow> Inl e | Inr x \<Rightarrow> f x)"

definition guard :: "bool \<Rightarrow> stop \<Rightarrow> unit res" where
  "guard b e = (if b then Inr () else Inl e)"

fun rfold :: "('x \<Rightarrow> 's \<Rightarrow> 's res) \<Rightarrow> 'x list \<Rightarrow> 's \<Rightarrow> 's res" where
  "rfold f [] s = Inr s"
| "rfold f (x # xs) s = rbind (f x s) (rfold f xs)"

lemma rbind_Inl [simp]: "rbind (Inl e) f = Inl e"
  and rbind_Inr [simp]: "rbind (Inr x) f = f x"
  by (simp_all add: rbind_def)

lemma rbind_eq_Inr_iff [res_simps]:
  "rbind m f = Inr y \<longleftrightarrow> (\<exists>x. m = Inr x \<and> f x = Inr y)"
  by (cases m) auto

lemma rbind_assoc: "rbind (rbind m f) g = rbind m (\<lambda>x. rbind (f x) g)"
  by (cases m) auto

lemma rbind_cong [fundef_cong]:
  "m = m' \<Longrightarrow> (\<And>x. m' = Inr x \<Longrightarrow> f x = f' x) \<Longrightarrow> rbind m f = rbind m' f'"
  by (cases m') auto

lemma guard_simps [simp]:
  "guard True e = Inr ()" "guard False e = Inl e"
  by (simp_all add: guard_def)

lemma guard_eq_Inr_iff [res_simps]: "guard b e = Inr u \<longleftrightarrow> b"
  by (simp add: guard_def)

lemma rfold_append: "rfold f (xs @ ys) s = rbind (rfold f xs s) (rfold f ys)"
proof (induction xs arbitrary: s)
  case Nil
  show ?case by simp
next
  case (Cons x xs)
  then have "(\<lambda>t. rfold f (xs @ ys) t) = (\<lambda>t. rbind (rfold f xs t) (rfold f ys))"
    by (simp add: fun_eq_iff)
  then show ?case by (simp add: rbind_assoc)
qed

text \<open>A step that does not look at the elements is repeated as often as there are elements.\<close>

lemma rfold_same_length:
  "length xs = length ys \<Longrightarrow> rfold (\<lambda>_. f) xs t = rfold (\<lambda>_. f) ys t"
proof (induction xs ys arbitrary: t rule: list_induct2)
  case Nil
  show ?case by simp
next
  case (Cons x xs y ys)
  then show ?case by (cases "f t") simp_all
qed

text \<open>An invariant that one operation keeps is kept by a sequence of them.\<close>

lemma rfold_invariant:
  assumes "\<And>x s s'. x \<in> set xs \<Longrightarrow> I s \<Longrightarrow> f x s = Inr s' \<Longrightarrow> I s'"
    and "I s" and "rfold f xs s = Inr s'"
  shows "I s'"
  using assms
proof (induction xs arbitrary: s)
  case Nil
  then show ?case by simp
next
  case (Cons x xs)
  from Cons.prems(3) obtain t where t: "f x s = Inr t" "rfold f xs t = Inr s'"
    by (auto simp: res_simps)
  from Cons.prems(1) [OF _ Cons.prems(2) t(1)] have "I t" by simp
  then show ?case
    using Cons.IH [OF _ _ t(2)] Cons.prems(1) by (meson list.set_intros(2))
qed

text \<open>
  \<open>ensures E P m\<close>: if \<open>m\<close> stops the run, then for a reason in \<open>E\<close>; otherwise its result satisfies \<open>P\<close>.
  The rules below take an operation apart along its sequencing.
\<close>

definition ensures :: "(stop \<Rightarrow> bool) \<Rightarrow> ('a \<Rightarrow> bool) \<Rightarrow> 'a res \<Rightarrow> bool" where
  "ensures E P m = (case m of Inl e \<Rightarrow> E e | Inr x \<Rightarrow> P x)"

lemma ensures_Inl [simp]: "ensures E P (Inl e) \<longleftrightarrow> E e"
  and ensures_Inr [simp]: "ensures E P (Inr x) \<longleftrightarrow> P x"
  by (simp_all add: ensures_def)

lemma ensures_InrD: "ensures E P m \<Longrightarrow> m = Inr x \<Longrightarrow> P x"
  and ensures_InlD: "ensures E P m \<Longrightarrow> m = Inl e \<Longrightarrow> E e"
  by (simp_all add: ensures_def)

lemma ensures_mono: "ensures E P m \<Longrightarrow> (\<And>x. P x \<Longrightarrow> Q x) \<Longrightarrow> ensures E Q m"
  by (simp add: ensures_def split: sum.splits)

lemma ensures_rbind:
  "ensures E P m \<Longrightarrow> (\<And>x. P x \<Longrightarrow> ensures E Q (f x)) \<Longrightarrow> ensures E Q (rbind m f)"
  by (cases m) auto

text \<open>Sequencing after an operation of which nothing is needed but its result.\<close>

lemma ensures_rbind_eq:
  "(\<And>e. m = Inl e \<Longrightarrow> E e) \<Longrightarrow> (\<And>x. m = Inr x \<Longrightarrow> ensures E Q (f x)) \<Longrightarrow> ensures E Q (rbind m f)"
  by (cases m) auto

lemma ensures_rfold:
  assumes "\<And>x s. x \<in> set xs \<Longrightarrow> I s \<Longrightarrow> ensures E I (f x s)" and "I s"
  shows "ensures E I (rfold f xs s)"
  using assms
proof (induction xs arbitrary: s)
  case Nil
  then show ?case by simp
next
  case (Cons x xs)
  then show ?case
    by (auto intro!: ensures_rbind [where P = I])
qed

section \<open>Blocks of memory\<close>

text \<open>
  A block is the list of its cells. \<open>cells off n b\<close> reads \<open>n\<close> cells from offset \<open>off\<close>;
  \<open>blit off src b\<close> overwrites the cells from \<open>off\<close> on with \<open>src\<close>. Both are meant for accesses
  inside the block: the operations of the code check the bounds first and return
  \<open>OutOfBounds\<close> where the access leaves the block.
\<close>

definition cells :: "nat \<Rightarrow> nat \<Rightarrow> 'a list \<Rightarrow> 'a list" where
  "cells off n b = take n (drop off b)"

definition blit :: "nat \<Rightarrow> 'a list \<Rightarrow> 'a list \<Rightarrow> 'a list" where
  "blit off src b = take off b @ src @ drop (off + length src) b"

lemma length_cells [simp]: "length (cells off n b) = min n (length b - off)"
  by (simp add: cells_def)

lemma length_blit [simp]:
  "off + length src \<le> length b \<Longrightarrow> length (blit off src b) = length b"
  by (simp add: blit_def)

lemma cells_0 [simp]: "cells 0 n b = take n b"
  by (simp add: cells_def)

lemma cells_whole [simp]: "n = length b \<Longrightarrow> cells 0 n b = b"
  by (simp add: cells_def)

lemma cells_blit_same [simp]:
  "n = length src \<Longrightarrow> off + n \<le> length b \<Longrightarrow> cells off n (blit off src b) = src"
  by (simp add: cells_def blit_def)

lemma cells_blit_before [simp]:
  "o' + n \<le> off \<Longrightarrow> off \<le> length b \<Longrightarrow> cells o' n (blit off src b) = cells o' n b"
proof -
  assume h: "o' + n \<le> off" "off \<le> length b"
  have "n \<le> length (drop o' (take off b))" using h by simp
  then have "take n (drop o' (blit off src b)) = take n (drop o' (take off b))"
    using h by (simp add: blit_def)
  also have "\<dots> = take n (drop o' b)" using h by (simp add: drop_take)
  finally show ?thesis by (simp add: cells_def)
qed

lemma cells_blit_after [simp]:
  "off + length src \<le> o' \<Longrightarrow> off + length src \<le> length b \<Longrightarrow>
   cells o' n (blit off src b) = cells o' n b"
  by (simp add: cells_def blit_def)

lemma cells_blit_inside [buf_simps]:
  assumes "off \<le> o'" "o' + n \<le> off + length src" "off \<le> length b"
  shows "cells o' n (blit off src b) = cells (o' - off) n src"
proof -
  have "drop o' (blit off src b) = drop (o' - off) (src @ drop (off + length src) b)"
    using assms by (simp add: blit_def)
  then show ?thesis
    using assms by (simp add: cells_def)
qed

lemma take_blit_upto [simp]:
  "off \<le> length b \<Longrightarrow> take (off + length src) (blit off src b) = take off b @ src"
  by (simp add: blit_def)

lemma take_blit_before [simp]:
  "n \<le> off \<Longrightarrow> off \<le> length b \<Longrightarrow> take n (blit off src b) = take n b"
  by (simp add: blit_def)

lemma blit_Nil [simp]: "blit off [] b = b"
  by (simp add: blit_def)

lemma blit_whole: "length src = length b \<Longrightarrow> blit 0 src b = src"
  by (simp add: blit_def)

lemma blit_blit_adjacent:
  assumes "off' = off + length xs" "off + length xs + length ys \<le> length b"
  shows "blit off' ys (blit off xs b) = blit off (xs @ ys) b"
  using assms by (simp add: blit_def ac_simps)

lemma cells_cells: "o' + m \<le> n \<Longrightarrow> cells o' m (cells off n b) = cells (off + o') m b"
  by (simp add: cells_def drop_take add.commute min_def)

lemma cells_append_left: "off + n \<le> length xs \<Longrightarrow> cells off n (xs @ ys) = cells off n xs"
  by (simp add: cells_def)

lemma cells_append_right:
  "length xs \<le> off \<Longrightarrow> cells off n (xs @ ys) = cells (off - length xs) n ys"
  by (simp add: cells_def)

lemma cells_take: "off + n \<le> m \<Longrightarrow> cells off n (take m b) = cells off n b"
  by (simp add: cells_def drop_take min_def)

lemma cells_add: "cells off (n + m) b = cells off n b @ cells (off + n) m b"
  unfolding cells_def take_add drop_drop by (simp only: add.commute)

text \<open>
  \<open>memcpy(dst + off, src, n)\<close>. The count of the code is an \<open>int\<close> that the call converts to the
  unsigned \<open>size_t\<close>, so a negative count is larger than every block.
\<close>

definition c_memcpy :: "int \<Rightarrow> 'a list \<Rightarrow> 'a list \<Rightarrow> int \<Rightarrow> 'a list res" where
  "c_memcpy off src dst n =
     (if 0 \<le> n \<and> n \<le> int (length src) \<and> 0 \<le> off \<and> off + n \<le> int (length dst)
      then Inr (blit (nat off) (take (nat n) src) dst)
      else Inl OutOfBounds)"

lemma length_c_memcpy [len_simps]:
  "c_memcpy off src dst n = Inr dst' \<Longrightarrow> length dst' = length dst"
  by (auto simp: c_memcpy_def split: if_splits)

end
