(* ===== verification/StdMap.thy ===== *)
theory StdMap
  imports Prelude
begin

text \<open>
  \<open>std::map\<close> as the code uses it: an association list in key order. \<open>map_ins\<close> is \<open>insert\<close>, which
  keeps an existing value; \<open>map_put\<close> is an assignment through \<open>operator[]\<close>, which replaces it;
  \<open>map_at\<close> is \<open>m[k]->f\<close> for a map of pointers, where a missing key yields a null pointer.
  \<open>each_key\<close> is the loop \<open>for (iter = m.begin(); iter != m.end(); iter++)\<close>.
\<close>

type_synonym ('k, 'v) smap = "('k \<times> 'v) list"

section \<open>Operations\<close>

fun map_find :: "'k \<Rightarrow> ('k, 'v) smap \<Rightarrow> 'v option" where
  "map_find k [] = None"
| "map_find k ((k', v) # m) = (if k = k' then Some v else map_find k m)"

fun map_ins :: "'k::linorder \<Rightarrow> 'v \<Rightarrow> ('k, 'v) smap \<Rightarrow> ('k, 'v) smap" where
  "map_ins k v [] = [(k, v)]"
| "map_ins k v ((k', v') # m) =
     (if k < k' then (k, v) # (k', v') # m
      else if k = k' then (k', v') # m
      else (k', v') # map_ins k v m)"

fun map_put :: "'k::linorder \<Rightarrow> 'v \<Rightarrow> ('k, 'v) smap \<Rightarrow> ('k, 'v) smap" where
  "map_put k v [] = [(k, v)]"
| "map_put k v ((k', v') # m) =
     (if k < k' then (k, v) # (k', v') # m
      else if k = k' then (k, v) # m
      else (k', v') # map_put k v m)"

fun map_del :: "'k \<Rightarrow> ('k, 'v) smap \<Rightarrow> ('k, 'v) smap" where
  "map_del k [] = []"
| "map_del k ((k', v') # m) = (if k = k' then m else (k', v') # map_del k m)"

definition map_at :: "'k \<Rightarrow> ('k, 'v) smap \<Rightarrow> 'v res" where
  "map_at k m = (case map_find k m of None \<Rightarrow> Inl NullDeref | Some v \<Rightarrow> Inr v)"

abbreviation keys :: "('k, 'v) smap \<Rightarrow> 'k list" where
  "keys m \<equiv> map fst m"

definition map_ok :: "('k::linorder, 'v) smap \<Rightarrow> bool" where
  "map_ok m \<longleftrightarrow> sorted_wrt (<) (keys m)"

text \<open>
  The loop over a map. The bodies of the code erase at most the element the iterator is at and
  insert nothing, so the keys are visited in the order they have at the start. When a body erases
  its element, the \<open>iter++\<close> that follows uses an invalid iterator. With \<open>resume = False\<close> this is the
  undefined behaviour it is; with \<open>resume = True\<close> the loop goes on with the next larger key, which
  is what a tree that leaves the links of an erased node in place does.
\<close>

definition each_key ::
  "bool \<Rightarrow> ('s \<Rightarrow> 'k list) \<Rightarrow> ('k \<Rightarrow> 's \<Rightarrow> 's res) \<Rightarrow> 's \<Rightarrow> 's res" where
  "each_key resume ks body s =
     rfold (\<lambda>k s. rbind (body k s) (\<lambda>s'.
              if resume \<or> k \<in> set (ks s') then Inr s' else Inl DanglingIter)) (ks s) s"

section \<open>Laws\<close>

lemma map_find_notin: "k \<notin> set (keys m) \<Longrightarrow> map_find k m = None"
  by (induction k m rule: map_find.induct) auto

lemma map_find_eq_None_iff: "map_find k m = None \<longleftrightarrow> k \<notin> set (keys m)"
  by (induction k m rule: map_find.induct) auto

lemma map_find_in_set: "map_find k m = Some v \<Longrightarrow> (k, v) \<in> set m"
  by (induction k m rule: map_find.induct) (auto split: if_splits)

lemma set_keys_map_ins [simp]: "set (keys (map_ins k v m)) = insert k (set (keys m))"
  by (induction k v m rule: map_ins.induct) auto

lemma set_keys_map_put [simp]: "set (keys (map_put k v m)) = insert k (set (keys m))"
  by (induction k v m rule: map_put.induct) auto

lemma map_ok_Nil [simp]: "map_ok []"
  by (simp add: map_ok_def)

lemma map_ok_Cons [simp]: "map_ok ((k, v) # m) \<longleftrightarrow> (\<forall>k' \<in> set (keys m). k < k') \<and> map_ok m"
  by (auto simp: map_ok_def)

lemma map_ok_distinct: "map_ok m \<Longrightarrow> distinct (keys m)"
  by (simp add: map_ok_def strict_sorted_iff)

lemma set_map_ins: "set (map_ins k v m) \<subseteq> insert (k, v) (set m)"
  by (induction k v m rule: map_ins.induct) auto

lemma set_map_put: "set (map_put k v m) \<subseteq> insert (k, v) (set m)"
  by (induction k v m rule: map_put.induct) auto

lemma set_map_del: "set (map_del k m) \<subseteq> set m"
  by (induction k m rule: map_del.induct) auto

lemma map_ok_map_ins: "map_ok m \<Longrightarrow> map_ok (map_ins k v m)"
proof (induction k v m rule: map_ins.induct)
  case (2 k v k' v' m)
  then show ?case using set_map_ins [of k v m] by fastforce
qed simp

lemma map_ok_map_put: "map_ok m \<Longrightarrow> map_ok (map_put k v m)"
proof (induction k v m rule: map_put.induct)
  case (2 k v k' v' m)
  then show ?case using set_map_put [of k v m] by fastforce
qed simp

lemma set_keys_map_del: "map_ok m \<Longrightarrow> set (keys (map_del k m)) = set (keys m) - {k}"
  by (induction k m rule: map_del.induct) auto

lemma map_ok_map_del: "map_ok m \<Longrightarrow> map_ok (map_del k m)"
proof (induction k m rule: map_del.induct)
  case (2 k k' v' m)
  then show ?case using set_map_del [of k m] by fastforce
qed simp

lemma map_find_less: "map_ok m \<Longrightarrow> \<forall>k' \<in> set (keys m). k < k' \<Longrightarrow> map_find k m = None"
  by (fastforce simp: map_find_eq_None_iff)

lemma map_find_map_ins:
  "map_ok m \<Longrightarrow> map_find k' (map_ins k v m) =
     (if k' = k \<and> map_find k m = None then Some v else map_find k' m)"
proof (induction k v m rule: map_ins.induct)
  case (2 k v k1 v1 m)
  then have "k < k1 \<Longrightarrow> map_find k m = None"
    by (intro map_find_less) auto
  with 2 show ?case by auto
qed auto

lemma map_find_map_put:
  "map_ok m \<Longrightarrow> map_find k' (map_put k v m) = (if k' = k then Some v else map_find k' m)"
  by (induction k v m rule: map_put.induct) auto

lemma map_find_map_del:
  "map_ok m \<Longrightarrow> map_find k' (map_del k m) = (if k' = k then None else map_find k' m)"
proof (induction k m rule: map_del.induct)
  case (1 k)
  then show ?case by simp
next
  case (2 k k1 v1 m)
  then have "k = k1 \<Longrightarrow> map_find k m = None"
    by (auto intro!: map_find_less)
  with 2 show ?case by auto
qed

lemma map_at_eq_Inr_iff [res_simps]: "map_at k m = Inr v \<longleftrightarrow> map_find k m = Some v"
  by (simp add: map_at_def split: option.split)

lemma map_at_Some [simp]: "map_find k m = Some v \<Longrightarrow> map_at k m = Inr v"
  and map_at_None [simp]: "map_find k m = None \<Longrightarrow> map_at k m = Inl NullDeref"
  by (simp_all add: map_at_def)

text \<open>A loop whose bodies keep an invariant keeps it.\<close>

lemma each_key_invariant:
  assumes "\<And>k s s'. I s \<Longrightarrow> body k s = Inr s' \<Longrightarrow> I s'"
    and "I s" and "each_key resume ks body s = Inr s'"
  shows "I s'"
proof (rule rfold_invariant [where I = I])
  show "I s" by (rule assms(2))
  show "rfold (\<lambda>k s. rbind (body k s) (\<lambda>s'.
      if resume \<or> k \<in> set (ks s') then Inr s' else Inl DanglingIter)) (ks s) s = Inr s'"
    using assms(3) by (simp add: each_key_def)
qed (auto simp: res_simps split: if_splits intro: assms(1))

lemma ensures_each_key:
  assumes "\<And>k s. I s \<Longrightarrow> ensures E I (body k s)" and "I s" and "resume \<or> E DanglingIter"
  shows "ensures E I (each_key resume ks body s)"
  unfolding each_key_def
proof (rule ensures_rfold)
  fix k s
  assume "I s"
  from assms(1) [OF this] show "ensures E I (rbind (body k s) (\<lambda>s'.
      if resume \<or> k \<in> set (ks s') then Inr s' else Inl DanglingIter))"
    by (rule ensures_rbind) (use assms(3) in auto)
qed (rule assms(2))

text \<open>Where no body erases its element the two readings agree.\<close>

lemma rfold_cong_inv:
  assumes "\<And>k s s'. k \<in> set xs \<Longrightarrow> I s \<Longrightarrow> f k s = g k s"
    and "\<And>k s s'. k \<in> set xs \<Longrightarrow> I s \<Longrightarrow> g k s = Inr s' \<Longrightarrow> I s'"
    and "I s"
  shows "rfold f xs s = rfold g xs s"
  using assms
proof (induction xs arbitrary: s)
  case Nil
  show ?case by simp
next
  case (Cons x xs)
  have eq: "f x s = g x s" using Cons.prems by simp
  show ?case
  proof (cases "g x s")
    case (Inl e)
    with eq show ?thesis by simp
  next
    case (Inr t)
    with Cons.prems have "I t" by (meson list.set_intros(1))
    with Cons.IH [of t] Cons.prems have "rfold f xs t = rfold g xs t"
      by (meson list.set_intros(2))
    with eq Inr show ?thesis by simp
  qed
qed

section \<open>The interface\<close>

text \<open>
  What the components rely on: lookups after each update, and that the key order, which fixes the
  order of every loop, survives.
\<close>

locale std_map =
  fixes find :: "'k::linorder \<Rightarrow> 'm \<Rightarrow> 'v option"
    and ins :: "'k \<Rightarrow> 'v \<Rightarrow> 'm \<Rightarrow> 'm"
    and put :: "'k \<Rightarrow> 'v \<Rightarrow> 'm \<Rightarrow> 'm"
    and del :: "'k \<Rightarrow> 'm \<Rightarrow> 'm"
    and order :: "'m \<Rightarrow> 'k list"
    and ok :: "'m \<Rightarrow> bool"
  assumes find_ins: "ok m \<Longrightarrow> find k' (ins k v m) =
      (if k' = k \<and> find k m = None then Some v else find k' m)"
    and find_put: "ok m \<Longrightarrow> find k' (put k v m) = (if k' = k then Some v else find k' m)"
    and find_del: "ok m \<Longrightarrow> find k' (del k m) = (if k' = k then None else find k' m)"
    and ok_ins: "ok m \<Longrightarrow> ok (ins k v m)"
    and ok_put: "ok m \<Longrightarrow> ok (put k v m)"
    and ok_del: "ok m \<Longrightarrow> ok (del k m)"
    and order_find: "ok m \<Longrightarrow> set (order m) = {k. find k m \<noteq> None}"
    and order_sorted: "ok m \<Longrightarrow> sorted_wrt (<) (order m)"
begin

lemma ins_keeps: "ok m \<Longrightarrow> find k m = Some v \<Longrightarrow> find k (ins k v' m) = Some v"
  by (simp add: find_ins)

lemma order_ins: "ok m \<Longrightarrow> order (ins k v m) = sorted_list_of_set (insert k (set (order m)))"
proof -
  assume m: "ok m"
  have "set (order (ins k v m)) = insert k (set (order m))"
    using m by (auto simp: order_find ok_ins find_ins split: if_splits)
  moreover have "sorted_wrt (<) (order (ins k v m))"
    using m by (simp add: order_sorted ok_ins)
  ultimately show ?thesis
    using strict_sorted_equal by (metis List.finite_set
        sorted_list_of_set.set_sorted_key_list_of_set sorted_list_of_set.strict_sorted_key_list_of_set)
qed

lemma order_del: "ok m \<Longrightarrow> set (order (del k m)) = set (order m) - {k}"
  by (auto simp: order_find ok_del find_del split: if_splits)

lemma del_ins: "ok m \<Longrightarrow> find k m = None \<Longrightarrow> find k' (del k (ins k v m)) = find k' m"
  by (simp add: find_del find_ins ok_ins)

end

interpretation smap: std_map map_find map_ins map_put map_del keys map_ok
proof unfold_locales
  fix m :: "('a::linorder, 'b) smap"
  assume "map_ok m"
  then show "sorted_wrt (<) (keys m)"
    by (simp add: map_ok_def)
qed (auto simp: map_find_map_ins map_find_map_put map_find_map_del map_ok_map_ins map_ok_map_put
    map_ok_map_del map_find_eq_None_iff)

end
