(* ===== verification/PackQueue.thy ===== *)
theory PackQueue
  imports Prelude
begin

text \<open>
  The lists through which the threads hand over work: \<open>CList\<close> and \<open>CUserList\<close> of the server and
  \<open>SaveList\<close> of the client. Each is a \<open>std::list\<close> with a separate 32-bit counter; the
  consumers test the counter and then pop. No constructor sets the counter, so a new list starts
  with whatever the memory held: the constructors take that value as an argument.

  The interface \<open>counted_queue\<close> states what the consumers need, and the lemmas on runs of pushes and
  pops are proved once inside it.
\<close>

section \<open>CList of the server\<close>

record 'a clist =
  m_packcount :: "32 word"
  m_package :: "'a list"

definition CList :: "32 word \<Rightarrow> 'a clist" where
  "CList junk = \<lparr>m_packcount = junk, m_package = []\<rparr>"

definition packFront :: "'a clist \<Rightarrow> 'a res" where
  "packFront l = (case m_package l of [] \<Rightarrow> Inl PopEmpty | p # ps \<Rightarrow> Inr p)"

definition packPop :: "'a clist \<Rightarrow> ('a \<times> 'a clist) res" where
  "packPop l = (case m_package l of
       [] \<Rightarrow> Inl PopEmpty
     | p # ps \<Rightarrow> Inr (p, l\<lparr>m_package := ps, m_packcount := m_packcount l - 1\<rparr>))"

definition getPackSize :: "'a clist \<Rightarrow> int" where
  "getPackSize l = sint (m_packcount l)"

definition packPush :: "'a \<Rightarrow> 'a clist \<Rightarrow> 'a clist" where
  "packPush p l = l\<lparr>m_package := m_package l @ [p], m_packcount := m_packcount l + 1\<rparr>"

section \<open>CUserList of the server: two lists in one object\<close>

record ('u, 'l) cuserlist =
  m_count :: "32 word"
  m_user :: "'u list"
  m_unLoginCount :: "32 word"
  m_unloginuser :: "'l list"

definition CUserList :: "32 word \<Rightarrow> 32 word \<Rightarrow> ('u, 'l) cuserlist" where
  "CUserList junk junk' =
     \<lparr>m_count = junk, m_user = [], m_unLoginCount = junk', m_unloginuser = []\<rparr>"

definition vcdPop :: "('u, 'l) cuserlist \<Rightarrow> ('u \<times> ('u, 'l) cuserlist) res" where
  "vcdPop l = (case m_user l of
       [] \<Rightarrow> Inl PopEmpty
     | u # us \<Rightarrow> Inr (u, l\<lparr>m_user := us, m_count := m_count l - 1\<rparr>))"

definition getSize :: "('u, 'l) cuserlist \<Rightarrow> int" where
  "getSize l = sint (m_count l)"

definition vcdPush :: "'u \<Rightarrow> ('u, 'l) cuserlist \<Rightarrow> ('u, 'l) cuserlist" where
  "vcdPush u l = l\<lparr>m_user := m_user l @ [u], m_count := m_count l + 1\<rparr>"

definition unloginUserPop :: "('u, 'l) cuserlist \<Rightarrow> ('l \<times> ('u, 'l) cuserlist) res" where
  "unloginUserPop l = (case m_unloginuser l of
       [] \<Rightarrow> Inl PopEmpty
     | u # us \<Rightarrow> Inr (u, l\<lparr>m_unloginuser := us, m_unLoginCount := m_unLoginCount l - 1\<rparr>))"

definition getUnloginSize :: "('u, 'l) cuserlist \<Rightarrow> int" where
  "getUnloginSize l = sint (m_unLoginCount l)"

definition unloginUserPush :: "'l \<Rightarrow> ('u, 'l) cuserlist \<Rightarrow> ('u, 'l) cuserlist" where
  "unloginUserPush u l =
     l\<lparr>m_unloginuser := m_unloginuser l @ [u], m_unLoginCount := m_unLoginCount l + 1\<rparr>"

section \<open>SaveList of the client\<close>

record 'a savelist =
  sl_packcount :: "32 word"
  sl_package :: "'a list"

definition SaveList :: "32 word \<Rightarrow> 'a savelist" where
  "SaveList junk = \<lparr>sl_packcount = junk, sl_package = []\<rparr>"

definition pack_pop :: "'a savelist \<Rightarrow> ('a \<times> 'a savelist) res" where
  "pack_pop l = (case sl_package l of
       [] \<Rightarrow> Inl PopEmpty
     | p # ps \<Rightarrow> Inr (p, l\<lparr>sl_package := ps, sl_packcount := sl_packcount l - 1\<rparr>))"

definition sl_getPackSize :: "'a savelist \<Rightarrow> int" where
  "sl_getPackSize l = sint (sl_packcount l)"

definition pack_push :: "'a \<Rightarrow> 'a savelist \<Rightarrow> 'a savelist" where
  "pack_push p l = l\<lparr>sl_package := sl_package l @ [p], sl_packcount := sl_packcount l + 1\<rparr>"

section \<open>The interface\<close>

datatype 'a qop = Push 'a | Pop

fun qrun ::
  "('a \<Rightarrow> 'q \<Rightarrow> 'q) \<Rightarrow> ('q \<Rightarrow> ('a \<times> 'q) res) \<Rightarrow> 'a qop list \<Rightarrow> 'q \<Rightarrow> ('a list \<times> 'q) res" where
  "qrun push pop [] q = Inr ([], q)"
| "qrun push pop (Push x # ops) q = qrun push pop ops (push x q)"
| "qrun push pop (Pop # ops) q =
     rbind (pop q) (\<lambda>(x, q'). rbind (qrun push pop ops q') (\<lambda>(xs, q''). Inr (x # xs, q'')))"

fun pushed :: "'a qop list \<Rightarrow> 'a list" where
  "pushed [] = []"
| "pushed (Push x # ops) = x # pushed ops"
| "pushed (Pop # ops) = pushed ops"

locale counted_queue =
  fixes push :: "'a \<Rightarrow> 'q \<Rightarrow> 'q"
    and pop :: "'q \<Rightarrow> ('a \<times> 'q) res"
    and size_of :: "'q \<Rightarrow> int"
    and counter :: "'q \<Rightarrow> 32 word"
    and items :: "'q \<Rightarrow> 'a list"
  assumes items_push: "items (push x q) = items q @ [x]"
    and counter_push: "counter (push x q) = counter q + 1"
    and pop_empty: "items q = [] \<Longrightarrow> pop q = Inl PopEmpty"
    and pop_Cons: "items q = x # xs \<Longrightarrow>
        \<exists>q'. pop q = Inr (x, q') \<and> items q' = xs \<and> counter q' = counter q - 1"
    and size_counter: "size_of q = sint (counter q)"
begin

lemma pop_Inr:
  assumes "pop q = Inr (x, q')"
  shows "items q = x # items q'" and "counter q' = counter q - 1"
  using assms pop_empty [of q] pop_Cons [of q] by (cases "items q"; fastforce)+

text \<open>The elements come out in the order they went in, none lost and none twice.\<close>

lemma run_fifo: "qrun push pop ops q = Inr (out, q') \<Longrightarrow> items q @ pushed ops = out @ items q'"
proof (induction ops arbitrary: q out)
  case Nil
  then show ?case by simp
next
  case (Cons op ops)
  show ?case
  proof (cases op)
    case (Push x)
    with Cons.prems Cons.IH [of "push x q" out] show ?thesis
      by (simp add: items_push)
  next
    case Pop
    with Cons.prems obtain x q1 xs where
      "pop q = Inr (x, q1)" "qrun push pop ops q1 = Inr (xs, q')" "out = x # xs"
      by (auto simp: res_simps)
    with Cons.IH [of q1 xs] pop_Inr(1) [of q x q1] Pop show ?thesis by simp
  qed
qed

text \<open>The counter follows the length up to the constant it started with.\<close>

lemma run_counter:
  "qrun push pop ops q = Inr (out, q') \<Longrightarrow>
   counter q' - word_of_nat (length (items q')) = counter q - word_of_nat (length (items q))"
proof (induction ops arbitrary: q out)
  case Nil
  then show ?case by simp
next
  case (Cons op ops)
  show ?case
  proof (cases op)
    case (Push x)
    with Cons.prems Cons.IH [of "push x q" out] show ?thesis
      by (simp add: items_push counter_push)
  next
    case Pop
    with Cons.prems obtain x q1 xs where
      p: "pop q = Inr (x, q1)" and r: "qrun push pop ops q1 = Inr (xs, q')"
      by (auto simp: res_simps)
    from Cons.IH [OF r] pop_Inr [OF p] show ?thesis by simp
  qed
qed

text \<open>What the consumers rely on: a positive size means that there is something to pop.\<close>

lemma size_guards_pop:
  assumes "counter q = word_of_nat (length (items q))" "0 < size_of q"
  shows "\<exists>x q'. pop q = Inr (x, q')"
  using assms pop_Cons by (cases "items q") (fastforce simp: size_counter)+

lemma size_exact:
  assumes "counter q = word_of_nat (length (items q))" "length (items q) < 2 ^ 31"
  shows "size_of q = int (length (items q))"
  using assms by (simp add: size_counter signed_of_nat signed_take_bit_int_eq_self)

text \<open>
  A new list whose counter was not zero claims to hold an element that is not there, or hides
  elements that are.
\<close>

lemma run_from_new:
  assumes "items q = []" "qrun push pop ops q = Inr (out, q')"
  shows "out @ items q' = pushed ops"
    and "size_of q' = sint (counter q + word_of_nat (length (items q')))"
  using run_fifo [OF assms(2)] run_counter [OF assms(2)] assms(1)
  by (simp_all add: size_counter algebra_simps)

end

interpretation clist: counted_queue packPush packPop getPackSize m_packcount m_package
  by unfold_locales (auto simp: packPush_def packPop_def getPackSize_def)

interpretation vcd: counted_queue vcdPush vcdPop getSize m_count m_user
  by unfold_locales (auto simp: vcdPush_def vcdPop_def getSize_def)

interpretation unlogin: counted_queue unloginUserPush unloginUserPop getUnloginSize m_unLoginCount m_unloginuser
  by unfold_locales (auto simp: unloginUserPush_def unloginUserPop_def getUnloginSize_def)

interpretation savelist: counted_queue pack_push pack_pop sl_getPackSize sl_packcount sl_package
  by unfold_locales (auto simp: pack_push_def pack_pop_def sl_getPackSize_def)

end
