(* ===== verification/CBytes.thy ===== *)
theory CBytes
  imports Prelude
begin

text \<open>
  Bytes, the machine integers that the code stores in packed structs, and C strings. The target is
  little endian with a 32-bit \<open>int\<close> and a 64-bit \<open>time_t\<close>; both ends of the protocol cast the bytes
  of a packet to a packed struct, so a field is its offset and its width.
\<close>

type_synonym byte = "8 word"
type_synonym block = "byte list"
type_synonym i32 = "32 word"
type_synonym i64 = "64 word"

section \<open>Little-endian numbers\<close>

fun le_enc :: "nat \<Rightarrow> nat \<Rightarrow> block" where
  "le_enc 0 x = []"
| "le_enc (Suc n) x = word_of_nat x # le_enc n (x div 256)"

fun le_dec :: "block \<Rightarrow> nat" where
  "le_dec [] = 0"
| "le_dec (b # bs) = unat b + 256 * le_dec bs"

lemma le_enc_numeral:
  "le_enc (numeral k) x = word_of_nat x # le_enc (pred_numeral k) (x div 256)"
  by (simp only: numeral_eq_Suc [of k] le_enc.simps)

lemma length_le_enc [simp]: "length (le_enc n x) = n"
  by (induction n arbitrary: x) auto

lemma unat_of_nat_byte: "unat (word_of_nat x :: byte) = x mod 256"
  by (simp add: unat_of_nat)

lemma le_dec_enc: "le_dec (le_enc n x) = x mod 256 ^ n"
  by (induction n arbitrary: x) (simp_all add: unat_of_nat_byte mod_mult2_eq)

lemma le_dec_less: "le_dec bs < 256 ^ length bs"
proof (induction bs)
  case Nil
  show ?case by simp
next
  case (Cons b bs)
  have "unat b < 256" using unsigned_less [of b] by simp
  moreover have "Suc (le_dec bs) \<le> 256 ^ length bs" using Cons.IH by simp
  ultimately show ?case by simp
qed

lemma le_enc_dec: "n = length bs \<Longrightarrow> le_enc n (le_dec bs) = bs"
proof (induction bs arbitrary: n)
  case Nil
  then show ?case by simp
next
  case (Cons b bs)
  have b: "unat b < 256" using unsigned_less [of b] by simp
  have "(word_of_nat (unat b + 256 * le_dec bs) :: byte) = b"
    by (rule word_unat_eq_iff [THEN iffD2]) (use b in \<open>simp add: unat_of_nat del: of_nat_add of_nat_mult\<close>)
  with Cons b show ?case by simp
qed

definition i32_bytes :: "i32 \<Rightarrow> block" where
  "i32_bytes w = le_enc 4 (unat w)"

definition bytes_i32 :: "block \<Rightarrow> i32" where
  "bytes_i32 bs = word_of_nat (le_dec bs)"

definition i64_bytes :: "i64 \<Rightarrow> block" where
  "i64_bytes w = le_enc 8 (unat w)"

definition bytes_i64 :: "block \<Rightarrow> i64" where
  "bytes_i64 bs = word_of_nat (le_dec bs)"

lemma length_i32_bytes [simp]: "length (i32_bytes w) = 4"
  and length_i64_bytes [simp]: "length (i64_bytes t) = 8"
  by (simp_all add: i32_bytes_def i64_bytes_def)

lemma bytes_i32_bytes [simp]: "bytes_i32 (i32_bytes w) = w"
proof -
  have "unat w < 2 ^ 32" using unsigned_less [of w] by simp
  then show ?thesis by (simp add: bytes_i32_def i32_bytes_def le_dec_enc)
qed

lemma bytes_i64_bytes [simp]: "bytes_i64 (i64_bytes w) = w"
proof -
  have "unat w < 2 ^ 64" using unsigned_less [of w] by simp
  then show ?thesis by (simp add: bytes_i64_def i64_bytes_def le_dec_enc)
qed

lemma i32_bytes_bytes [buf_simps]: "length bs = 4 \<Longrightarrow> i32_bytes (bytes_i32 bs) = bs"
  using le_dec_less [of bs]
  by (simp add: i32_bytes_def bytes_i32_def unat_of_nat le_enc_dec)

text \<open>Numbers that fit survive the conversion to a machine integer and back.\<close>

lemma sint_word_of_nat: "n < 2 ^ 31 \<Longrightarrow> sint (word_of_nat n :: i32) = int n"
  by (simp add: signed_of_nat signed_take_bit_int_eq_self)

lemma sint_word_of_int:
  "- (2 ^ 31) \<le> i \<Longrightarrow> i < 2 ^ 31 \<Longrightarrow> sint (word_of_int i :: i32) = i"
  by (simp add: signed_of_int signed_take_bit_int_eq_self)

section \<open>Fields of a block\<close>

definition rd32 :: "nat \<Rightarrow> block \<Rightarrow> i32 res" where
  "rd32 off b = (if off + 4 \<le> length b then Inr (bytes_i32 (cells off 4 b)) else Inl OutOfBounds)"

definition wr32 :: "nat \<Rightarrow> i32 \<Rightarrow> block \<Rightarrow> block res" where
  "wr32 off w b = (if off + 4 \<le> length b then Inr (blit off (i32_bytes w) b) else Inl OutOfBounds)"

definition rd64 :: "nat \<Rightarrow> block \<Rightarrow> i64 res" where
  "rd64 off b = (if off + 8 \<le> length b then Inr (bytes_i64 (cells off 8 b)) else Inl OutOfBounds)"

definition wr64 :: "nat \<Rightarrow> i64 \<Rightarrow> block \<Rightarrow> block res" where
  "wr64 off w b = (if off + 8 \<le> length b then Inr (blit off (i64_bytes w) b) else Inl OutOfBounds)"

lemma rd32_Inr [simp]:
  "off + 4 \<le> length b \<Longrightarrow> rd32 off b = Inr (bytes_i32 (cells off 4 b))"
  by (simp add: rd32_def)

lemma wr32_Inr [simp]:
  "off + 4 \<le> length b \<Longrightarrow> wr32 off w b = Inr (blit off (i32_bytes w) b)"
  by (simp add: wr32_def)

lemma rd64_Inr [simp]:
  "off + 8 \<le> length b \<Longrightarrow> rd64 off b = Inr (bytes_i64 (cells off 8 b))"
  by (simp add: rd64_def)

lemma wr64_Inr [simp]:
  "off + 8 \<le> length b \<Longrightarrow> wr64 off w b = Inr (blit off (i64_bytes w) b)"
  by (simp add: wr64_def)

lemma length_wr32 [len_simps]: "wr32 off w b = Inr b' \<Longrightarrow> length b' = length b"
  by (auto simp: wr32_def split: if_splits)

lemma length_wr64 [len_simps]: "wr64 off w b = Inr b' \<Longrightarrow> length b' = length b"
  by (auto simp: wr64_def split: if_splits)

section \<open>C strings\<close>

text \<open>
  The bytes of a literal, without its final zero; \<open>strcpy\<close> of a literal; and the test
  \<open>strcmp(b + off, lit) == 0\<close>, which compares one byte after the other up to the zero of the
  literal and therefore reads no further than that.
\<close>

definition str_bytes :: "string \<Rightarrow> block" where
  "str_bytes s = map of_char s"

definition c_strcpy :: "nat \<Rightarrow> block \<Rightarrow> block \<Rightarrow> block res" where
  "c_strcpy off s b =
     (if off + length s + 1 \<le> length b then Inr (blit off (s @ [0]) b) else Inl OutOfBounds)"

definition c_streq :: "nat \<Rightarrow> string \<Rightarrow> block \<Rightarrow> bool" where
  "c_streq off lit b \<longleftrightarrow> cells off (length lit + 1) b = str_bytes lit @ [0]"

lemma length_str_bytes [simp]: "length (str_bytes s) = length s"
  by (simp add: str_bytes_def)

lemma c_strcpy_Inr [simp]:
  "off + length s + 1 \<le> length b \<Longrightarrow> c_strcpy off s b = Inr (blit off (s @ [0]) b)"
  by (simp add: c_strcpy_def)

text \<open>\<open>strlen\<close>: the number of bytes before the first zero; none inside the block is a read past it.\<close>

fun c_strlen :: "block \<Rightarrow> nat res" where
  "c_strlen [] = Inl OutOfBounds"
| "c_strlen (b # bs) = (if b = 0 then Inr 0 else rbind (c_strlen bs) (\<lambda>n. Inr (Suc n)))"

lemma c_strlen_append [simp]: "0 \<notin> set s \<Longrightarrow> c_strlen (s @ 0 # r) = Inr (length s)"
  by (induction s) auto

lemma c_strlen_less: "c_strlen b = Inr n \<Longrightarrow> n < length b \<and> b ! n = 0 \<and> 0 \<notin> set (take n b)"
proof (induction b arbitrary: n)
  case Nil
  then show ?case by simp
next
  case (Cons x b)
  then show ?case
    by (cases "x = 0") (auto simp: res_simps)
qed

definition c_str :: "block \<Rightarrow> block res" where
  "c_str b = rbind (c_strlen b) (\<lambda>n. Inr (take n b))"

lemma c_str_append [simp]: "0 \<notin> set s \<Longrightarrow> c_str (s @ 0 # r) = Inr s"
  by (simp add: c_str_def)

lemma c_str_no_zero: "0 \<notin> set b \<Longrightarrow> c_str b = Inl OutOfBounds"
proof -
  have "0 \<notin> set b \<Longrightarrow> c_strlen b = Inl OutOfBounds" by (induction b) auto
  then show "0 \<notin> set b \<Longrightarrow> c_str b = Inl OutOfBounds" by (simp add: c_str_def)
qed

end
