(* ===== verification/Kernel.thy ===== *)
theory Kernel
  imports CBytes
begin

text \<open>
  The socket calls the code makes, as far as it uses them. A connected socket is its receive queue
  \<open>rx\<close> and whether the peer has closed its side (\<open>eof\<close>). Sockets are non-blocking where the code
  made them so: a \<open>recv\<close> on an empty queue then fails with -1. What the scheduler and the network
  decide (when bytes arrive, how many bytes \<open>send\<close> accepts, the clock) are arguments.
\<close>

text \<open>
  \<open>recv(fd, buf, n, 0)\<close>: the returned count, the bytes stored and the rest of the queue. The count
  \<open>n\<close> is converted to \<open>size_t\<close>, so a negative \<open>n\<close> asks for everything.
\<close>

definition k_recv :: "int \<Rightarrow> block \<Rightarrow> bool \<Rightarrow> int \<times> block \<times> block" where
  "k_recv n rx eof =
     (if n = 0 then (0, [], rx)
      else if rx = [] then (if eof then 0 else - 1, [], [])
      else let d = (if n < 0 then rx else take (nat n) rx)
           in (int (length d), d, drop (length d) rx))"

text \<open>\<open>ioctl(fd, FIONREAD, &n)\<close>: the number of bytes in the receive queue.\<close>

definition k_fionread :: "block \<Rightarrow> int" where
  "k_fionread rx = int (length rx)"

text \<open>Interest masks of \<open>epoll_ctl\<close>.\<close>

definition EPOLLIN :: "32 word" where "EPOLLIN = 1"
definition EPOLLOUT :: "32 word" where "EPOLLOUT = 4"
definition EPOLLET :: "32 word" where "EPOLLET = 0x80000000"

lemma k_recv_take:
  "0 < n \<Longrightarrow> rx \<noteq> [] \<Longrightarrow>
   k_recv n rx eof = (int (min (nat n) (length rx)), take (nat n) rx, drop (nat n) rx)"
  by (auto simp: k_recv_def Let_def min_def)

lemma k_recv_zero [simp]: "k_recv 0 rx eof = (0, [], rx)"
  by (simp add: k_recv_def)

lemma k_recv_would_block: "n \<noteq> 0 \<Longrightarrow> k_recv n [] False = (- 1, [], [])"
  by (simp add: k_recv_def)

lemma k_recv_eof: "n \<noteq> 0 \<Longrightarrow> k_recv n [] True = (0, [], [])"
  by (simp add: k_recv_def)

end
