(* ===== verification/Framing.thy ===== *)
theory Framing
  imports Kernel "HOL-Library.Sublist"
begin

text \<open>
  How a TCP byte stream is cut into packets. The header of a packet is four 32-bit numbers
  (command, user, length, version); the length counts the header. The receivers read the header
  first and then the rest, across as many readiness events as it takes. This theory has the shared
  notions, the server's receiver \<open>CCmdRecv\<close> with the reading part of \<open>CIo::epollRead\<close>, and the
  interface \<open>framer\<close> that the receivers of the server, the client and the stress tester all provide.
\<close>

section \<open>Packets\<close>

definition header_size :: int where
  "header_size = 16"

definition block_size :: nat where
  "block_size = 1436"

text \<open>The length field of the header, as the signed \<open>int\<close> it is declared to be.\<close>

definition hdr_length :: "block \<Rightarrow> int" where
  "hdr_length b = sint (bytes_i32 (cells 8 4 b))"

text \<open>The part of a received block that is the packet.\<close>

definition payload :: "block \<Rightarrow> block" where
  "payload b = take (nat (hdr_length b)) b"

text \<open>A packet whose length field is right and which fits a receive block.\<close>

definition valid_packet :: "nat \<Rightarrow> block \<Rightarrow> bool" where
  "valid_packet least p \<longleftrightarrow>
     least \<le> length p \<and> length p \<le> block_size \<and> hdr_length p = int (length p)"

lemma hdr_length_append: "12 \<le> length p \<Longrightarrow> hdr_length (p @ q) = hdr_length p"
  by (simp add: hdr_length_def cells_append_left)

lemma hdr_length_blit: "12 \<le> length p \<Longrightarrow> hdr_length (blit 0 p b) = hdr_length p"
  by (simp add: hdr_length_def cells_blit_inside)

lemma hdr_length_blit_body: "16 \<le> h \<Longrightarrow> h \<le> length b \<Longrightarrow> hdr_length (blit h d b) = hdr_length b"
  by (simp add: hdr_length_def)

lemma hdr_length_take: "12 \<le> n \<Longrightarrow> hdr_length (take n b) = hdr_length b"
  by (simp add: hdr_length_def cells_take)

section \<open>CCmdRecv and the reading part of CIo::epollRead\<close>

record ccmdrecv =
  m_recvBuff :: "block option"
  m_recvHeadFlag :: bool
  m_totalLengthOfData :: int
  m_lengthHasRecv :: int

definition CCmdRecv :: ccmdrecv where
  "CCmdRecv = \<lparr>m_recvBuff = None, m_recvHeadFlag = False, m_totalLengthOfData = 0,
               m_lengthHasRecv = 0\<rparr>"

text \<open>\<open>getRecvBuff\<close>: a new block of 1436 cells with indeterminate contents \<open>junk\<close>.\<close>

definition getRecvBuff :: "block \<Rightarrow> ccmdrecv \<Rightarrow> ccmdrecv" where
  "getRecvBuff junk r = r\<lparr>m_recvBuff := Some junk\<rparr>"

definition recv_block :: "ccmdrecv \<Rightarrow> block res" where
  "recv_block r = (case m_recvBuff r of None \<Rightarrow> Inl UninitRead | Some b \<Rightarrow> Inr b)"

text \<open>
  The header: \<open>recv\<close> of 16 bytes into a new block. The boolean tells that \<open>recv\<close> returned 0, after
  which \<open>epollRead\<close> removes the user and returns.
\<close>

definition recv_head :: "block \<Rightarrow> ccmdrecv \<Rightarrow> block \<Rightarrow> bool \<Rightarrow> (ccmdrecv \<times> block \<times> bool) res" where
  "recv_head junk r rx eof =
     (case k_recv header_size rx eof of (n, d, rx') \<Rightarrow>
        rbind (c_memcpy 0 d junk (int (length d))) (\<lambda>b.
          if n = 0 then Inr (getRecvBuff b r, rx', True)
          else rbind (rd32 8 b) (\<lambda>len.
            Inr ((getRecvBuff b r)\<lparr>m_totalLengthOfData := sint len,
                   m_lengthHasRecv := header_size, m_recvHeadFlag := True\<rparr>, rx', False))))"

text \<open>
  The rest: a failed \<open>recv\<close> removes the user from the map and then goes on with
  \<open>m_map[sockfd]->m_recv\<close>, which is a null pointer by then.
\<close>

definition recv_body :: "ccmdrecv \<Rightarrow> block \<Rightarrow> bool \<Rightarrow> (ccmdrecv \<times> block \<times> block list) res" where
  "recv_body r rx eof =
     (let nres = m_totalLengthOfData r - m_lengthHasRecv r in
      case k_recv nres rx eof of (n, d, rx') \<Rightarrow>
        if n < 0 then Inl NullDeref
        else rbind (recv_block r) (\<lambda>b.
          rbind (c_memcpy (m_lengthHasRecv r) d b (int (length d))) (\<lambda>b'.
            let r' = r\<lparr>m_recvBuff := Some b', m_lengthHasRecv := m_lengthHasRecv r + n\<rparr> in
            if m_lengthHasRecv r' = m_totalLengthOfData r'
            then Inr (r'\<lparr>m_lengthHasRecv := 0, m_recvHeadFlag := False\<rparr>, rx', [b'])
            else Inr (r', rx', []))))"

text \<open>
  One readiness event after the test for a closed connection: the new receive state, the rest of
  the queue, the blocks pushed to the packet list, and whether the user is to be removed.
\<close>

definition recv_step ::
  "block \<Rightarrow> ccmdrecv \<Rightarrow> block \<Rightarrow> bool \<Rightarrow> (ccmdrecv \<times> block \<times> block list \<times> bool) res" where
  "recv_step junk r rx eof =
     (if header_size \<le> k_fionread rx \<or> m_recvHeadFlag r then
        rbind (if \<not> m_recvHeadFlag r then recv_head junk r rx eof else Inr (r, rx, False))
          (\<lambda>(r1, rx1, gone).
             if gone then Inr (r1, rx1, [], True)
             else if m_recvHeadFlag r1
             then rbind (recv_body r1 rx1 eof) (\<lambda>(r2, rx2, out). Inr (r2, rx2, out, False))
             else Inr (r1, rx1, [], False))
      else Inr (r, rx, [], False))"

section \<open>The interface\<close>

text \<open>
  \<open>partial s\<close> is what the receiver holds of the packet it is in. \<open>step\<close> is one readiness event,
  \<open>ready\<close> the condition under which the receiver handles it properly, \<open>least\<close> the length of the
  shortest packet the receiver takes.
\<close>

locale framer =
  fixes step :: "block \<Rightarrow> 's \<Rightarrow> block \<Rightarrow> ('s \<times> block \<times> block list) res"
    and partial :: "'s \<Rightarrow> block"
    and framed :: "'s \<Rightarrow> bool"
    and ready :: "'s \<Rightarrow> block \<Rightarrow> bool"
    and least :: nat
  assumes step_frames:
    "framed s \<Longrightarrow> length junk = block_size \<Longrightarrow> ready s rx \<Longrightarrow> \<forall>p \<in> set ps. valid_packet least p \<Longrightarrow>
     prefix (partial s @ rx) (concat ps) \<Longrightarrow>
     \<exists>s' rx' out. step junk s rx = Inr (s', rx', out) \<and> framed s' \<and>
       (if out = [] then partial s' @ rx' = partial s @ rx
        else \<exists>b p ps'. out = [b] \<and> ps = p # ps' \<and> payload b = p \<and>
               p @ partial s' @ rx' = partial s @ rx)"

text \<open>Bytes arrive, or the receiver handles a readiness event, in any order.\<close>

datatype net_event = Arrive block | Readable block

fun frun ::
  "(block \<Rightarrow> 's \<Rightarrow> block \<Rightarrow> ('s \<times> block \<times> block list) res) \<Rightarrow> net_event list \<Rightarrow> 's \<Rightarrow> block \<Rightarrow>
   (block list \<times> 's \<times> block) res" where
  "frun step [] s rx = Inr ([], s, rx)"
| "frun step (Arrive d # es) s rx = frun step es s (rx @ d)"
| "frun step (Readable junk # es) s rx =
     rbind (step junk s rx) (\<lambda>(s', rx', out).
       rbind (frun step es s' rx') (\<lambda>(outs, s'', rx''). Inr (out @ outs, s'', rx'')))"

fun arrivals :: "net_event list \<Rightarrow> block" where
  "arrivals [] = []"
| "arrivals (Arrive d # es) = d @ arrivals es"
| "arrivals (Readable junk # es) = arrivals es"

fun all_ready ::
  "(block \<Rightarrow> 's \<Rightarrow> block \<Rightarrow> ('s \<times> block \<times> block list) res) \<Rightarrow> ('s \<Rightarrow> block \<Rightarrow> bool) \<Rightarrow>
   net_event list \<Rightarrow> 's \<Rightarrow> block \<Rightarrow> bool" where
  "all_ready step ready [] s rx \<longleftrightarrow> True"
| "all_ready step ready (Arrive d # es) s rx \<longleftrightarrow> all_ready step ready es s (rx @ d)"
| "all_ready step ready (Readable junk # es) s rx \<longleftrightarrow>
     length junk = block_size \<and> ready s rx \<and>
     (case step junk s rx of Inl _ \<Rightarrow> True | Inr (s', rx', out) \<Rightarrow> all_ready step ready es s' rx')"

context framer
begin

text \<open>
  However the stream is cut up: no event stops the program, the packets come out whole and in
  order, and what is not yet out is in the receiver or in the queue.
\<close>

lemma run_frames:
  assumes "framed s" "all_ready step ready es s rx" "\<forall>p \<in> set ps. valid_packet least p"
    and "prefix (partial s @ rx @ arrivals es) (concat ps)"
  shows "\<exists>outs s' rx'. frun step es s rx = Inr (outs, s', rx') \<and> framed s' \<and>
    map payload outs = take (length outs) ps \<and>
    partial s @ rx @ arrivals es = concat (map payload outs) @ partial s' @ rx'"
  using assms
proof (induction es arbitrary: s rx ps)
  case Nil
  then show ?case by simp
next
  case (Cons e es)
  show ?case
  proof (cases e)
    case (Arrive d)
    with Cons.IH [of s "rx @ d" ps] Cons.prems show ?thesis by simp
  next
    case (Readable junk)
    with Cons.prems have j: "length junk = block_size" and rdy: "ready s rx"
      and pre: "prefix ((partial s @ rx) @ arrivals es) (concat ps)"
      by simp_all
    from pre have "prefix (partial s @ rx) (concat ps)" by (rule append_prefixD)
    from step_frames [OF Cons.prems(1) j rdy Cons.prems(3) this] obtain s1 rx1 out where
      st: "step junk s rx = Inr (s1, rx1, out)" and fr: "framed s1"
      and o: "if out = [] then partial s1 @ rx1 = partial s @ rx
        else \<exists>b p ps'. out = [b] \<and> ps = p # ps' \<and> payload b = p \<and>
               p @ partial s1 @ rx1 = partial s @ rx"
      by blast
    have ar: "all_ready step ready es s1 rx1" using Cons.prems(2) Readable st by simp
    show ?thesis
    proof (cases "out = []")
      case True
      with o have eq: "partial s1 @ rx1 = partial s @ rx" by simp
      then have "prefix (partial s1 @ rx1 @ arrivals es) (concat ps)"
        using pre by (simp flip: append_assoc)
      from Cons.IH [OF fr ar Cons.prems(3) this] obtain outs s' rx' where
        "frun step es s1 rx1 = Inr (outs, s', rx')" "framed s'"
        "map payload outs = take (length outs) ps"
        "partial s1 @ rx1 @ arrivals es = concat (map payload outs) @ partial s' @ rx'"
        by blast
      with st True Readable eq show ?thesis by (simp flip: append_assoc)
    next
      case False
      with o obtain b p ps' where out: "out = [b]" and ps: "ps = p # ps'" and b: "payload b = p"
        and eq: "p @ partial s1 @ rx1 = partial s @ rx"
        by auto
      have "prefix ((p @ partial s1 @ rx1) @ arrivals es) (p @ concat ps')"
        using pre unfolding eq ps by simp
      then have "prefix (partial s1 @ rx1 @ arrivals es) (concat ps')" by simp
      moreover have "\<forall>p \<in> set ps'. valid_packet least p" using Cons.prems(3) ps by simp
      ultimately obtain outs s' rx' where
        r: "frun step es s1 rx1 = Inr (outs, s', rx')" "framed s'"
        "map payload outs = take (length outs) ps'"
        "partial s1 @ rx1 @ arrivals es = concat (map payload outs) @ partial s' @ rx'"
        using Cons.IH [OF fr ar] by blast
      have "partial s @ rx @ arrivals es = (p @ partial s1 @ rx1) @ arrivals es"
        unfolding eq by simp
      also have "\<dots> = p @ concat (map payload outs) @ partial s' @ rx'"
        using r(4) by simp
      finally show ?thesis using st out ps b r Readable by simp
    qed
  qed
qed

text \<open>When everything sent has arrived and been read, exactly the packets sent came out.\<close>

lemma run_complete:
  assumes "framed s" "partial s = []" "all_ready step ready es s []"
    and "\<forall>p \<in> set ps. valid_packet least p" "arrivals es = concat ps" "0 < least"
    and "frun step es s [] = Inr (outs, s', [])" "partial s' = []"
  shows "map payload outs = ps"
proof -
  from run_frames [of s es "[]" ps] assms
  have t: "map payload outs = take (length outs) ps" and c: "concat ps = concat (map payload outs)"
    by auto
  have "concat ps = concat (take (length outs) ps) @ concat (drop (length outs) ps)"
    by (metis append_take_drop_id concat_append)
  then have "concat (drop (length outs) ps) = []"
    using c t by simp
  moreover have "p \<noteq> []" if "p \<in> set ps" for p
    using that assms(4,6) by (auto simp: valid_packet_def)
  ultimately have "drop (length outs) ps = []"
    by (metis concat_eq_Nil_conv in_set_dropD last_in_set)
  with t show ?thesis by simp
qed

end

section \<open>The server's receiver provides the interface\<close>

definition server_read :: "block \<Rightarrow> ccmdrecv \<Rightarrow> block \<Rightarrow> (ccmdrecv \<times> block \<times> block list) res" where
  "server_read junk r rx =
     rbind (recv_step junk r rx False) (\<lambda>(r', rx', out, gone). Inr (r', rx', out))"

definition recv_partial :: "ccmdrecv \<Rightarrow> block" where
  "recv_partial r =
     (case m_recvBuff r of
        Some b \<Rightarrow> if m_recvHeadFlag r then take (nat (m_lengthHasRecv r)) b else []
      | None \<Rightarrow> [])"

text \<open>Inside a packet: at least the header is there, the rest is not, and the block is big enough.\<close>

definition recv_framed :: "ccmdrecv \<Rightarrow> bool" where
  "recv_framed r \<longleftrightarrow> (m_recvHeadFlag r \<longrightarrow>
     (case m_recvBuff r of
        None \<Rightarrow> False
      | Some b \<Rightarrow> length b = block_size \<and> 16 \<le> m_lengthHasRecv r \<and>
          m_lengthHasRecv r < m_totalLengthOfData r \<and> m_totalLengthOfData r \<le> int block_size \<and>
          m_totalLengthOfData r = hdr_length b))"

text \<open>
  Something is readable, and it is not just a header: then the second \<open>recv\<close> of the event finds a
  byte.
\<close>

definition recv_ready :: "ccmdrecv \<Rightarrow> block \<Rightarrow> bool" where
  "recv_ready r rx \<longleftrightarrow> rx \<noteq> [] \<and> (m_recvHeadFlag r \<or> length rx \<noteq> 16)"

lemma prefix_take_comm: "prefix xs (p @ q) \<Longrightarrow> take (length p) xs = take (length xs) p"
proof -
  assume "prefix xs (p @ q)"
  then obtain zs where zs: "p @ q = xs @ zs" by (auto simp: prefix_def)
  have "take (length p) xs = take (length xs) (take (length p) (xs @ zs))"
    by (cases "length p \<le> length xs") simp_all
  also have "\<dots> = take (length xs) p" unfolding zs [symmetric] by simp
  finally show ?thesis .
qed

lemma first_packet:
  assumes "prefix xs (concat ps)" "xs \<noteq> []"
  obtains p ps' where "ps = p # ps'"
  using assms by (cases ps) auto

lemma recv_body_frames:
  assumes b: "m_recvBuff r = Some b" "length b = block_size"
    and h: "m_lengthHasRecv r = int h" "16 \<le> h" "h \<le> L" "m_totalLengthOfData r = int L"
    and hdr: "hdr_length b = int L" "L \<le> block_size" and flag: "m_recvHeadFlag r"
    and rx: "rx \<noteq> [] \<or> h = L"
    and pre: "prefix (take h b @ rx) (p @ q)" "length p = L"
  shows "\<exists>r' rx' out. recv_body r rx eof = Inr (r', rx', out) \<and> recv_framed r' \<and>
     (if out = [] then recv_partial r' @ rx' = take h b @ rx
      else \<exists>b'. out = [b'] \<and> payload b' = p \<and> p @ recv_partial r' @ rx' = take h b @ rx)"
proof -
  define d where "d = take (L - h) rx"
  have lb: "h \<le> length b" using h hdr b by simp
  have k: "k_recv (int L - int h) rx eof = (int (length d), d, drop (L - h) rx)"
    using h(3) rx by (cases "h = L") (auto simp: d_def k_recv_take nat_diff_distrib min.commute)
  have fits: "h + length d \<le> length b" using h(3) hdr b by (simp add: d_def)
  have mc: "c_memcpy (int h) d b (int (length d)) = Inr (blit h d b)"
    using fits by (simp add: c_memcpy_def)
  have tk: "take (h + length d) (blit h d b) = take h b @ d"
    by (rule take_blit_upto [OF lb])
  have body: "recv_body r rx eof =
    (let r' = r\<lparr>m_recvBuff := Some (blit h d b), m_lengthHasRecv := int h + int (length d)\<rparr> in
     if int h + int (length d) = int L
     then Inr (r'\<lparr>m_lengthHasRecv := 0, m_recvHeadFlag := False\<rparr>, drop (L - h) rx, [blit h d b])
     else Inr (r', drop (L - h) rx, []))"
    by (simp add: recv_body_def recv_block_def h k b mc Let_def)
  show ?thesis
  proof (cases "h + length d = L")
    case True
    have "hdr_length (blit h d b) = int L"
      using hdr_length_blit_body [OF h(2) lb] hdr by simp
    then have pay: "payload (blit h d b) = take h b @ d"
      using tk True by (simp add: payload_def)
    have "length (take h b @ rx) \<ge> L" using True lb by (simp add: d_def)
    with prefix_take_comm [OF pre(1)] pre(2) have "take L (take h b @ rx) = p"
      by simp
    moreover have "take L (take h b @ rx) = take h b @ d"
      using lb h(3) by (simp add: d_def min_absorb1 min_absorb2)
    ultimately have p: "take h b @ d = p" by simp
    have step: "recv_body r rx eof = Inr (r\<lparr>m_recvBuff := Some (blit h d b), m_lengthHasRecv := 0,
        m_recvHeadFlag := False\<rparr>, drop (L - h) rx, [blit h d b])"
      using True by (simp add: body)
    then show ?thesis
    proof -
      have "p @ drop (L - h) rx = take h b @ rx" by (simp add: p [symmetric] d_def)
      with step show ?thesis
        using pay p by (auto simp: recv_framed_def recv_partial_def)
    qed
  next
    case False
    then have lt: "h + length d < L" using h(3) by (simp add: d_def)
    then have all: "d = rx" "drop (L - h) rx = []" by (auto simp: d_def)
    have "recv_body r rx eof = Inr (r\<lparr>m_recvBuff := Some (blit h d b),
        m_lengthHasRecv := int h + int (length d)\<rparr>, drop (L - h) rx, [])"
      using False by (simp add: body Let_def flip: of_nat_add)
    then show ?thesis
      using lt all tk flag b h hdr lb fits
      by (auto simp: recv_framed_def recv_partial_def hdr_length_blit_body nat_add_distrib)
  qed
qed

lemma take_prefix: "prefix xs (p @ q) \<Longrightarrow> n \<le> length xs \<Longrightarrow> n \<le> length p \<Longrightarrow> take n xs = take n p"
  by (auto simp: prefix_def dest: arg_cong [where f = "take n"])

text \<open>The header that starts the input is the header of the first packet.\<close>

lemma header_of_first:
  assumes "prefix xs (p @ q)" "16 \<le> length xs" "16 \<le> length p" "take 16 b = take 16 xs"
  shows "hdr_length b = hdr_length p"
  using take_prefix [OF assms(1,2,3)] assms(4) hdr_length_take [of 16 b] hdr_length_take [of 16 p]
  by simp

text \<open>A header is read: the block that receives it, the state of the receiver, the rest of the input.\<close>

lemma read_header:
  assumes "16 \<le> length rx" "length junk = block_size"
  defines "b \<equiv> blit 0 (take 16 rx) junk"
  shows "length b = block_size" "take 16 b = take 16 rx"
    "k_recv 16 rx False = (16, take 16 rx, drop 16 rx)"
    "c_memcpy 0 (take 16 rx) junk 16 = Inr b" "rd32 8 b = Inr (bytes_i32 (cells 8 4 b))"
proof -
  show b: "length b = block_size" using assms by (simp add: block_size_def)
  show "take 16 b = take 16 rx" using assms by (simp add: blit_def)
  show "k_recv 16 rx False = (16, take 16 rx, drop 16 rx)"
    using assms(1) by (subst k_recv_take) (auto simp: min_absorb1)
  show "c_memcpy 0 (take 16 rx) junk 16 = Inr b"
    using assms by (simp add: c_memcpy_def block_size_def min_absorb1)
  show "rd32 8 b = Inr (bytes_i32 (cells 8 4 b))" using b by (simp add: block_size_def)
qed

lemma recv_head_reads:
  assumes "16 < length rx" "length junk = block_size"
  defines "b \<equiv> blit 0 (take 16 rx) junk"
  shows "recv_head junk r rx False = Inr ((getRecvBuff b r)\<lparr>m_totalLengthOfData := hdr_length b,
    m_lengthHasRecv := 16, m_recvHeadFlag := True\<rparr>, drop 16 rx, False)"
  using assms(1) read_header [OF less_imp_le [OF assms(1)] assms(2), folded b_def]
  by (simp add: recv_head_def header_size_def min_absorb1 hdr_length_def)

text \<open>One wake-up in the middle of a packet.\<close>

lemma server_step_middle:
  assumes fr: "recv_framed r" and fl: "m_recvHeadFlag r" and rdy: "recv_ready r rx"
    and p: "16 \<le> length p" "length p \<le> block_size" "hdr_length p = int (length p)"
    and pre: "prefix (recv_partial r @ rx) (p @ q)"
  shows "\<exists>r' rx' out. server_read junk r rx = Inr (r', rx', out) \<and> recv_framed r' \<and>
       (if out = [] then recv_partial r' @ rx' = recv_partial r @ rx
        else \<exists>b. out = [b] \<and> payload b = p \<and> p @ recv_partial r' @ rx' = recv_partial r @ rx)"
proof -
  from fr fl obtain b where b: "m_recvBuff r = Some b" "length b = block_size"
    and h: "16 \<le> m_lengthHasRecv r" "m_lengthHasRecv r < m_totalLengthOfData r"
      "m_totalLengthOfData r \<le> int block_size" "m_totalLengthOfData r = hdr_length b"
    by (auto simp: recv_framed_def split: option.splits)
  define h' where "h' = nat (m_lengthHasRecv r)"
  have h': "m_lengthHasRecv r = int h'" "16 \<le> h'" "h' \<le> length b"
    using h b by (simp_all add: h'_def)
  have part: "recv_partial r = take h' b" using fl b by (simp add: recv_partial_def h'_def)
  have "hdr_length b = hdr_length p"
    by (rule header_of_first [OF pre _ p(1)]) (use h' part in \<open>simp_all add: min_absorb1\<close>)
  with h' h p have L: "h' \<le> length p" "m_totalLengthOfData r = int (length p)"
    "hdr_length b = int (length p)"
    by simp_all
  from recv_body_frames [OF b h'(1,2) L(1,2,3) p(2) fl _ pre [unfolded part] refl, of False]
  obtain r' rx' out where
    "recv_body r rx False = Inr (r', rx', out)" "recv_framed r'"
    "if out = [] then recv_partial r' @ rx' = take h' b @ rx
     else \<exists>b'. out = [b'] \<and> payload b' = p \<and> p @ recv_partial r' @ rx' = take h' b @ rx"
    using rdy by (auto simp: recv_ready_def)
  then show ?thesis
    using fl part by (auto simp: server_read_def recv_step_def split: if_splits)
qed

text \<open>One wake-up at the start of a packet: nothing is read before more than a header has arrived.\<close>

lemma server_step_start:
  assumes fr: "recv_framed r" and fl: "\<not> m_recvHeadFlag r" and rdy: "recv_ready r rx"
    and j: "length junk = block_size"
    and p: "16 \<le> length p" "length p \<le> block_size" "hdr_length p = int (length p)"
    and pre: "prefix rx (p @ q)"
  shows "\<exists>r' rx' out. server_read junk r rx = Inr (r', rx', out) \<and> recv_framed r' \<and>
       (if out = [] then recv_partial r' @ rx' = rx
        else \<exists>b. out = [b] \<and> payload b = p \<and> p @ recv_partial r' @ rx' = rx)"
proof (cases "16 < length rx")
  case False
  with rdy fl have "length rx < 16" by (auto simp: recv_ready_def)
  then have "server_read junk r rx = Inr (r, rx, [])"
    using fl by (simp add: server_read_def recv_step_def header_size_def k_fionread_def)
  moreover have "recv_partial r = []" using fl by (simp add: recv_partial_def split: option.split)
  ultimately show ?thesis using fr by simp
next
  case True
  then have le: "16 \<le> length rx" by simp
  define b where "b = blit 0 (take 16 rx) junk"
  note rd = read_header [OF le j, folded b_def]
  have hdr: "hdr_length b = int (length p)"
    using header_of_first [OF pre le p(1) rd(2)] p(3) by simp
  let ?r = "(getRecvBuff b r)\<lparr>m_totalLengthOfData := int (length p), m_lengthHasRecv := 16,
      m_recvHeadFlag := True\<rparr>"
  have hd: "recv_head junk r rx False = Inr (?r, drop 16 rx, False)"
    using recv_head_reads [OF True j, of r, folded b_def] hdr by simp
  have all: "take 16 b @ drop 16 rx = rx" by (simp add: rd)
  have "prefix (take 16 b @ drop 16 rx) (p @ q)" using pre by (simp add: all)
  from recv_body_frames [of ?r b 16 "length p" "drop 16 rx" p q False, OF _ rd(1) _ _ p(1)
      _ hdr p(2) _ _ this refl]
  obtain r' rx' out where
    "recv_body ?r (drop 16 rx) False = Inr (r', rx', out)" "recv_framed r'"
    "if out = [] then recv_partial r' @ rx' = rx
     else \<exists>b'. out = [b'] \<and> payload b' = p \<and> p @ recv_partial r' @ rx' = rx"
    using True unfolding all by (auto simp: getRecvBuff_def)
  then show ?thesis
    using fl True hd
    by (auto simp: server_read_def recv_step_def header_size_def k_fionread_def split: if_splits)
qed

lemma server_step_frames:
  assumes fr: "recv_framed r" and j: "length junk = block_size" and rdy: "recv_ready r rx"
    and ps: "\<forall>p \<in> set ps. valid_packet 16 p"
    and pre: "prefix (recv_partial r @ rx) (concat ps)"
  shows "\<exists>r' rx' out. server_read junk r rx = Inr (r', rx', out) \<and> recv_framed r' \<and>
       (if out = [] then recv_partial r' @ rx' = recv_partial r @ rx
        else \<exists>b p ps'. out = [b] \<and> ps = p # ps' \<and> payload b = p \<and>
               p @ recv_partial r' @ rx' = recv_partial r @ rx)"
proof -
  from rdy have "recv_partial r @ rx \<noteq> []" by (simp add: recv_ready_def)
  from first_packet [OF pre this] obtain p ps' where ps': "ps = p # ps'" .
  with ps have p: "16 \<le> length p" "length p \<le> block_size" "hdr_length p = int (length p)"
    by (simp_all add: valid_packet_def)
  have pre': "prefix (recv_partial r @ rx) (p @ concat ps')" using pre ps' by simp
  show ?thesis
  proof (cases "m_recvHeadFlag r")
    case True
    show ?thesis using server_step_middle [OF fr True rdy p pre', of junk] ps' by (simp cong: if_cong split del: if_split)
  next
    case False
    then have part: "recv_partial r = []" by (simp add: recv_partial_def split: option.split)
    from server_step_start [OF fr False rdy j p, of "concat ps'"] pre' part ps' show ?thesis
      by (simp cong: if_cong split del: if_split)
  qed
qed

interpretation server_framer: framer server_read recv_partial recv_framed recv_ready 16
  by unfold_locales (rule server_step_frames)

end
