(* ===== verification/SendBuffer.thy ===== *)
theory SendBuffer
  imports CBytes
begin

text \<open>
  \<open>CCmdSend\<close>: the outgoing bytes of one connection. The router appends a packet in two calls,
  \<open>m_copy\<close> and \<open>setPosition\<close>; the I/O thread takes bytes off with \<open>startSend\<close>. The pending bytes are
  the first \<open>m_position\<close> cells of the buffer. The interface \<open>out_stream\<close> says that this is a byte
  stream, and is proved once for every implementation.
\<close>

section \<open>State and operations\<close>

definition send_cap :: nat where
  "send_cap = 10240"

record ccmdsend =
  m_position :: int
  m_sendBuff :: block
  m_udpSendFlag :: int
  m_udpSendBuff :: "block option"

definition CCmdSend :: "block \<Rightarrow> ccmdsend" where
  "CCmdSend junk =
     \<lparr>m_position = 0, m_sendBuff = junk, m_udpSendFlag = 0, m_udpSendBuff = None\<rparr>"

definition setPosition :: "int \<Rightarrow> ccmdsend \<Rightarrow> ccmdsend" where
  "setPosition pos s = s\<lparr>m_position := m_position s + pos\<rparr>"

definition getPosition :: "ccmdsend \<Rightarrow> int" where
  "getPosition s = m_position s"

text \<open>\<open>m_copy\<close> returns a pointer into the buffer: the offset the packet was copied to.\<close>

definition m_copy :: "block \<Rightarrow> int \<Rightarrow> ccmdsend \<Rightarrow> (int \<times> ccmdsend) res" where
  "m_copy p len s =
     rbind (c_memcpy (m_position s) p (m_sendBuff s) len) (\<lambda>b.
       Inr (m_position s, s\<lparr>m_sendBuff := b\<rparr>))"

text \<open>\<open>m_udpcopy\<close> allocates 1436 cells, whose contents \<open>junk\<close> are indeterminate.\<close>

definition m_udpcopy :: "block \<Rightarrow> block \<Rightarrow> int \<Rightarrow> ccmdsend \<Rightarrow> (block \<times> ccmdsend) res" where
  "m_udpcopy junk p len s =
     rbind (c_memcpy 0 p junk len) (\<lambda>b. Inr (b, s\<lparr>m_udpSendBuff := Some b\<rparr>))"

text \<open>
  \<open>startSend\<close>, with \<open>nread\<close> what \<open>send\<close> returned for the \<open>m_position\<close> bytes it was given. The third
  component is what went out.
\<close>

definition startSend :: "int \<Rightarrow> ccmdsend \<Rightarrow> (int \<times> ccmdsend \<times> block) res" where
  "startSend nread s =
     (if nread < 0 then Inr (- 1, s, [])
      else rbind (c_memcpy 0 (drop (nat nread) (m_sendBuff s)) (m_sendBuff s) nread) (\<lambda>b.
             Inr (nread, s\<lparr>m_position := m_position s - nread, m_sendBuff := b\<rparr>,
                  take (nat nread) (m_sendBuff s))))"

definition pending :: "ccmdsend \<Rightarrow> block" where
  "pending s = take (nat (m_position s)) (m_sendBuff s)"

definition send_ok :: "ccmdsend \<Rightarrow> bool" where
  "send_ok s \<longleftrightarrow> length (m_sendBuff s) = send_cap \<and> 0 \<le> m_position s \<and> m_position s \<le> int send_cap"

text \<open>One packet appended: what the router does for each receiver.\<close>

definition append_packet :: "block \<Rightarrow> int \<Rightarrow> ccmdsend \<Rightarrow> ccmdsend res" where
  "append_packet p len s = rbind (m_copy p len s) (\<lambda>(_, s'). Inr (setPosition len s'))"

section \<open>Effect of each operation\<close>

lemma length_pending: "send_ok s \<Longrightarrow> length (pending s) = nat (m_position s)"
  by (auto simp: send_ok_def pending_def)

lemma append_packet_Inr_iff:
  "(\<exists>s'. append_packet p len s = Inr s') \<longleftrightarrow>
   0 \<le> len \<and> len \<le> int (length p) \<and> 0 \<le> m_position s \<and>
   m_position s + len \<le> int (length (m_sendBuff s))"
  by (auto simp: append_packet_def m_copy_def c_memcpy_def)

lemma append_packet_pending:
  assumes "send_ok s" "append_packet p len s = Inr s'"
  shows "pending s' = pending s @ take (nat len) p" and "send_ok s'"
proof -
  have b: "0 \<le> len" "len \<le> int (length p)" "0 \<le> m_position s" "m_position s + len \<le> int send_cap"
    and s': "s' = s\<lparr>m_sendBuff := blit (nat (m_position s)) (take (nat len) p) (m_sendBuff s),
                   m_position := m_position s + len\<rparr>"
    and l: "length (m_sendBuff s) = send_cap"
    using assms by (auto simp: append_packet_def m_copy_def c_memcpy_def setPosition_def send_ok_def
        split: if_splits)
  have n: "nat (m_position s') = nat (m_position s) + length (take (nat len) p)"
    using b by (simp add: s' nat_add_distrib min_absorb2)
  have m: "m_sendBuff s' = blit (nat (m_position s)) (take (nat len) p) (m_sendBuff s)"
    by (simp add: s')
  have "nat (m_position s) \<le> length (m_sendBuff s)"
    using b l by simp
  then show "pending s' = pending s @ take (nat len) p"
    unfolding pending_def n m by (rule take_blit_upto)
  show "send_ok s'"
    using b l unfolding send_ok_def s' by simp
qed

text \<open>
  \<open>startSend\<close> moves \<open>nread\<close> cells to the front, where the code has \<open>m_position - nread\<close> pending ones.
  So what is pending afterwards depends on whether at least half of it went out.
\<close>

lemma startSend_pending:
  assumes "send_ok s" "0 \<le> n" "n \<le> m_position s" "startSend n s = Inr (r, s', out)"
  shows "out = take (nat n) (pending s)"
    and "pending s' = (if m_position s \<le> 2 * n then drop (nat n) (pending s)
           else cells (nat n) (nat n) (pending s) @ cells (nat n) (nat (m_position s - 2 * n)) (pending s))"
    and "send_ok s'" and "r = n"
proof -
  define k p where "k = nat n" and "p = nat (m_position s)"
  let ?b = "m_sendBuff s"
  have l: "length ?b = send_cap" and kp: "k \<le> p" "p \<le> send_cap"
    using assms by (auto simp: send_ok_def k_def p_def)
  from assms have k2: "2 * k \<le> send_cap"
    and s': "s' = s\<lparr>m_position := m_position s - n, m_sendBuff := blit 0 (take k (drop k ?b)) ?b\<rparr>"
    and out: "out = take k ?b" and "r = n"
    by (auto simp: startSend_def c_memcpy_def res_simps k_def send_ok_def split: if_splits)
  show "r = n" by fact
  show "out = take (nat n) (pending s)"
    using kp by (simp add: out pending_def k_def p_def min_def)
  show "send_ok s'"
    using assms l k2 unfolding s' send_ok_def by simp
  have pos: "nat (m_position s') = p - k"
    using assms by (simp add: s' p_def k_def nat_diff_distrib)
  have buf: "m_sendBuff s' = take k (drop k ?b) @ drop k ?b"
    using l k2 by (simp add: s' blit_def min_absorb2)
  have pend: "pending s' = take (p - k) (take k (drop k ?b) @ drop k ?b)"
    by (simp add: pending_def pos buf)
  show "pending s' = (if m_position s \<le> 2 * n then drop (nat n) (pending s)
           else cells (nat n) (nat n) (pending s) @ cells (nat n) (nat (m_position s - 2 * n)) (pending s))"
  proof (cases "p \<le> 2 * k")
    case True
    then have c: "m_position s \<le> 2 * n" using assms by (simp add: p_def k_def)
    have "pending s' = take (p - k) (drop k ?b)"
      using True kp l by (simp add: pend min_def)
    also have "\<dots> = drop k (pending s)"
      by (simp add: pending_def p_def drop_take)
    finally show ?thesis using c by (simp add: k_def)
  next
    case False
    then have c: "\<not> m_position s \<le> 2 * n" using assms by (simp add: p_def k_def)
    have d: "nat (m_position s - 2 * n) = p - 2 * k"
      using assms by (simp add: p_def k_def nat_diff_distrib nat_mult_distrib)
    have a: "cells k k (pending s) = take k (drop k ?b)"
      using False kp by (simp add: cells_def pending_def p_def drop_take min_def)
    have e: "cells k (p - 2 * k) (pending s) = take (p - 2 * k) (drop k ?b)"
      using False kp by (simp add: cells_def pending_def p_def drop_take min_def)
    have lk: "length (take k (drop k ?b)) = k" using l k2 by simp
    have "pending s' = take k (drop k ?b) @ take (p - k - k) (drop k ?b)"
      using False lk by (simp add: pend min_def)
    then have "pending s' = cells k k (pending s) @ cells k (p - 2 * k) (pending s)"
      unfolding a e by (simp add: mult_2)
    with c d show ?thesis by (simp add: k_def)
  qed
qed

lemma startSend_Inr_iff:
  "send_ok s \<Longrightarrow> 0 \<le> n \<Longrightarrow> (\<exists>x. startSend n s = Inr x) \<longleftrightarrow> 2 * n \<le> int send_cap"
  by (cases n rule: int_cases2) (auto simp: startSend_def c_memcpy_def send_ok_def res_simps)

section \<open>The interface\<close>

datatype sop = App block int | Snd int

fun srun ::
  "(block \<Rightarrow> int \<Rightarrow> 's \<Rightarrow> 's res) \<Rightarrow> (int \<Rightarrow> 's \<Rightarrow> (int \<times> 's \<times> block) res) \<Rightarrow> sop list \<Rightarrow> 's \<Rightarrow> (block \<times> 's) res"
where
  "srun app send [] s = Inr ([], s)"
| "srun app send (App p len # ops) s = rbind (app p len s) (srun app send ops)"
| "srun app send (Snd n # ops) s =
     rbind (send n s) (\<lambda>(_, s', out). rbind (srun app send ops s') (\<lambda>(outs, s''). Inr (out @ outs, s'')))"

fun appended :: "sop list \<Rightarrow> block" where
  "appended [] = []"
| "appended (App p len # ops) = take (nat len) p @ appended ops"
| "appended (Snd n # ops) = appended ops"

text \<open>Every send of the run takes at least half of what is pending, or nothing.\<close>

fun half_sends ::
  "(block \<Rightarrow> int \<Rightarrow> 's \<Rightarrow> 's res) \<Rightarrow> (int \<Rightarrow> 's \<Rightarrow> (int \<times> 's \<times> block) res) \<Rightarrow> ('s \<Rightarrow> block) \<Rightarrow> sop list \<Rightarrow> 's \<Rightarrow> bool"
where
  "half_sends app send pend [] s \<longleftrightarrow> True"
| "half_sends app send pend (App p len # ops) s \<longleftrightarrow>
     (case app p len s of Inl _ \<Rightarrow> True | Inr s' \<Rightarrow> half_sends app send pend ops s')"
| "half_sends app send pend (Snd n # ops) s \<longleftrightarrow>
     0 \<le> n \<and> n \<le> int (length (pend s)) \<and> int (length (pend s)) \<le> 2 * n \<and>
     (case send n s of Inl _ \<Rightarrow> True | Inr (_, s', _) \<Rightarrow> half_sends app send pend ops s')"

locale out_stream =
  fixes app :: "block \<Rightarrow> int \<Rightarrow> 's \<Rightarrow> 's res"
    and snd_op :: "int \<Rightarrow> 's \<Rightarrow> (int \<times> 's \<times> block) res"
    and pend :: "'s \<Rightarrow> block"
    and ok :: "'s \<Rightarrow> bool"
  assumes app_pend: "ok s \<Longrightarrow> app p len s = Inr s' \<Longrightarrow> pend s' = pend s @ take (nat len) p \<and> ok s'"
    and snd_pend: "ok s \<Longrightarrow> snd_op n s = Inr (r, s', out) \<Longrightarrow>
        0 \<le> n \<Longrightarrow> n \<le> int (length (pend s)) \<Longrightarrow> int (length (pend s)) \<le> 2 * n \<Longrightarrow>
        out @ pend s' = pend s \<and> ok s'"
begin

text \<open>No byte is lost, repeated or reordered.\<close>

lemma run_stream:
  "ok s \<Longrightarrow> half_sends app snd_op pend ops s \<Longrightarrow> srun app snd_op ops s = Inr (out, s') \<Longrightarrow>
   out @ pend s' = pend s @ appended ops \<and> ok s'"
proof (induction ops arbitrary: s out)
  case Nil
  then show ?case by simp
next
  case (Cons op ops)
  show ?case
  proof (cases op)
    case (App p len)
    with Cons.prems obtain t where t: "app p len s = Inr t" "srun app snd_op ops t = Inr (out, s')"
      by (auto simp: res_simps)
    from app_pend [OF Cons.prems(1) t(1)] Cons.IH [of t out] t Cons.prems(2) App
    show ?thesis by simp
  next
    case (Snd n)
    with Cons.prems obtain r t o1 o2 where
      t: "snd_op n s = Inr (r, t, o1)" "srun app snd_op ops t = Inr (o2, s')" "out = o1 @ o2"
      by (auto simp: res_simps)
    have h: "0 \<le> n" "n \<le> int (length (pend s))" "int (length (pend s)) \<le> 2 * n"
      "half_sends app snd_op pend ops t"
      using Cons.prems(2) Snd t(1) by simp_all
    from snd_pend [OF Cons.prems(1) t(1) h(1-3)] have st: "o1 @ pend t = pend s" "ok t" by simp_all
    from Cons.IH [OF st(2) h(4) t(2)] have "o2 @ pend s' = pend t @ appended ops" "ok s'" by simp_all
    then have "out @ pend s' = o1 @ pend t @ appended ops" by (simp add: t(3))
    also have "\<dots> = pend s @ appended ops" using st(1) by (simp flip: append_assoc)
    finally show ?thesis using Snd \<open>ok s'\<close> by simp
  qed
qed

end

interpretation cmdsend: out_stream append_packet startSend pending send_ok
proof unfold_locales
  fix s p len s'
  assume "send_ok s" "append_packet p len s = Inr s'"
  then show "pending s' = pending s @ take (nat len) p \<and> send_ok s'"
    using append_packet_pending by blast
next
  fix s n r s' out
  assume a: "send_ok s" "startSend n s = Inr (r, s', out)"
    and n: "0 \<le> n" "n \<le> int (length (pending s))" "int (length (pending s)) \<le> 2 * n"
  then have "n \<le> m_position s" "m_position s \<le> 2 * n"
    using length_pending [OF a(1)] by (auto simp: send_ok_def)
  with startSend_pending [OF a(1) n(1) _ a(2)] show "out @ pending s' = pending s \<and> send_ok s'"
    by simp
qed

end
