(* ===== verification/ServerState.thy ===== *)
theory ServerState
  imports StdMap PackQueue SendBuffer Framing
begin

text \<open>
  The state of the chat server in chat/chat-server: the objects for connections before and after
  login, and the members of the three modules \<open>CAccept\<close>, \<open>CIo\<close> and \<open>CCmd\<close>, whose threads run side by
  side. Connection objects are shared by pointer: an object is an address into a heap, and the maps
  of the modules hold addresses, so that a flag one thread sets is seen by the others and a deleted
  object is seen to be gone.
\<close>

section \<open>Commands and login states of proto.h\<close>

datatype cmdId =
  LOGIN | SENDtoONE | SENDtoOTHERS | SENDFILENAME | FILERET | SENDFILE
  | UDPSENDFILE | UDPREGISTER | UDPRESEND | HEARTBEAT | QUIT

definition cmd_num :: "cmdId \<Rightarrow> int" where
  "cmd_num c = (case c of LOGIN \<Rightarrow> 1 | SENDtoONE \<Rightarrow> 2 | SENDtoOTHERS \<Rightarrow> 3 | SENDFILENAME \<Rightarrow> 4
     | FILERET \<Rightarrow> 5 | SENDFILE \<Rightarrow> 6 | UDPSENDFILE \<Rightarrow> 7 | UDPREGISTER \<Rightarrow> 8 | UDPRESEND \<Rightarrow> 9
     | HEARTBEAT \<Rightarrow> 10 | QUIT \<Rightarrow> 11)"

definition all_cmds :: "cmdId list" where
  "all_cmds = [LOGIN, SENDtoONE, SENDtoOTHERS, SENDFILENAME, FILERET, SENDFILE, UDPSENDFILE,
     UDPREGISTER, UDPRESEND, HEARTBEAT, QUIT]"

text \<open>The \<open>switch\<close> on the command of a header: no case for any other number.\<close>

definition cmd_of :: "int \<Rightarrow> cmdId option" where
  "cmd_of n = List.find (\<lambda>c. cmd_num c = n) all_cmds"

lemma cmd_of_num [simp]: "cmd_of (cmd_num c) = Some c"
  by (cases c) (simp_all add: cmd_of_def all_cmds_def cmd_num_def)

lemma cmd_of_Some_iff: "cmd_of n = Some c \<longleftrightarrow> n = cmd_num c"
proof
  assume "cmd_of n = Some c"
  then show "n = cmd_num c" by (auto simp: cmd_of_def find_Some_iff)
qed simp

text \<open>The order of the enumeration.\<close>

instantiation cmdId :: linorder
begin
definition "less_eq_cmdId a b \<longleftrightarrow> cmd_num a \<le> cmd_num b"
definition "less_cmdId a b \<longleftrightarrow> cmd_num a < cmd_num b"
instance
proof
  fix x y :: cmdId
  assume "x \<le> y" "y \<le> x"
  then have "cmd_num x = cmd_num y" by (simp add: less_eq_cmdId_def)
  then have "Some x = Some y" by (metis cmd_of_num)
  then show "x = y" by simp
qed (auto simp: less_eq_cmdId_def less_cmdId_def)
end

datatype loginFlag = LOGINSUCCESS | LOGINFAILED | NOLOGIN

section \<open>CUnloginuser: a connection before login\<close>

record cunloginuser =
  ul_socket :: int
  ul_userId :: int
  loginTime :: int
  loginState :: loginFlag
  ul_deleteFlag1 :: bool
  ul_deleteFlag2 :: bool
  loginReturnFlag :: bool
  authFlag :: bool
  remainSend :: int
  m_loginMsgSend :: block
  recvbuff :: block
  remainLengthofRecv :: int
  totalLengthOfData :: int
  recvHeadFlag :: bool

text \<open>
  \<open>loginMessageSend\<close> is a header and two bytes. The constructor leaves both buffers, the socket,
  the id and the remaining length as they are in memory.
\<close>

definition loginMessageSend_size :: int where
  "loginMessageSend_size = 18"

definition CUnloginuser :: "int \<Rightarrow> int \<Rightarrow> int \<Rightarrow> block \<Rightarrow> block \<Rightarrow> cunloginuser" where
  "CUnloginuser jsock jid jrem jsend jrecv =
     \<lparr>ul_socket = jsock, ul_userId = jid, loginTime = 0, loginState = NOLOGIN,
      ul_deleteFlag1 = False, ul_deleteFlag2 = False, loginReturnFlag = False, authFlag = False,
      remainSend = loginMessageSend_size, m_loginMsgSend = jsend, recvbuff = jrecv,
      remainLengthofRecv = jrem, totalLengthOfData = 0, recvHeadFlag = True\<rparr>"

section \<open>CUser: a connection after login\<close>

record cuser =
  m_socket :: int
  m_userId :: int
  deleteFlag1 :: bool
  deleteFlag2 :: bool
  m_udpSendList :: "block clist"
  m_lastTime :: int
  m_sendLastTime :: int
  m_send :: ccmdsend
  m_recv :: ccmdrecv
  clientaddrUdp :: "block option"

text \<open>\<open>CHeartBeat\<close>: the two times of the heartbeat, both the time of construction.\<close>

definition CHeartBeat :: "int \<Rightarrow> int \<times> int" where
  "CHeartBeat now = (now, now)"

definition CUser :: "int \<Rightarrow> 32 word \<Rightarrow> block \<Rightarrow> cuser" where
  "CUser now jcount jsend =
     \<lparr>m_socket = 0, m_userId = 0, deleteFlag1 = False, deleteFlag2 = False,
      m_udpSendList = CList jcount, m_lastTime = fst (CHeartBeat now),
      m_sendLastTime = snd (CHeartBeat now), m_send = CCmdSend jsend, m_recv = CCmdRecv,
      clientaddrUdp = None\<rparr>"

definition setSocket :: "int \<Rightarrow> cuser \<Rightarrow> cuser" where
  "setSocket socket u = u\<lparr>m_socket := socket\<rparr>"

definition setUserId :: "int \<Rightarrow> cuser \<Rightarrow> cuser" where
  "setUserId userId u = u\<lparr>m_userId := userId\<rparr>"

definition getUserId :: "cuser \<Rightarrow> int" where
  "getUserId u = m_userId u"

definition getSocket :: "cuser \<Rightarrow> int" where
  "getSocket u = m_socket u"

section \<open>The server\<close>

text \<open>
  \<^item> \<open>users\<close>, \<open>unlogins\<close>: the heap; \<open>fresh\<close> is above every address in use;
  \<^item> \<open>sock_rx\<close>, \<open>sock_eof\<close>: the receive queue of each descriptor and whether its peer has closed;
    \<open>outbox\<close>: what \<open>send\<close> accepted, in order; \<open>closed\<close>: the descriptors closed;
  \<^item> \<open>acc_*\<close>: \<open>m_loginMap\<close>, \<open>m_userId\<close>, \<open>m_connfd\<close> and the epoll set of \<open>CAccept\<close>; \<open>vcdLoginList\<close>:
    its list of new connections, read by \<open>CCmd\<close>;
  \<^item> \<open>io_*\<close>: \<open>m_map\<close> and the epoll set of \<open>CIo\<close>; \<open>packList\<close>: its packet list, read by \<open>CCmd\<close>;
  \<^item> \<open>cmd_*\<close>: \<open>m_map\<close>, \<open>m_loginMap\<close>, \<open>m_udpLoseMap\<close> and the two clocks of \<open>CCmd\<close>;
    \<open>userListToIO\<close>: its list of users that logged in, read by \<open>CIo\<close>.
\<close>

record server =
  users :: "nat \<Rightarrow> cuser option"
  unlogins :: "nat \<Rightarrow> cunloginuser option"
  fresh :: nat
  sock_rx :: "int \<Rightarrow> block"
  sock_eof :: "int \<Rightarrow> bool"
  outbox :: "(int \<times> block) list"
  closed :: "int list"
  acc_loginMap :: "(int, nat) smap"
  acc_userId :: int
  m_connfd :: int
  acc_epoll :: "(int, 32 word) smap"
  vcdLoginList :: "(nat, nat) cuserlist"
  io_map :: "(int, nat) smap"
  io_epoll :: "(int, 32 word) smap"
  packList :: "block clist"
  cmd_map :: "(int, nat) smap"
  cmd_loginMap :: "(int, nat) smap"
  udpLoseMap :: "(int, block) smap"
  lasttime :: int
  lastLoopTime :: int
  userListToIO :: "(nat, nat) cuserlist"

text \<open>
  The state after the constructors and \<open>main\<close>'s wiring. The arguments are the indeterminate
  counters of the three lists.
\<close>

definition server_init :: "32 word \<Rightarrow> 32 word \<Rightarrow> 32 word \<Rightarrow> int \<Rightarrow> server" where
  "server_init jpack jlogin juser now =
     \<lparr>users = (\<lambda>_. None), unlogins = (\<lambda>_. None), fresh = 1, sock_rx = (\<lambda>_. []),
      sock_eof = (\<lambda>_. False), outbox = [], closed = [], acc_loginMap = [], acc_userId = 1,
      m_connfd = 0, acc_epoll = [], vcdLoginList = CUserList 0 jlogin, io_map = [], io_epoll = [],
      packList = CList jpack, cmd_map = [], cmd_loginMap = [], udpLoseMap = [], lasttime = now,
      lastLoopTime = now, userListToIO = CUserList juser 0\<rparr>"

section \<open>Objects through pointers\<close>

definition deref_user :: "nat \<Rightarrow> server \<Rightarrow> cuser res" where
  "deref_user a s = (case users s a of None \<Rightarrow> Inl UseAfterFree | Some u \<Rightarrow> Inr u)"

definition deref_unlogin :: "nat \<Rightarrow> server \<Rightarrow> cunloginuser res" where
  "deref_unlogin a s = (case unlogins s a of None \<Rightarrow> Inl UseAfterFree | Some u \<Rightarrow> Inr u)"

definition put_user :: "nat \<Rightarrow> cuser \<Rightarrow> server \<Rightarrow> server" where
  "put_user a u s = s\<lparr>users := (users s)(a := Some u)\<rparr>"

definition put_unlogin :: "nat \<Rightarrow> cunloginuser \<Rightarrow> server \<Rightarrow> server" where
  "put_unlogin a u s = s\<lparr>unlogins := (unlogins s)(a := Some u)\<rparr>"

text \<open>\<open>m[k]->f\<close>, with the address and the object.\<close>

definition user_at :: "(int, nat) smap \<Rightarrow> int \<Rightarrow> server \<Rightarrow> (nat \<times> cuser) res" where
  "user_at m k s = rbind (map_at k m) (\<lambda>a. rbind (deref_user a s) (\<lambda>u. Inr (a, u)))"

definition unlogin_at :: "(int, nat) smap \<Rightarrow> int \<Rightarrow> server \<Rightarrow> (nat \<times> cunloginuser) res" where
  "unlogin_at m k s = rbind (map_at k m) (\<lambda>a. rbind (deref_unlogin a s) (\<lambda>u. Inr (a, u)))"

text \<open>\<open>EPOLL_CTL_MOD\<close> has an effect on a registered descriptor only.\<close>

definition epoll_mod :: "int \<Rightarrow> 32 word \<Rightarrow> (int, 32 word) smap \<Rightarrow> (int, 32 word) smap" where
  "epoll_mod fd ev ep = (if map_find fd ep = None then ep else map_put fd ev ep)"

lemma deref_user_eq_Inr_iff [res_simps]: "deref_user a s = Inr u \<longleftrightarrow> users s a = Some u"
  by (simp add: deref_user_def split: option.split)

lemma deref_unlogin_eq_Inr_iff [res_simps]: "deref_unlogin a s = Inr u \<longleftrightarrow> unlogins s a = Some u"
  by (simp add: deref_unlogin_def split: option.split)

lemma user_at_eq_Inr_iff [res_simps]:
  "user_at m k s = Inr (a, u) \<longleftrightarrow> map_find k m = Some a \<and> users s a = Some u"
  by (auto simp: user_at_def res_simps)

lemma unlogin_at_eq_Inr_iff [res_simps]:
  "unlogin_at m k s = Inr (a, u) \<longleftrightarrow> map_find k m = Some a \<and> unlogins s a = Some u"
  by (auto simp: unlogin_at_def res_simps)

lemma user_at_Some [simp]:
  "map_find k m = Some a \<Longrightarrow> users s a = Some u \<Longrightarrow> user_at m k s = Inr (a, u)"
  by (simp add: res_simps)

lemma user_at_None [simp]: "map_find k m = None \<Longrightarrow> user_at m k s = Inl NullDeref"
  by (simp add: user_at_def)

lemma unlogin_at_Some [simp]:
  "map_find k m = Some a \<Longrightarrow> unlogins s a = Some u \<Longrightarrow> unlogin_at m k s = Inr (a, u)"
  by (simp add: res_simps)

lemma unlogin_at_None [simp]: "map_find k m = None \<Longrightarrow> unlogin_at m k s = Inl NullDeref"
  by (simp add: unlogin_at_def)

end
