(* ===== verification/ClientState.thy ===== *)
theory ClientState
  imports StdMap PackQueue Framing ServerState
begin

text \<open>
  The state of the chat client in chat/client-test: \<open>UserData\<close>, the members of \<open>IOModel\<close> and
  \<open>CmdModel\<close>, the files of the C library, and the login of \<open>ClientStart\<close>. Packets in lists are
  blocks, since a list is the only owner of what it holds; the block being sent is reached through the
  two pointers \<open>sendbuff\<close> and \<open>m_MsgSend\<close>, whose states are kept apart.
\<close>

section \<open>Files\<close>

text \<open>
  A stream is the path, whether it was opened for appending, the position and the end-of-file
  indicator. The \<open>FILE\<close> pointer of the code is uninitialised at first, null after a failed \<open>fopen\<close> and
  left as it was by \<open>fclose\<close>.
\<close>

record fstream =
  fs_path :: block
  fs_append :: bool
  fs_pos :: nat
  fs_eof :: bool

datatype pfile = PfUninit | PfNull | PfOpen fstream | PfClosed

type_synonym disk = "block \<Rightarrow> block option"

definition f_stream :: "pfile \<Rightarrow> fstream res" where
  "f_stream pf = (case pf of PfUninit \<Rightarrow> Inl UninitRead | PfNull \<Rightarrow> Inl NullDeref
     | PfClosed \<Rightarrow> Inl UseAfterFree | PfOpen f \<Rightarrow> Inr f)"

definition f_data :: "disk \<Rightarrow> fstream \<Rightarrow> block" where
  "f_data d f = (case d (fs_path f) of None \<Rightarrow> [] | Some c \<Rightarrow> c)"

text \<open>\<open>fopen(path, "a+")\<close> creates the file; \<open>fopen(path, "r")\<close> fails without it.\<close>

definition f_open_append :: "block \<Rightarrow> disk \<Rightarrow> pfile \<times> disk" where
  "f_open_append path d =
     (PfOpen \<lparr>fs_path = path, fs_append = True, fs_pos = 0, fs_eof = False\<rparr>,
      if d path = None then d(path \<mapsto> []) else d)"

definition f_open_read :: "block \<Rightarrow> disk \<Rightarrow> pfile" where
  "f_open_read path d =
     (if d path = None then PfNull
      else PfOpen \<lparr>fs_path = path, fs_append = False, fs_pos = 0, fs_eof = False\<rparr>)"

text \<open>\<open>fseek(f, off, SEEK_SET)\<close>; a negative offset is refused.\<close>

definition f_seek :: "int \<Rightarrow> fstream \<Rightarrow> fstream" where
  "f_seek off f = (if off < 0 then f else f\<lparr>fs_pos := nat off, fs_eof := False\<rparr>)"

text \<open>
  \<open>fwrite\<close>: a stream opened for appending writes at the end of the file wherever its position is;
  another one at its position, with zeros in between.
\<close>

definition f_write :: "block \<Rightarrow> fstream \<Rightarrow> disk \<Rightarrow> fstream \<times> disk" where
  "f_write b f d =
     (let c = f_data d f; p = (if fs_append f then length c else fs_pos f) in
      (f\<lparr>fs_pos := p + length b\<rparr>,
       d(fs_path f \<mapsto> take p (c @ replicate (p - length c) 0) @ b @ drop (p + length b) c)))"

text \<open>\<open>fread\<close> of \<open>n\<close> bytes; the indicator is set when the file ends before them.\<close>

definition f_read :: "nat \<Rightarrow> fstream \<Rightarrow> disk \<Rightarrow> block \<times> fstream" where
  "f_read n f d =
     (let b = take n (drop (fs_pos f) (f_data d f)) in
      (b, f\<lparr>fs_pos := fs_pos f + length b, fs_eof := fs_eof f \<or> length b < n\<rparr>))"

lemma f_write_append:
  "fs_append f \<Longrightarrow> snd (f_write b f d) = d(fs_path f \<mapsto> f_data d f @ b)"
  by (simp add: f_write_def Let_def)

section \<open>UserData\<close>

text \<open>
  \<open>urecv\<close>: the receiving fields. \<open>bufptr\<close>: \<open>sendbuff\<close> is uninitialised, points to a block of 1436
  bytes, or to one that has been freed or handed to the list of datagrams, whose thread frees it.
  \<open>msgptr\<close>: \<open>m_MsgSend\<close> is uninitialised, equal to \<open>sendbuff\<close>, or equal to an earlier \<open>sendbuff\<close>.
\<close>

record urecv =
  ur_recvHeadFlag :: bool
  ur_recvbuff :: "block option"
  ur_totalLengthOfData :: int
  ur_remainLengthtoRecv :: int
  ur_lengthHasRecv :: int
  ur_haveReadFlag :: bool

datatype bufptr = BufUninit | BufLive block | BufGone

datatype msgptr = MsgUninit | MsgIsSendbuff | MsgStale

record userdata =
  ud_userId :: int
  ud_recv :: urecv
  haveSendFlag :: bool
  ud_sendbuff :: bufptr
  ud_MsgSend :: msgptr
  lengthHasSend :: int
  remainLengthofSend :: int
  m_writeList :: "block savelist"
  startTransfer :: bool
  sendFileToClientId :: i32
  ud_pf :: pfile
  recvFileCount :: int
  sendFileCount :: int
  recvFileSize :: int
  ud_filename :: block
  ud_fileSize :: int
  lastHeartPackRecvTime :: int
  lastSendTime :: int

text \<open>The arguments are what the constructor leaves as it is in memory.\<close>

definition UserData :: "int \<Rightarrow> int \<Rightarrow> 32 word \<Rightarrow> i32 \<Rightarrow> block \<Rightarrow> userdata" where
  "UserData jid jrem jcount jto jname =
     \<lparr>ud_userId = jid,
      ud_recv = \<lparr>ur_recvHeadFlag = False, ur_recvbuff = None, ur_totalLengthOfData = 0,
                 ur_remainLengthtoRecv = jrem, ur_lengthHasRecv = 0, ur_haveReadFlag = False\<rparr>,
      haveSendFlag = False, ud_sendbuff = BufUninit, ud_MsgSend = MsgUninit, lengthHasSend = 0,
      remainLengthofSend = jrem, m_writeList = SaveList jcount, startTransfer = False,
      sendFileToClientId = jto, ud_pf = PfUninit, recvFileCount = 0, sendFileCount = 0,
      recvFileSize = 0, ud_filename = jname, ud_fileSize = 0, lastHeartPackRecvTime = 0,
      lastSendTime = 0\<rparr>"

definition get_recv :: "block \<Rightarrow> urecv \<Rightarrow> urecv" where
  "get_recv junk r = r\<lparr>ur_recvbuff := Some junk\<rparr>"

definition get_send :: "block \<Rightarrow> userdata \<Rightarrow> userdata" where
  "get_send junk u = u\<lparr>ud_sendbuff := BufLive junk,
     ud_MsgSend := (if ud_MsgSend u = MsgUninit then MsgUninit else MsgStale)\<rparr>"

text \<open>\<open>getFileSize\<close>: \<open>stat\<close> of the file; if there is none, the buffer keeps an earlier size.\<close>

definition getFileSize :: "disk \<Rightarrow> block \<Rightarrow> int \<Rightarrow> int" where
  "getFileSize d path old = (case d path of None \<Rightarrow> old | Some c \<Rightarrow> int (length c))"

section \<open>The client\<close>

text \<open>
  \<^item> \<open>cl_rx\<close>, \<open>cl_eof\<close>, \<open>cl_out\<close>: the receive queue of the TCP socket, whether the peer has closed, the
    bytes sent; \<open>cl_udp\<close>: the datagrams sent;
  \<^item> \<open>m_readList\<close>, \<open>udpSendNum\<close>: of \<open>IOModel\<close>;
  \<^item> \<open>m_udpList\<close>, \<open>m_udpMap\<close>, \<open>m_udpSaveMap\<close>, \<open>nowPackNum\<close>, \<open>sendtime\<close> and the clocks: of \<open>CmdModel\<close>;
  \<^item> \<open>shown\<close>: the messages put on the screen, with the id of the sender;
  \<^item> \<open>cl_disk\<close>: the files.
\<close>

record client =
  cl_user :: userdata
  cl_rx :: block
  cl_eof :: bool
  cl_out :: block
  cl_udp :: "block list"
  m_readList :: "block savelist"
  udpSendNum :: int
  m_udpList :: "block savelist"
  m_udpMap :: "(int, int) smap"
  m_udpSaveMap :: "(int, block) smap"
  nowPackNum :: int
  sendtime :: int
  last_expire :: int
  last_resend :: int
  shown :: "(int \<times> block) list"
  cl_disk :: disk

definition client_init :: "userdata \<Rightarrow> 32 word \<Rightarrow> 32 word \<Rightarrow> int \<Rightarrow> disk \<Rightarrow> client" where
  "client_init u jread judp now d =
     \<lparr>cl_user = u, cl_rx = [], cl_eof = False, cl_out = [], cl_udp = [], m_readList = SaveList jread,
      udpSendNum = 1, m_udpList = SaveList judp, m_udpMap = [], m_udpSaveMap = [], nowPackNum = 0,
      sendtime = 0, last_expire = now, last_resend = now, shown = [], cl_disk = d\<rparr>"

section \<open>The login of ClientStart\<close>

text \<open>
  \<open>loginMessageSend\<close>: the header, a name of 50 and a password of 20 bytes. \<open>start\<close> clears both fields
  and reads a line into each (at most 49 and 19 bytes); the user id of the header is not set.
\<close>

definition login_packet :: "block \<Rightarrow> block \<Rightarrow> i32 \<Rightarrow> block" where
  "login_packet name passwd jid =
     i32_bytes (word_of_int (cmd_num LOGIN)) @ i32_bytes jid @ i32_bytes 86 @ i32_bytes 1 @
     take 50 (take 49 name @ replicate 50 0) @ take 20 (take 19 passwd @ replicate 20 0)"

text \<open>
  \<open>startLoginModel\<close>: what \<open>send\<close> and \<open>recv\<close> return decides; \<open>reply\<close> is what \<open>recv\<close> stored in the 18
  bytes of the reply, \<open>old\<close> what they held before. The result is the id.
\<close>

definition startLoginModel :: "int \<Rightarrow> block \<Rightarrow> block \<Rightarrow> userdata \<Rightarrow> userdata res" where
  "startLoginModel sent reply old u =
     (if sent \<le> 0 then Inl (Exited 0)
      else if reply = [] then Inl (Exited 0)
      else let b = blit 0 (take 18 reply) old in
        if c_streq 16 ''Y'' b
        then rbind (rd32 4 b) (\<lambda>uid. Inr (u\<lparr>ud_userId := sint uid\<rparr>))
        else Inl (Exited 0))"

definition ClientStart_start ::
  "bool \<Rightarrow> block \<Rightarrow> block \<Rightarrow> i32 \<Rightarrow> int \<Rightarrow> block \<Rightarrow> block \<Rightarrow> userdata \<Rightarrow> (userdata \<times> block) res" where
  "ClientStart_start connected name passwd jid sent reply old u =
     (if \<not> connected then Inl (Exited 0)
      else rbind (startLoginModel sent reply old u) (\<lambda>u. Inr (u, login_packet name passwd jid)))"

end
