(* ===== verification/ClientIO.thy ===== *)
theory ClientIO
  imports ClientState "HOL-Library.Signed_Division"
begin

text \<open>
  The I/O module of the client, \<open>IOModel\<close> in iomodel.cpp: the thread on the TCP socket (\<open>Start\<close>), the
  thread that receives datagrams (\<open>Startudprecv\<close>) and the one that sends them (\<open>Startudpsend\<close>).
\<close>

section \<open>Reading\<close>

text \<open>
  One readable event after the test for a closed connection. A \<open>recv\<close> of the rest that returns nothing
  ends the client, also when the rest is empty.
\<close>

definition cl_head :: "block \<Rightarrow> urecv \<Rightarrow> block \<Rightarrow> bool \<Rightarrow> (urecv \<times> block) res" where
  "cl_head junk r rx eof =
     (case k_recv header_size rx eof of (n, d, rx') \<Rightarrow>
        rbind (c_memcpy 0 d junk (int (length d))) (\<lambda>b.
          if n = 0 then Inl (Exited 0)
          else rbind (rd32 8 b) (\<lambda>len.
            Inr ((get_recv b r)\<lparr>ur_totalLengthOfData := sint len,
                   ur_remainLengthtoRecv := sint len - header_size, ur_recvHeadFlag := True\<rparr>, rx'))))"

definition cl_body :: "urecv \<Rightarrow> block \<Rightarrow> bool \<Rightarrow> (urecv \<times> block \<times> block list) res" where
  "cl_body r rx eof =
     (case k_recv (ur_remainLengthtoRecv r) rx eof of (n, d, rx') \<Rightarrow>
        if n \<le> 0 then Inl (Exited 0)
        else rbind (case ur_recvbuff r of None \<Rightarrow> Inl UninitRead | Some b \<Rightarrow> Inr b) (\<lambda>b.
          rbind (c_memcpy (16 + ur_lengthHasRecv r) d b (int (length d))) (\<lambda>b'.
            let r = r\<lparr>ur_recvbuff := Some b', ur_remainLengthtoRecv := ur_remainLengthtoRecv r - n,
                      ur_lengthHasRecv := ur_lengthHasRecv r + n\<rparr> in
            if ur_remainLengthtoRecv r = 0
            then Inr (r\<lparr>ur_recvHeadFlag := False, ur_remainLengthtoRecv := ur_totalLengthOfData r,
                       ur_lengthHasRecv := 0, ur_haveReadFlag := True\<rparr>, rx', [b'])
            else Inr (r, rx', []))))"

definition cl_step :: "block \<Rightarrow> urecv \<Rightarrow> block \<Rightarrow> bool \<Rightarrow> (urecv \<times> block \<times> block list) res" where
  "cl_step junk r rx eof =
     (if header_size \<le> k_fionread rx \<or> ur_recvHeadFlag r
      then rbind (if \<not> ur_recvHeadFlag r then cl_head junk r rx eof else Inr (r, rx)) (\<lambda>(r, rx).
             if ur_recvHeadFlag r then cl_body r rx eof else Inr (r, rx, []))
      else Inr (r, rx, []))"

definition cl_readable :: "block \<Rightarrow> client \<Rightarrow> client res" where
  "cl_readable junk cl =
     (if k_fionread (cl_rx cl) = 0 then Inl (Exited 0)
      else rbind (cl_step junk (ud_recv (cl_user cl)) (cl_rx cl) (cl_eof cl)) (\<lambda>(r, rx, out).
             Inr (cl\<lparr>cl_user := (cl_user cl)\<lparr>ud_recv := r\<rparr>, cl_rx := rx,
                     m_readList := fold pack_push out (m_readList cl)\<rparr>)))"

section \<open>Writing\<close>

text \<open>
  The loop around \<open>send\<close>, with the list of what its calls return; \<open>None\<close> if the list ends before the
  loop does.
\<close>

fun cl_send_loop :: "int list \<Rightarrow> block \<Rightarrow> int \<Rightarrow> int \<Rightarrow> block \<Rightarrow> (block option) res" where
  "cl_send_loop rs b has remain out =
     (if remain \<le> 0 then Inr (Some out)
      else case rs of
        [] \<Rightarrow> Inr None
      | n # rs' \<Rightarrow>
          if n < 0 then Inl (Exited 0)
          else if 0 \<le> has \<and> has + remain \<le> int (length b)
          then cl_send_loop rs' b (has + n) (remain - n) (out @ cells (nat has) (nat n) b)
          else Inl OutOfBounds)"

declare cl_send_loop.simps [simp del]

text \<open>
  The socket is writable and \<open>haveSendFlag\<close> is set: the block goes out and is freed. Freeing a block
  that has already been freed is an error even when there is nothing to send.
\<close>

definition cl_writable :: "int list \<Rightarrow> client \<Rightarrow> (client option) res" where
  "cl_writable rs cl =
     (let u = cl_user cl in
      case ud_sendbuff u of
        BufUninit \<Rightarrow> Inl UninitRead
      | BufGone \<Rightarrow> Inl UseAfterFree
      | BufLive b \<Rightarrow>
          rbind (cl_send_loop rs b (lengthHasSend u) (remainLengthofSend u) []) (\<lambda>res.
            Inr (map_option (\<lambda>out. cl\<lparr>cl_out := cl_out cl @ out,
                   cl_user := u\<lparr>ud_sendbuff := BufGone, lengthHasSend := 0,
                     remainLengthofSend := min 0 (remainLengthofSend u), haveSendFlag := False\<rparr>\<rparr>) res)))"

text \<open>One iteration of \<open>Start\<close> in which \<open>select\<close> reported the socket readable or writable or both.\<close>

definition IOModel_Start_iter :: "block \<Rightarrow> bool \<Rightarrow> bool \<Rightarrow> int list \<Rightarrow> client \<Rightarrow> (client option) res" where
  "IOModel_Start_iter junk readable writable rs cl =
     (let want = haveSendFlag (cl_user cl) in
      rbind (if readable then cl_readable junk cl else Inr cl) (\<lambda>cl.
        if want \<and> writable then cl_writable rs cl else Inr (Some cl)))"

section \<open>Datagrams\<close>

text \<open>
  One pass of \<open>Startudpsend\<close>: a datagram is taken from the list and sent if the running number is 1
  modulo 3 or its count is the last one of its file; \<open>/\<close> and \<open>%\<close> truncate. The running number is a
  positive \<open>int\<close>.
\<close>

definition udp_goes_out :: "int \<Rightarrow> i32 \<Rightarrow> i32 \<Rightarrow> bool" where
  "udp_goes_out n count filesize \<longleftrightarrow>
     n mod 3 = 1 \<or> sint count = sint filesize sdiv 1390 + 1"

definition Startudpsend_iter :: "client \<Rightarrow> client res" where
  "Startudpsend_iter cl =
     (let u = cl_user cl in
      if sl_getPackSize (m_writeList u) > 0
      then rbind (pack_pop (m_writeList u)) (\<lambda>(pack, l).
             rbind (rd32 16 pack) (\<lambda>count. rbind (rd32 32 pack) (\<lambda>filesize.
               let cl = cl\<lparr>cl_user := u\<lparr>m_writeList := l\<rparr>\<rparr> in
               rbind (if udp_goes_out (udpSendNum cl) count filesize
                      then if length pack < block_size then Inl OutOfBounds
                           else Inr (cl\<lparr>cl_udp := cl_udp cl @ [take block_size pack]\<rparr>)
                      else Inr cl) (\<lambda>cl.
                 Inr (cl\<lparr>udpSendNum := udpSendNum cl + 1\<rparr>)))))
      else Inr cl)"

definition Startudprecv_iter :: "block \<Rightarrow> block \<Rightarrow> client \<Rightarrow> client" where
  "Startudprecv_iter junk dgram cl =
     cl\<lparr>m_readList := pack_push (blit 0 (take block_size dgram) junk) (m_readList cl)\<rparr>"

section \<open>The client's receiver provides the interface\<close>

definition client_read :: "block \<Rightarrow> urecv \<Rightarrow> block \<Rightarrow> (urecv \<times> block \<times> block list) res" where
  "client_read junk r rx = cl_step junk r rx False"

definition cl_partial :: "urecv \<Rightarrow> block" where
  "cl_partial r =
     (case ur_recvbuff r of
        Some b \<Rightarrow> if ur_recvHeadFlag r then take (nat (16 + ur_lengthHasRecv r)) b else []
      | None \<Rightarrow> [])"

text \<open>In a packet its rest is not empty; between packets the received length is 0.\<close>

definition cl_framed :: "urecv \<Rightarrow> bool" where
  "cl_framed r \<longleftrightarrow> 0 \<le> ur_lengthHasRecv r \<and>
     (if ur_recvHeadFlag r
      then case ur_recvbuff r of
          None \<Rightarrow> False
        | Some b \<Rightarrow> length b = block_size \<and> 0 < ur_remainLengthtoRecv r \<and>
            16 + ur_lengthHasRecv r + ur_remainLengthtoRecv r = hdr_length b \<and>
            ur_totalLengthOfData r = hdr_length b \<and> hdr_length b \<le> int block_size
      else ur_lengthHasRecv r = 0)"

definition cl_ready :: "urecv \<Rightarrow> block \<Rightarrow> bool" where
  "cl_ready r rx \<longleftrightarrow> rx \<noteq> [] \<and> (ur_recvHeadFlag r \<or> length rx \<noteq> 16)"

lemma cl_body_frames:
  assumes b: "ur_recvbuff r = Some b" "length b = block_size"
    and h: "ur_lengthHasRecv r = int h" "ur_remainLengthtoRecv r = int m" "0 < m"
      "ur_totalLengthOfData r = int L" "16 + h + m = L"
    and hdr: "hdr_length b = int L" "L \<le> block_size" and flag: "ur_recvHeadFlag r"
    and rx: "rx \<noteq> []"
    and pre: "prefix (take (16 + h) b @ rx) (p @ q)" "length p = L"
  shows "\<exists>r' rx' out. cl_body r rx eof = Inr (r', rx', out) \<and> cl_framed r' \<and>
     (if out = [] then cl_partial r' @ rx' = take (16 + h) b @ rx
      else \<exists>b'. out = [b'] \<and> payload b' = p \<and> p @ cl_partial r' @ rx' = take (16 + h) b @ rx)"
proof -
  define d where "d = take m rx"
  let ?o = "16 + h"
  have lo: "?o \<le> length b" "?o + length d \<le> length b" using h hdr b by (auto simp: d_def)
  have ld: "0 < length d" using rx h(3) by (simp add: d_def)
  have k: "k_recv (int m) rx eof = (int (length d), d, drop m rx)"
    using h(3) rx by (subst k_recv_take) (auto simp: d_def min.commute)
  have mc: "c_memcpy (16 + int h) d b (int (length d)) = Inr (blit ?o d b)"
    using lo by (simp add: c_memcpy_def nat_add_distrib)
  have tk: "take (?o + length d) (blit ?o d b) = take ?o b @ d"
    by (rule take_blit_upto [OF lo(1)])
  have hb: "hdr_length (blit ?o d b) = int L"
    using hdr_length_blit_body [OF _ lo(1), of d] hdr(1) by simp
  have lb: "length (blit ?o d b) = block_size" using lo(2) b by simp
  show ?thesis
  proof (cases "length d = m")
    case True
    have pay: "payload (blit ?o d b) = take ?o b @ d"
      using tk True h(5) by (simp add: payload_def hb)
    have "length (take ?o b @ rx) \<ge> L" using True lo h by (simp add: d_def)
    with prefix_take_comm [OF pre(1)] pre(2) have "take L (take ?o b @ rx) = p" by simp
    moreover have "take L (take ?o b @ rx) = take ?o b @ d"
      using lo h(5) by (auto simp: d_def min_absorb1 min_absorb2)
    ultimately have p: "take ?o b @ d = p" by simp
    have step: "cl_body r rx eof = Inr (r\<lparr>ur_recvbuff := Some (blit ?o d b),
        ur_recvHeadFlag := False, ur_remainLengthtoRecv := int L, ur_lengthHasRecv := 0,
        ur_haveReadFlag := True\<rparr>, drop m rx, [blit ?o d b])"
      using True h b ld by (simp add: cl_body_def k mc [unfolded True] Let_def)
    have "p @ drop m rx = take ?o b @ rx" by (simp add: p [symmetric] d_def)
    with step show ?thesis
      using pay p by (auto simp: cl_framed_def cl_partial_def)
  next
    case False
    then have lt: "length d < m" by (simp add: d_def)
    then have all: "d = rx" "drop m rx = []" by (auto simp: d_def)
    have step: "cl_body r rx eof = Inr (r\<lparr>ur_recvbuff := Some (blit ?o d b),
        ur_remainLengthtoRecv := int m - int (length d), ur_lengthHasRecv := int h + int (length d)\<rparr>,
        drop m rx, [])"
      using False h b ld by (simp add: cl_body_def k mc Let_def)
    have n: "nat (16 + (int h + int (length d))) = ?o + length d" by simp
    show ?thesis
      unfolding step using lt all tk flag h hb hdr lb n
      by (simp add: cl_framed_def cl_partial_def add.assoc)
  qed
qed

lemma cl_head_reads:
  assumes "16 < length rx" "length junk = block_size"
  defines "b \<equiv> blit 0 (take 16 rx) junk"
  shows "cl_head junk r rx False = Inr ((get_recv b r)\<lparr>ur_totalLengthOfData := hdr_length b,
    ur_remainLengthtoRecv := hdr_length b - 16, ur_recvHeadFlag := True\<rparr>, drop 16 rx)"
  using assms(1) read_header [OF less_imp_le [OF assms(1)] assms(2), folded b_def]
  by (simp add: cl_head_def header_size_def min_absorb1 hdr_length_def)

lemma client_step_middle:
  assumes fr: "cl_framed r" and fl: "ur_recvHeadFlag r" and rx: "rx \<noteq> []"
    and p: "17 \<le> length p" "length p \<le> block_size" "hdr_length p = int (length p)"
    and pre: "prefix (cl_partial r @ rx) (p @ q)"
  shows "\<exists>r' rx' out. client_read junk r rx = Inr (r', rx', out) \<and> cl_framed r' \<and>
       (if out = [] then cl_partial r' @ rx' = cl_partial r @ rx
        else \<exists>b. out = [b] \<and> payload b = p \<and> p @ cl_partial r' @ rx' = cl_partial r @ rx)"
proof -
  from fr fl obtain b where b: "ur_recvbuff r = Some b" "length b = block_size"
    and h: "0 \<le> ur_lengthHasRecv r" "0 < ur_remainLengthtoRecv r"
      "16 + ur_lengthHasRecv r + ur_remainLengthtoRecv r = hdr_length b"
      "ur_totalLengthOfData r = hdr_length b" "hdr_length b \<le> int block_size"
    by (auto simp: cl_framed_def split: option.splits)
  define h' where "h' = nat (ur_lengthHasRecv r)"
  define m where "m = nat (ur_remainLengthtoRecv r)"
  have hm: "ur_lengthHasRecv r = int h'" "ur_remainLengthtoRecv r = int m" "0 < m"
    using h by (simp_all add: h'_def m_def)
  have part: "cl_partial r = take (16 + h') b"
    using fl b hm by (simp add: cl_partial_def nat_add_distrib)
  have le: "16 + h' \<le> length b" using h hm b by simp
  have "hdr_length b = hdr_length p"
    by (rule header_of_first [OF pre]) (use le part p in \<open>simp_all add: min_absorb1\<close>)
  then have L: "ur_totalLengthOfData r = int (length p)" "16 + h' + m = length p"
    "hdr_length b = int (length p)"
    using h hm p(3) by simp_all
  from cl_body_frames [OF b hm L(1,2,3) p(2) fl rx pre [unfolded part] refl, of False]
  show ?thesis
    using fl part by (auto simp: client_read_def cl_step_def split: if_splits)
qed

lemma client_step_start:
  assumes fr: "cl_framed r" and fl: "\<not> ur_recvHeadFlag r" and rdy: "cl_ready r rx"
    and j: "length junk = block_size"
    and p: "17 \<le> length p" "length p \<le> block_size" "hdr_length p = int (length p)"
    and pre: "prefix rx (p @ q)"
  shows "\<exists>r' rx' out. client_read junk r rx = Inr (r', rx', out) \<and> cl_framed r' \<and>
       (if out = [] then cl_partial r' @ rx' = rx
        else \<exists>b. out = [b] \<and> payload b = p \<and> p @ cl_partial r' @ rx' = rx)"
proof (cases "16 < length rx")
  case False
  with rdy fl have "length rx < 16" by (auto simp: cl_ready_def)
  then have "client_read junk r rx = Inr (r, rx, [])"
    using fl by (simp add: client_read_def cl_step_def header_size_def k_fionread_def)
  moreover have "cl_partial r = []" using fl by (simp add: cl_partial_def split: option.split)
  ultimately show ?thesis using fr by simp
next
  case True
  then have le: "16 \<le> length rx" and ne: "drop 16 rx \<noteq> []" by simp_all
  define b where "b = blit 0 (take 16 rx) junk"
  note rd = read_header [OF le j, folded b_def]
  have hdr: "hdr_length b = int (length p)"
    using header_of_first [OF pre le _ rd(2)] p by simp
  let ?r = "(get_recv b r)\<lparr>ur_totalLengthOfData := int (length p),
      ur_remainLengthtoRecv := int (length p) - 16, ur_recvHeadFlag := True\<rparr>"
  have hd: "cl_head junk r rx False = Inr (?r, drop 16 rx)"
    using cl_head_reads [OF True j, of r, folded b_def] hdr by simp
  have all: "take (16 + 0) b @ drop 16 rx = rx" by (simp add: rd)
  have pre16: "prefix (take (16 + 0) b @ drop 16 rx) (p @ q)" using pre by (simp only: all)
  have rm: "ur_remainLengthtoRecv ?r = int (length p - 16)" "0 < length p - 16"
    "16 + 0 + (length p - 16) = length p"
    using p(1) by auto
  have flds: "ur_recvbuff ?r = Some b" "ur_lengthHasRecv ?r = int 0"
    "ur_totalLengthOfData ?r = int (length p)" "ur_recvHeadFlag ?r"
    using fr fl by (simp_all add: get_recv_def cl_framed_def)
  from cl_body_frames [OF flds(1) rd(1) flds(2) rm(1,2) flds(3) rm(3) hdr p(2) flds(4) ne pre16 refl,
      of False, unfolded all]
  obtain r' rx' out where
    "cl_body ?r (drop 16 rx) False = Inr (r', rx', out)" "cl_framed r'"
    "if out = [] then cl_partial r' @ rx' = rx
     else \<exists>b'. out = [b'] \<and> payload b' = p \<and> p @ cl_partial r' @ rx' = rx"
    by blast
  then show ?thesis
    using fl True hd
    by (auto simp: client_read_def cl_step_def header_size_def k_fionread_def split: if_splits)
qed

lemma client_step_frames:
  assumes fr: "cl_framed r" and j: "length junk = block_size" and rdy: "cl_ready r rx"
    and ps: "\<forall>p \<in> set ps. valid_packet 17 p"
    and pre: "prefix (cl_partial r @ rx) (concat ps)"
  shows "\<exists>r' rx' out. client_read junk r rx = Inr (r', rx', out) \<and> cl_framed r' \<and>
       (if out = [] then cl_partial r' @ rx' = cl_partial r @ rx
        else \<exists>b p ps'. out = [b] \<and> ps = p # ps' \<and> payload b = p \<and>
               p @ cl_partial r' @ rx' = cl_partial r @ rx)"
proof -
  from rdy have "cl_partial r @ rx \<noteq> []" and rx: "rx \<noteq> []" by (simp_all add: cl_ready_def)
  from first_packet [OF pre this(1)] obtain p ps' where ps': "ps = p # ps'" .
  with ps have p: "17 \<le> length p" "length p \<le> block_size" "hdr_length p = int (length p)"
    by (simp_all add: valid_packet_def)
  have pre': "prefix (cl_partial r @ rx) (p @ concat ps')" using pre ps' by simp
  show ?thesis
  proof (cases "ur_recvHeadFlag r")
    case True
    show ?thesis using client_step_middle [OF fr True rx p pre', of junk] ps' by (simp cong: if_cong split del: if_split)
  next
    case False
    then have part: "cl_partial r = []" by (simp add: cl_partial_def split: option.split)
    from client_step_start [OF fr False rdy j p, of "concat ps'"] pre' part ps' show ?thesis
      by (simp cong: if_cong split del: if_split)
  qed
qed

interpretation client_framer: framer client_read cl_partial cl_framed cl_ready 17
  by unfold_locales (rule client_step_frames)

end
