(* ===== verification/ClientCmd.thy ===== *)
theory ClientCmd
  imports ClientIO
begin

text \<open>
  The command module of the client, \<open>CmdModel\<close> in cmdmodel.cpp: what the user types
  (\<open>printCmdIdList\<close>), what the server sends (\<open>dealWithMessage\<close>), and files, cut into datagrams by
  \<open>udpSendFile\<close> and put together by \<open>writeFile\<close>. \<open>junk\<close> is always the contents of a newly allocated
  block.
\<close>

section \<open>Packets typed by the user\<close>

text \<open>
  The text goes to offset 20, with no check against the block; the length is taken from it with
  \<open>strlen\<close>. The second result is the value of \<open>remainLengthofSend\<close>.
\<close>

definition fill_chat :: "block \<Rightarrow> block \<Rightarrow> int \<Rightarrow> i32 option \<Rightarrow> cmdId \<Rightarrow> (block \<times> int) res" where
  "fill_chat junk txt uid to c =
     rbind (c_strcpy 20 txt junk) (\<lambda>b. rbind (wr32 12 1 b) (\<lambda>b.
     rbind (wr32 4 (word_of_int uid) b) (\<lambda>b. rbind (c_strlen (drop 20 b)) (\<lambda>n.
     rbind (wr32 8 (word_of_nat (16 + 4 + n + 1)) b) (\<lambda>b.
     rbind (case to of None \<Rightarrow> Inr b | Some w \<Rightarrow> wr32 16 w b) (\<lambda>b.
     rbind (wr32 0 (word_of_int (cmd_num c)) b) (\<lambda>b. Inr (b, int (16 + 4 + n + 1)))))))))"

definition put_send :: "block \<Rightarrow> int \<Rightarrow> userdata \<Rightarrow> userdata" where
  "put_send b len u =
     u\<lparr>ud_sendbuff := BufLive b, ud_MsgSend := MsgIsSendbuff, remainLengthofSend := len\<rparr>"

text \<open>
  \<open>printCmdIdList\<close>: the choice, the text or file name and the receiver typed. \<open>QUIT\<close> writes through
  \<open>m_MsgSend\<close> without a new block.
\<close>

definition printCmdIdList :: "block \<Rightarrow> char \<Rightarrow> block \<Rightarrow> i32 \<Rightarrow> userdata \<Rightarrow> userdata res" where
  "printCmdIdList junk c txt to u =
     (if c = CHR ''1'' then
        rbind (fill_chat junk txt (ud_userId u) (Some to) SENDtoONE) (\<lambda>(b, len).
          Inr (put_send b len (get_send junk u)))
      else if c = CHR ''2'' then
        rbind (fill_chat junk txt (ud_userId u) None SENDtoOTHERS) (\<lambda>(b, len).
          Inr (put_send b len (get_send junk u)))
      else if c = CHR ''3'' then
        rbind (fill_chat junk txt (ud_userId u) (Some to) SENDFILENAME) (\<lambda>(b, len).
          rbind (c_str (drop 20 b)) (\<lambda>name. rbind (c_strcpy 0 name (ud_filename u)) (\<lambda>fn.
            Inr ((put_send b len (get_send junk u))\<lparr>sendFileToClientId := to, ud_filename := fn\<rparr>))))
      else if c = CHR ''4'' then
        (case ud_MsgSend u of
           MsgUninit \<Rightarrow> Inl UninitRead
         | MsgStale \<Rightarrow> Inl UseAfterFree
         | MsgIsSendbuff \<Rightarrow>
             (case ud_sendbuff u of
                BufUninit \<Rightarrow> Inl UninitRead
              | BufGone \<Rightarrow> Inl UseAfterFree
              | BufLive b \<Rightarrow> rbind (wr32 0 (word_of_int (cmd_num QUIT)) b) (\<lambda>b.
                  Inr (u\<lparr>ud_sendbuff := BufLive b\<rparr>))))
      else Inr u)"

text \<open>A line on the terminal: a word into ten bytes, then the menu; the send flag is set in any case.\<close>

definition stdin_line :: "block \<Rightarrow> block \<Rightarrow> char \<Rightarrow> block \<Rightarrow> i32 \<Rightarrow> client \<Rightarrow> client res" where
  "stdin_line word junk c txt to cl =
     (if 10 \<le> length word then Inl OutOfBounds
      else rbind (printCmdIdList junk c txt to (cl_user cl)) (\<lambda>u.
             Inr (cl\<lparr>cl_user := u\<lparr>haveSendFlag := True\<rparr>\<rparr>)))"

definition returnYesorNo :: "block \<Rightarrow> string \<Rightarrow> i32 \<Rightarrow> userdata \<Rightarrow> userdata res" where
  "returnYesorNo junk r to u =
     rbind (c_strcpy 20 (str_bytes r) junk) (\<lambda>b. rbind (wr32 12 1 b) (\<lambda>b. rbind (wr32 16 to b) (\<lambda>b.
     rbind (wr32 0 (word_of_int (cmd_num FILERET)) b) (\<lambda>b. rbind (wr32 4 (word_of_int (ud_userId u)) b) (\<lambda>b.
     rbind (wr32 8 22 b) (\<lambda>b. Inr ((put_send b 22 (get_send junk u))\<lparr>haveSendFlag := True\<rparr>)))))))"

text \<open>\<open>recvFileDecide\<close>: the name is extended in place by "++" and opened for appending.\<close>

definition recvFileDecide :: "block \<Rightarrow> char \<Rightarrow> block \<Rightarrow> i32 \<Rightarrow> client \<Rightarrow> client res" where
  "recvFileDecide junk c pack from cl =
     (if c = CHR ''y'' then
        rbind (c_str (drop 20 pack)) (\<lambda>name.
          if 20 + length name + 3 > length pack then Inl OutOfBounds
          else case f_open_append (name @ str_bytes ''++'') (cl_disk cl) of (pf, d) \<Rightarrow>
            rbind (returnYesorNo junk ''Y'' from ((cl_user cl)\<lparr>ud_pf := pf\<rparr>)) (\<lambda>u.
              Inr (cl\<lparr>cl_user := u, cl_disk := d\<rparr>)))
      else if c = CHR ''n'' then
        rbind (returnYesorNo junk ''N'' from (cl_user cl)) (\<lambda>u. Inr (cl\<lparr>cl_user := u\<rparr>))
      else Inr cl)"

section \<open>Files received\<close>

text \<open>\<open>fwrite\<close> of the contents of a packet, from offset \<open>off\<close>, with a count that is an \<open>int\<close>.\<close>

definition write_contents :: "nat \<Rightarrow> int \<Rightarrow> block \<Rightarrow> fstream \<Rightarrow> disk \<Rightarrow> (fstream \<times> disk) res" where
  "write_contents off n pack f d =
     (if 0 \<le> n \<and> int off + n \<le> int (length pack)
      then Inr (f_write (cells off (nat n) pack) f d) else Inl OutOfBounds)"

text \<open>When the size announced has been written the counts are reset and the file is closed.\<close>

definition count_received :: "int \<Rightarrow> int \<Rightarrow> fstream \<Rightarrow> userdata \<Rightarrow> userdata" where
  "count_received n filesize f u =
     (if recvFileSize u + n = filesize
      then u\<lparr>recvFileSize := 0, recvFileCount := 0, sendFileCount := 0, ud_pf := PfClosed\<rparr>
      else u\<lparr>recvFileSize := recvFileSize u + n, ud_pf := PfOpen f\<rparr>)"

definition writeFile :: "int \<Rightarrow> block \<Rightarrow> client \<Rightarrow> client res" where
  "writeFile fileseek pack cl =
     (let u = cl_user cl in
      rbind (f_stream (ud_pf u)) (\<lambda>f. rbind (rd32 8 pack) (\<lambda>len. rbind (rd32 32 pack) (\<lambda>size.
        rbind (write_contents 46 (sint len - 46) pack (f_seek (1390 * (fileseek - 1)) f) (cl_disk cl))
          (\<lambda>(f, d).
             Inr (cl\<lparr>cl_user := count_received (sint len - 46) (sint size) f
                               (u\<lparr>recvFileCount := recvFileCount u + 1\<rparr>), cl_disk := d\<rparr>))))))"

text \<open>
  A datagram of a file: one that is late is written only if it is in the map of the missing ones; one
  that is early enters the counts it skipped in the map.
\<close>

definition mark_missing :: "int \<Rightarrow> int \<Rightarrow> int \<Rightarrow> (int, int) smap \<Rightarrow> (int, int) smap" where
  "mark_missing lo hi uid m = fold (\<lambda>i. map_put i uid) [lo..hi - 1] m"

definition recv_datagram :: "block \<Rightarrow> client \<Rightarrow> client res" where
  "recv_datagram pack cl =
     rbind (rd32 16 pack) (\<lambda>c. rbind (rd32 4 pack) (\<lambda>from.
       let count = sint c in
       if count - nowPackNum cl < 1
       then if map_find count (m_udpMap cl) = None then Inr cl
            else writeFile count pack (cl\<lparr>m_udpMap := map_del count (m_udpMap cl)\<rparr>)
       else if count - nowPackNum cl = 1
       then writeFile count pack (cl\<lparr>nowPackNum := count\<rparr>)
       else writeFile count pack (cl\<lparr>m_udpMap := mark_missing (nowPackNum cl + 1) count (sint from) (m_udpMap cl),
              nowPackNum := count\<rparr>)))"

section \<open>Packets from the server\<close>

definition show_message :: "block \<Rightarrow> client \<Rightarrow> client res" where
  "show_message pack cl =
     rbind (rd32 16 pack) (\<lambda>from. rbind (c_str (drop 20 pack)) (\<lambda>txt.
       Inr (cl\<lparr>shown := shown cl @ [(sint from, txt)]\<rparr>)))"

text \<open>The answer to an offer: on "Y" the file is opened and the transfer starts.\<close>

definition recv_fileret :: "int \<Rightarrow> block \<Rightarrow> client \<Rightarrow> client res" where
  "recv_fileret now pack cl =
     (let u = cl_user cl in
      rbind (c_str (drop 20 pack)) (\<lambda>txt.
        if txt = str_bytes ''Y''
        then rbind (c_str (ud_filename u)) (\<lambda>name.
               let u = u\<lparr>ud_fileSize := getFileSize (cl_disk cl) name (ud_fileSize u)\<rparr>;
                   pf = f_open_read name (cl_disk cl) in
               if pf = PfNull then Inl (Exited 0)
               else Inr (cl\<lparr>cl_user := u\<lparr>ud_pf := pf, startTransfer := True\<rparr>, sendtime := now\<rparr>))
        else Inr cl))"

definition recv_filepart :: "block \<Rightarrow> client \<Rightarrow> client res" where
  "recv_filepart pack cl =
     (let u = cl_user cl in
      rbind (f_stream (ud_pf u)) (\<lambda>f. rbind (rd32 8 pack) (\<lambda>len. rbind (rd32 20 pack) (\<lambda>size.
        rbind (write_contents 124 (sint len - 124) pack f (cl_disk cl)) (\<lambda>(f, d).
          Inr (cl\<lparr>cl_user := count_received (sint len - 124) (sint size) f u, cl_disk := d\<rparr>))))))"

text \<open>\<open>ans\<close> is what the user answers to the offer of a file.\<close>

definition dealWithMessage :: "block \<Rightarrow> char \<Rightarrow> int \<Rightarrow> block \<Rightarrow> client \<Rightarrow> client res" where
  "dealWithMessage junk ans now pack cl =
     rbind (rd32 0 pack) (\<lambda>cmd.
       case cmd_of (sint cmd) of
         Some UDPRESEND \<Rightarrow> Inr (cl\<lparr>m_udpList := pack_push pack (m_udpList cl)\<rparr>)
       | Some SENDtoONE \<Rightarrow> show_message pack cl
       | Some SENDtoOTHERS \<Rightarrow> show_message pack cl
       | Some SENDFILENAME \<Rightarrow>
           rbind (show_message pack cl) (\<lambda>cl. rbind (rd32 16 pack) (\<lambda>from.
             recvFileDecide junk ans pack from cl))
       | Some FILERET \<Rightarrow> recv_fileret now pack cl
       | Some SENDFILE \<Rightarrow> recv_filepart pack cl
       | Some UDPSENDFILE \<Rightarrow> recv_datagram pack cl
       | Some HEARTBEAT \<Rightarrow> Inr (cl\<lparr>cl_user := (cl_user cl)\<lparr>lastHeartPackRecvTime := now\<rparr>\<rparr>)
       | _ \<Rightarrow> Inr cl)"

section \<open>Files sent\<close>

text \<open>
  \<open>udpSendFile\<close>: the next 1390 bytes; nothing to read ends the client. The name is copied with
  \<open>strcpy\<close> into a field of ten bytes in front of the contents. A copy is kept for retransmission.
\<close>

definition udp_block :: "block \<Rightarrow> block \<Rightarrow> int \<Rightarrow> block \<Rightarrow> userdata \<Rightarrow> block res" where
  "udp_block junk b now name u =
     rbind (c_memcpy 46 b junk (int (length b))) (\<lambda>p. rbind (wr32 12 1 p) (\<lambda>p.
     rbind (wr32 0 (word_of_int (cmd_num UDPSENDFILE)) p) (\<lambda>p.
     rbind (wr32 4 (word_of_int (ud_userId u)) p) (\<lambda>p.
     rbind (wr32 8 (word_of_nat (16 + 20 + 10 + length b)) p) (\<lambda>p.
     rbind (wr32 16 (word_of_int (sendFileCount u)) p) (\<lambda>p.
     rbind (wr64 20 (word_of_int now) p) (\<lambda>p.
     rbind (wr32 28 (sendFileToClientId u) p) (\<lambda>p.
     rbind (wr32 32 (word_of_int (ud_fileSize u)) p) (\<lambda>p.
       c_strcpy 36 name p)))))))))"

definition udpSendFile :: "block \<Rightarrow> int \<Rightarrow> client \<Rightarrow> client res" where
  "udpSendFile junk now cl =
     rbind (f_stream (ud_pf (cl_user cl))) (\<lambda>f.
       case f_read 1390 f (cl_disk cl) of (b, f) \<Rightarrow>
         if b = [] then Inl (Exited 0)
         else let u = (cl_user cl)\<lparr>ud_pf := PfOpen f, sendFileCount := sendFileCount (cl_user cl) + 1\<rparr> in
           rbind (c_str (ud_filename u)) (\<lambda>name. rbind (udp_block junk b now name u) (\<lambda>p.
             Inr (cl\<lparr>m_udpSaveMap := map_ins (sendFileCount u) p (m_udpSaveMap cl),
                     cl_user := u\<lparr>m_writeList := pack_push p (m_writeList u)\<rparr>\<rparr>))))"

text \<open>\<open>tcpSendFile\<close>, whose call is commented out, puts 1300 bytes into the send block.\<close>

definition tcpSendFile :: "block \<Rightarrow> client \<Rightarrow> client res" where
  "tcpSendFile junk cl =
     rbind (f_stream (ud_pf (cl_user cl))) (\<lambda>f.
       case f_read 1300 f (cl_disk cl) of (b, f) \<Rightarrow>
         if b = [] then Inl (Exited 0)
         else let u = get_send junk ((cl_user cl)\<lparr>ud_pf := PfOpen f,
                        sendFileCount := sendFileCount (cl_user cl) + 1\<rparr>) in
           rbind (c_memcpy 124 b junk (int (length b))) (\<lambda>p. rbind (wr32 12 1 p) (\<lambda>p.
           rbind (wr32 0 (word_of_int (cmd_num SENDFILE)) p) (\<lambda>p.
           rbind (wr32 4 (word_of_int (ud_userId u)) p) (\<lambda>p.
           rbind (wr32 8 (word_of_nat (16 + 8 + 100 + length b)) p) (\<lambda>p.
           rbind (wr32 16 (sendFileToClientId u) p) (\<lambda>p.
           rbind (wr32 20 (word_of_int (ud_fileSize u)) p) (\<lambda>p.
           rbind (c_str (ud_filename u)) (\<lambda>name. rbind (c_strcpy 24 name p) (\<lambda>p.
             Inr (cl\<lparr>cl_user := u\<lparr>ud_sendbuff := BufLive p, lengthHasSend := 0, haveSendFlag := True,
                    remainLengthofSend := int (16 + 8 + 100 + length b)\<rparr>\<rparr>)))))))))))"

text \<open>\<open>udpSendRegister\<close>: the block goes to the list of datagrams and stays in \<open>sendbuff\<close>.\<close>

definition udpSendRegister :: "block \<Rightarrow> userdata \<Rightarrow> userdata res" where
  "udpSendRegister junk u =
     rbind (c_strcpy 20 (str_bytes ''Y'') junk) (\<lambda>b. rbind (wr32 12 1 b) (\<lambda>b.
     rbind (wr32 0 (word_of_int (cmd_num UDPREGISTER)) b) (\<lambda>b.
     rbind (wr32 4 (word_of_int (ud_userId u)) b) (\<lambda>b. rbind (wr32 8 1436 b) (\<lambda>b.
       Inr (u\<lparr>ud_sendbuff := BufGone, ud_MsgSend := MsgIsSendbuff,
              m_writeList := pack_push b (m_writeList u)\<rparr>))))))"

definition cl_sendHeartBeat :: "block \<Rightarrow> int \<Rightarrow> userdata \<Rightarrow> userdata res" where
  "cl_sendHeartBeat junk now u =
     rbind (c_strcpy 20 (str_bytes ''heartbeat'') junk) (\<lambda>b. rbind (wr32 12 1 b) (\<lambda>b.
     rbind (wr32 16 0 b) (\<lambda>b. rbind (wr32 0 (word_of_int (cmd_num HEARTBEAT)) b) (\<lambda>b.
     rbind (wr32 4 (word_of_int (ud_userId u)) b) (\<lambda>b. rbind (wr32 8 30 b) (\<lambda>b.
       Inr ((put_send b 30 (get_send junk u))\<lparr>haveSendFlag := True, lastSendTime := now\<rparr>)))))))"

text \<open>\<open>Start\<close>: the clocks, the registration, then lines of the terminal.\<close>

definition CmdModel_Start_head :: "block \<Rightarrow> int \<Rightarrow> client \<Rightarrow> client res" where
  "CmdModel_Start_head junk now cl =
     rbind (udpSendRegister junk ((cl_user cl)\<lparr>lastHeartPackRecvTime := now, lastSendTime := now\<rparr>))
       (\<lambda>u. Inr (cl\<lparr>cl_user := u\<rparr>))"

text \<open>
  One pass of the loop of \<open>Start\<close>: what \<open>select\<close> returns and whether it reports the terminal. The test of
  the last time of sending guards a call that is commented out.
\<close>

definition CmdModel_Start_iter :: "int \<Rightarrow> bool \<Rightarrow> block \<Rightarrow> block \<Rightarrow> char \<Rightarrow> block \<Rightarrow> i32 \<Rightarrow> client \<Rightarrow> client res" where
  "CmdModel_Start_iter ret on_stdin word junk c txt to cl =
     (if ret \<le> 0 then Inr cl
      else if on_stdin then stdin_line word junk c txt to cl
      else Inr cl)"

section \<open>The phases of StartSendFile\<close>

definition save_expire_one :: "int \<Rightarrow> int \<Rightarrow> client \<Rightarrow> client res" where
  "save_expire_one now k cl =
     (case map_find k (m_udpSaveMap cl) of
        None \<Rightarrow> Inl DanglingIter
      | Some b \<Rightarrow> rbind (rd64 20 b) (\<lambda>t.
          Inr (if now - sint t > 200 then cl\<lparr>m_udpSaveMap := map_del k (m_udpSaveMap cl)\<rparr> else cl)))"

definition save_expire :: "bool \<Rightarrow> int \<Rightarrow> client \<Rightarrow> client res" where
  "save_expire resume now cl =
     (if now - last_expire cl > 1
      then each_key resume (\<lambda>cl. keys (m_udpSaveMap cl)) (save_expire_one now) (cl\<lparr>last_expire := now\<rparr>)
      else Inr cl)"

text \<open>A report of lost datagrams: those still kept are sent again.\<close>

definition resend_saved :: "block \<Rightarrow> nat \<Rightarrow> client \<Rightarrow> client res" where
  "resend_saved pack i cl =
     rbind (rd32 (24 + 4 * i) pack) (\<lambda>k.
       case map_find (sint k) (m_udpSaveMap cl) of
         None \<Rightarrow> Inr cl
       | Some b \<Rightarrow>
           if length b < block_size then Inl OutOfBounds
           else Inr (cl\<lparr>cl_user := (cl_user cl)\<lparr>m_writeList :=
                          pack_push (take block_size b) (m_writeList (cl_user cl))\<rparr>\<rparr>))"

definition answer_report :: "client \<Rightarrow> client res" where
  "answer_report cl =
     (if sl_getPackSize (m_udpList cl) > 0
      then rbind (pack_pop (m_udpList cl)) (\<lambda>(pack, l). rbind (rd32 20 pack) (\<lambda>n.
             rfold (resend_saved pack) [0..<nat (sint n)] (cl\<lparr>m_udpList := l\<rparr>)))
      else Inr cl)"

text \<open>
  The transfer: while the end-of-file indicator is not set another datagram is made, then the file is
  closed. A pointer that is not null passes the test whatever it points to.
\<close>

definition transfer_step :: "block \<Rightarrow> int \<Rightarrow> client \<Rightarrow> client res" where
  "transfer_step junk now cl =
     (let u = cl_user cl in
      if startTransfer u \<and> ud_pf u \<noteq> PfNull
      then rbind (f_stream (ud_pf u)) (\<lambda>f.
             if \<not> fs_eof f then udpSendFile junk now cl
             else Inr (cl\<lparr>cl_user := u\<lparr>ud_pf := PfClosed, startTransfer := False\<rparr>\<rparr>))
      else Inr cl)"

definition StartSendFile_iter :: "bool \<Rightarrow> block \<Rightarrow> int \<Rightarrow> client \<Rightarrow> client res" where
  "StartSendFile_iter resume junk now cl =
     rbind (save_expire resume now cl) (\<lambda>cl. rbind (answer_report cl) (\<lambda>cl. transfer_step junk now cl))"

section \<open>The phases of StartWriteFile\<close>

definition take_message :: "block \<Rightarrow> char \<Rightarrow> int \<Rightarrow> client \<Rightarrow> client res" where
  "take_message junk ans now cl =
     (if sl_getPackSize (m_readList cl) > 0
      then rbind (pack_pop (m_readList cl)) (\<lambda>(pack, l).
             dealWithMessage junk ans now pack (cl\<lparr>m_readList := l\<rparr>))
      else Inr cl)"

text \<open>
  The reports of what is missing, ten numbers to a block of 220 bytes. The state of the loop is the
  number of entries in the current block, the block, and the blocks finished; \<open>junk i\<close> is the
  contents of the \<open>i\<close>th block allocated.
\<close>

definition report_one ::
  "(nat \<Rightarrow> block) \<Rightarrow> int \<Rightarrow> int \<times> int \<Rightarrow> nat \<times> block \<times> block list \<Rightarrow> (nat \<times> block \<times> block list) res"
where
  "report_one junk uid entry st =
     (case (entry, st) of ((k, v), (i, tmp, out)) \<Rightarrow>
        let tmp = (if i = 0 then junk (length out) else tmp) in
        rbind (wr32 12 1 tmp) (\<lambda>b. rbind (wr32 0 (word_of_int (cmd_num UDPRESEND)) b) (\<lambda>b.
        rbind (wr32 4 (word_of_int uid) b) (\<lambda>b. rbind (wr32 8 220 b) (\<lambda>b.
        rbind (wr32 16 (word_of_int v) b) (\<lambda>b. rbind (wr32 (24 + 4 * i) (word_of_int k) b) (\<lambda>b.
          if i + 1 = 10
          then rbind (wr32 20 10 b) (\<lambda>b. Inr (0, b, out @ [b]))
          else Inr (i + 1, b, out))))))))"

definition build_reports :: "(nat \<Rightarrow> block) \<Rightarrow> int \<Rightarrow> (int, int) smap \<Rightarrow> block list res" where
  "build_reports junk uid m =
     rbind (rfold (report_one junk uid) m (0, [], [])) (\<lambda>(i, tmp, out).
       if i \<noteq> 0 then rbind (wr32 20 (word_of_nat i) tmp) (\<lambda>b. Inr (out @ [b])) else Inr out)"

definition report_missing :: "(nat \<Rightarrow> block) \<Rightarrow> int \<Rightarrow> client \<Rightarrow> client res" where
  "report_missing junk now_us cl =
     (if m_udpMap cl \<noteq> [] \<and> now_us - last_resend cl > 32000
      then rbind (build_reports junk (ud_userId (cl_user cl)) (m_udpMap cl)) (\<lambda>bs.
             Inr (cl\<lparr>cl_user := (cl_user cl)\<lparr>m_writeList := fold pack_push bs (m_writeList (cl_user cl))\<rparr>,
                     last_resend := now_us\<rparr>))
      else Inr cl)"

definition StartWriteFile_iter ::
  "block \<Rightarrow> (nat \<Rightarrow> block) \<Rightarrow> char \<Rightarrow> int \<Rightarrow> int \<Rightarrow> client \<Rightarrow> client res" where
  "StartWriteFile_iter junk rjunk ans now now_us cl =
     rbind (take_message junk ans now cl) (\<lambda>cl. report_missing rjunk now_us cl)"

end
