(* ===== verification/AcceptThread.thy ===== *)
theory AcceptThread
  imports ServerState
begin

text \<open>
  The login thread of the server, \<open>CAccept::funcAccept\<close> in accept.cpp: new connections, the login
  message read from them, the reply. One iteration of its loop arms the connections that \<open>CCmd\<close> has
  decided on and then handles the events of one \<open>epoll_wait\<close>, each an element of \<open>acc_event\<close> with
  what the kernel returned for it.
\<close>

section \<open>Removing a connection\<close>

definition deleteOneUnloginUser :: "int \<Rightarrow> server \<Rightarrow> server res" where
  "deleteOneUnloginUser sockfd s =
     rbind (unlogin_at (acc_loginMap s) sockfd s) (\<lambda>(a, u).
       let s = put_unlogin a (u\<lparr>ul_deleteFlag1 := True, ul_deleteFlag2 := True\<rparr>) s in
       Inr (s\<lparr>acc_epoll := map_del sockfd (acc_epoll s),
              acc_loginMap := map_del sockfd (acc_loginMap s)\<rparr>))"

text \<open>
  \<open>timeoutFunc\<close>: after more than 60 seconds the reply "N" is sent and the connection removed. It
  removes \<open>m_connfd\<close>, which its caller has just set to the same descriptor.
\<close>

definition timeoutFunc :: "int \<Rightarrow> int \<Rightarrow> server \<Rightarrow> server res" where
  "timeoutFunc sockfd now s =
     rbind (unlogin_at (acc_loginMap s) sockfd s) (\<lambda>(a, u).
       if now - loginTime u > 60
       then rbind (c_strcpy 16 (str_bytes ''N'') (m_loginMsgSend u)) (\<lambda>msg.
              let s = put_unlogin a (u\<lparr>m_loginMsgSend := msg\<rparr>) s;
                  s = s\<lparr>outbox := outbox s @ [(ul_socket u, msg)]\<rparr> in
              deleteOneUnloginUser (m_connfd s) s)
       else Inr s)"

section \<open>A new connection\<close>

text \<open>
  \<open>accept\<close> returned \<open>connfd\<close>. The object gets the current \<open>m_userId\<close>, which is only incremented when
  a login completes. The last five arguments are the indeterminate parts of the new object.
\<close>

definition accept_conn ::
  "int \<Rightarrow> int \<Rightarrow> int \<Rightarrow> block \<Rightarrow> block \<Rightarrow> server \<Rightarrow> server" where
  "accept_conn connfd now jrem jsend jrecv s =
     (let s = s\<lparr>m_connfd := connfd\<rparr> in
      if connfd < 0 then s
      else let a = fresh s;
               u = (CUnloginuser connfd (acc_userId s) jrem jsend jrecv)\<lparr>loginTime := now\<rparr>;
               s = (put_unlogin a u s)\<lparr>fresh := a + 1, acc_epoll := map_ins connfd EPOLLIN (acc_epoll s)\<rparr>
           in s\<lparr>vcdLoginList := unloginUserPush a (vcdLoginList s),
                acc_loginMap := map_ins connfd a (acc_loginMap s)\<rparr>)"

section \<open>A readable connection\<close>

text \<open>
  The header of the login message. The boolean is the \<open>continue\<close> of the code. A wrong command removes
  the connection and goes on.
\<close>

definition accept_head :: "int \<Rightarrow> server \<Rightarrow> (server \<times> bool) res" where
  "accept_head fd s =
     rbind (unlogin_at (acc_loginMap s) fd s) (\<lambda>(a, u).
       case k_recv header_size (sock_rx s fd) (sock_eof s fd) of (n, d, rx') \<Rightarrow>
         rbind (c_memcpy 0 d (recvbuff u) (int (length d))) (\<lambda>buf.
           let s = s\<lparr>sock_rx := (sock_rx s)(fd := rx')\<rparr>;
               u = u\<lparr>recvbuff := buf\<rparr>;
               s = put_unlogin a u s in
           if n = 0 then rbind (deleteOneUnloginUser fd s) (\<lambda>s. Inr (s, True))
           else rbind (rd32 0 buf) (\<lambda>cmd.
             if sint cmd = cmd_num LOGIN
             then rbind (rd32 8 buf) (\<lambda>len.
               Inr (put_unlogin a (u\<lparr>totalLengthOfData := sint len,
                      remainLengthofRecv := sint len - header_size, recvHeadFlag := False\<rparr>) s, False))
             else rbind (deleteOneUnloginUser fd s) (\<lambda>s. Inr (s, False)))))"

text \<open>The rest of the message, always stored right after the header.\<close>

definition accept_body :: "int \<Rightarrow> server \<Rightarrow> server res" where
  "accept_body fd s =
     rbind (unlogin_at (acc_loginMap s) fd s) (\<lambda>(a, u).
       case k_recv (remainLengthofRecv u) (sock_rx s (ul_socket u)) (sock_eof s (ul_socket u)) of
         (n, d, rx') \<Rightarrow>
           rbind (c_memcpy header_size d (recvbuff u) (int (length d))) (\<lambda>buf.
             let s = s\<lparr>sock_rx := (sock_rx s)(ul_socket u := rx')\<rparr>;
                 u = u\<lparr>recvbuff := buf\<rparr> in
             if n > 0
             then let u = u\<lparr>remainLengthofRecv := remainLengthofRecv u - n\<rparr> in
                  Inr (put_unlogin a (if remainLengthofRecv u = 0 then u\<lparr>recvHeadFlag := True\<rparr> else u) s)
             else deleteOneUnloginUser fd (put_unlogin a u s)))"

definition accept_read :: "int \<Rightarrow> server \<Rightarrow> server res" where
  "accept_read fd s =
     rbind (unlogin_at (acc_loginMap s) fd s) (\<lambda>(_, u).
       rbind (if recvHeadFlag u then accept_head fd s else Inr (s, False)) (\<lambda>(s, skip).
         if skip then Inr s
         else rbind (unlogin_at (acc_loginMap s) fd s) (\<lambda>(_, u).
           if \<not> recvHeadFlag u then accept_body fd s else Inr s)))"

text \<open>
  The event handler. With nothing to read the connection is removed, and the condition that follows
  then looks it up again unless 16 bytes are there.
\<close>

definition accept_in :: "int \<Rightarrow> int \<Rightarrow> server \<Rightarrow> server res" where
  "accept_in fd now s =
     (let s = s\<lparr>m_connfd := fd\<rparr>; nread = k_fionread (sock_rx s fd) in
      if fd < 0 then Inr s
      else rbind (if nread = 0 then deleteOneUnloginUser fd s else Inr s) (\<lambda>s.
        rbind (if header_size \<le> nread then Inr True
               else rbind (unlogin_at (acc_loginMap s) fd s) (\<lambda>(_, u). Inr (\<not> recvHeadFlag u))) (\<lambda>enter.
          if enter then accept_read fd s else timeoutFunc fd now s)))"

section \<open>A writable connection\<close>

text \<open>
  The reply; \<open>nread\<close> is what \<open>send\<close> returned. When all of it is out the connection leaves this
  module: \<open>CCmd\<close> sees \<open>loginReturnFlag\<close>.
\<close>

definition accept_out :: "int \<Rightarrow> int \<Rightarrow> server \<Rightarrow> server res" where
  "accept_out fd nread s =
     (let s = s\<lparr>m_connfd := fd\<rparr> in
      rbind (unlogin_at (acc_loginMap s) fd s) (\<lambda>(a, u).
        let s = s\<lparr>outbox := (if 0 < nread then outbox s @ [(fd, take (nat nread) (m_loginMsgSend u))]
                             else outbox s)\<rparr> in
        if nread = 0 then deleteOneUnloginUser fd s
        else let u = u\<lparr>remainSend := remainSend u - nread\<rparr>; s = put_unlogin a u s in
          if remainSend u = 0
          then let s = s\<lparr>acc_epoll := map_del fd (acc_epoll s)\<rparr>;
                   s = (if loginState u = LOGINSUCCESS then s\<lparr>acc_userId := acc_userId s + 1\<rparr> else s);
                   s = put_unlogin a (u\<lparr>loginReturnFlag := True\<rparr>) s
               in Inr (s\<lparr>acc_loginMap := map_del fd (acc_loginMap s)\<rparr>)
          else Inr s))"

section \<open>One iteration\<close>

text \<open>The loop at the top: every decided connection is armed for writing.\<close>

definition accept_arm :: "server \<Rightarrow> server res" where
  "accept_arm s =
     each_key False (\<lambda>s. keys (acc_loginMap s))
       (\<lambda>fd s. rbind (unlogin_at (acc_loginMap s) fd s) (\<lambda>(_, u).
          Inr (if loginState u \<noteq> NOLOGIN
               then s\<lparr>acc_epoll := epoll_mod fd EPOLLOUT (acc_epoll s)\<rparr> else s))) s"

datatype acc_event =
    AccConn int int int block block
  | AccReadable int int
  | AccWritable int int

fun acc_handle :: "acc_event \<Rightarrow> server \<Rightarrow> server res" where
  "acc_handle (AccConn connfd now jrem jsend jrecv) s = Inr (accept_conn connfd now jrem jsend jrecv s)"
| "acc_handle (AccReadable fd now) s = accept_in fd now s"
| "acc_handle (AccWritable fd nread) s = accept_out fd nread s"

definition funcAccept_iter :: "acc_event list \<Rightarrow> server \<Rightarrow> server res" where
  "funcAccept_iter evs s = rbind (accept_arm s) (rfold acc_handle evs)"

end
