(* ===== verification/IoThread.thy ===== *)
theory IoThread
  imports ServerState
begin

text \<open>
  The I/O module of the server, \<open>CIo\<close> in io.cpp: the thread that reads and writes the connections of
  the users that are logged in (\<open>startRequestFunc\<close>), the thread that receives datagrams
  (\<open>startUdpFunc\<close>) and the loop that would send them (\<open>startUdpSendFunc\<close>; the call that would start
  it is commented out in \<open>startUdpSend\<close>).
\<close>

section \<open>Removing a user\<close>

definition deleteloginUser :: "int \<Rightarrow> server \<Rightarrow> server res" where
  "deleteloginUser sockfd s =
     (let s = s\<lparr>io_epoll := map_del sockfd (io_epoll s)\<rparr> in
      rbind (user_at (io_map s) sockfd s) (\<lambda>(a, u).
        Inr ((put_user a (u\<lparr>deleteFlag2 := True, deleteFlag1 := True\<rparr>) s)
               \<lparr>io_map := map_del sockfd (io_map s)\<rparr>)))"

section \<open>Reading\<close>

text \<open>
  \<open>junk\<close> is the contents of the block that is allocated when a new packet starts. The failing \<open>recv\<close>
  inside \<open>recv_step\<close> is the call of \<open>deleteloginUser\<close> followed by a null pointer access.
\<close>

definition epollRead :: "int \<Rightarrow> block \<Rightarrow> server \<Rightarrow> server res" where
  "epollRead sockfd junk s =
     (let nread = k_fionread (sock_rx s sockfd) in
      if nread = 0 then deleteloginUser sockfd s
      else rbind (user_at (io_map s) sockfd s) (\<lambda>(a, u).
        rbind (recv_step junk (m_recv u) (sock_rx s sockfd) (sock_eof s sockfd))
          (\<lambda>(r, rx, packs, gone).
             let s = put_user a (u\<lparr>m_recv := r\<rparr>) s;
                 s = s\<lparr>sock_rx := (sock_rx s)(sockfd := rx),
                       packList := fold packPush packs (packList s)\<rparr>
             in if gone then deleteloginUser sockfd s else Inr s)))"

section \<open>Writing\<close>

text \<open>
  \<open>nread\<close> is what \<open>send\<close> returns. After a failure the user is gone from the map and the descriptor
  from the epoll set; the \<open>EPOLL_CTL_MOD\<close> that follows then changes nothing.
\<close>

definition io_out :: "int \<Rightarrow> int \<Rightarrow> server \<Rightarrow> server res" where
  "io_out sockfd nread s =
     rbind (user_at (io_map s) sockfd s) (\<lambda>(a, u).
       rbind (startSend nread (m_send u)) (\<lambda>(r, snd', out).
         let s = put_user a (u\<lparr>m_send := snd'\<rparr>) s;
             s = s\<lparr>outbox := (if out = [] then outbox s else outbox s @ [(sockfd, out)])\<rparr> in
         rbind (if r = - 1 then deleteloginUser sockfd s else Inr s) (\<lambda>s.
           Inr (s\<lparr>io_epoll := epoll_mod sockfd EPOLLIN (io_epoll s)\<rparr>))))"

section \<open>One iteration of startRequestFunc\<close>

text \<open>A user that logged in is taken over, keyed by its socket.\<close>

definition io_take :: "server \<Rightarrow> server res" where
  "io_take s =
     (if getSize (userListToIO s) > 0
      then rbind (vcdPop (userListToIO s)) (\<lambda>(a, l).
             let s = s\<lparr>userListToIO := l\<rparr> in
             rbind (deref_user a s) (\<lambda>u.
               Inr (s\<lparr>io_map := map_ins (getSocket u) a (io_map s),
                      io_epoll := map_ins (getSocket u) EPOLLIN (io_epoll s)\<rparr>)))
      else Inr s)"

text \<open>The loop over the users: arm those with bytes to send, remove those that quit.\<close>

definition io_visit :: "int \<Rightarrow> server \<Rightarrow> server res" where
  "io_visit fd s =
     rbind (user_at (io_map s) fd s) (\<lambda>(_, u).
       let s = (if getPosition (m_send u) > 0
                then s\<lparr>io_epoll := epoll_mod fd EPOLLOUT (io_epoll s)\<rparr> else s) in
       if deleteFlag1 u then deleteloginUser fd s else Inr s)"

definition io_arm :: "bool \<Rightarrow> server \<Rightarrow> server res" where
  "io_arm resume s = each_key resume (\<lambda>s. keys (io_map s)) io_visit s"

datatype io_event = IoReadable int block | IoWritable int int

fun io_handle :: "io_event \<Rightarrow> server \<Rightarrow> server res" where
  "io_handle (IoReadable fd junk) s = (if fd < 0 then Inr s else epollRead fd junk s)"
| "io_handle (IoWritable fd nread) s = (if fd < 0 then Inr s else io_out fd nread s)"

definition startRequest_iter :: "bool \<Rightarrow> io_event list \<Rightarrow> server \<Rightarrow> server res" where
  "startRequest_iter resume evs s =
     rbind (io_take s) (\<lambda>s. rbind (io_arm resume s) (rfold io_handle evs))"

section \<open>Datagrams\<close>

text \<open>
  \<open>startUdpFunc\<close>: the datagram goes to the packet list in a block of its own, and then the address it
  came from as a second element. Between the two pushes the lock is free, so they are two steps.
\<close>

definition udp_push_pack :: "block \<Rightarrow> block \<Rightarrow> server \<Rightarrow> server" where
  "udp_push_pack junk dgram s =
     s\<lparr>packList := packPush (blit 0 (take block_size dgram) junk) (packList s)\<rparr>"

definition udp_push_addr :: "block \<Rightarrow> server \<Rightarrow> server" where
  "udp_push_addr addr s = s\<lparr>packList := packPush addr (packList s)\<rparr>"

text \<open>
  \<open>startUdpSendFunc\<close>: one pass over the users sends at most one datagram for each, always of 1436
  bytes, whatever the size of the block. The result lists
  the addresses and blocks given to \<open>sendto\<close> and the sum of the sizes found, from which the length of
  the pause is chosen.
\<close>

definition udp_send_one ::
  "int \<Rightarrow> server \<times> int \<times> (block option \<times> block) list \<Rightarrow> (server \<times> int \<times> (block option \<times> block) list) res"
where
  "udp_send_one fd st =
     (case st of (s, flag, out) \<Rightarrow>
       rbind (user_at (io_map s) fd s) (\<lambda>(a, u).
         let n = getPackSize (m_udpSendList u) in
         if n > 0
         then rbind (packPop (m_udpSendList u)) (\<lambda>(pack, l).
                if length pack < block_size then Inl OutOfBounds
                else Inr (put_user a (u\<lparr>m_udpSendList := l\<rparr>) s, flag + n,
                          out @ [(clientaddrUdp u, take block_size pack)]))
         else Inr (s, flag + n, out)))"

definition startUdpSend_pass :: "server \<Rightarrow> (server \<times> int \<times> (block option \<times> block) list) res" where
  "startUdpSend_pass s = rfold udp_send_one (keys (io_map s)) (s, 0, [])"

definition udp_send_pause :: "nat \<Rightarrow> int \<Rightarrow> int" where
  "udp_send_pause n_users flag = (if n_users > 0 \<and> flag \<noteq> 0 then 40 else 10000)"

end
