(* ===== verification/CmdThread.thy ===== *)
theory CmdThread
  imports ServerState
begin

text \<open>
  The command module of the server, \<open>CCmd\<close> in cmd.cpp: \<open>setWriteSocketFdFlag\<close>, which routes one
  packet to the send buffers of its receivers, and the loop \<open>startDealCmd\<close>, which also decides
  logins, removes users that are gone and forgets old datagrams. A packet is a block; the router
  frees it in every case but \<open>UDPSENDFILE\<close>, which keeps it, and the commands it does not know.

  Offsets of proto.h: a header is command 0, user 4, length 8, version 12; a message has the other
  party at 16 and the text at 20; a datagram of a file has the count at 16, the time at 20, the other
  party at 28, the size at 32, the name at 36 and the contents at 46; a report of lost datagrams has
  the other party at 16, their number at 20 and the numbers from 24 on.
\<close>

section \<open>Sending to one user\<close>

text \<open>
  \<open>m_map[id]->m_send->m_copy(pack, length)\<close>, a field of the copy overwritten, then \<open>setPosition\<close>.
  \<open>set_copy off w\<close> is an assignment through the pointer that \<open>m_copy\<close> returned.
\<close>

definition set_copy :: "int \<Rightarrow> i32 \<Rightarrow> ccmdsend \<Rightarrow> ccmdsend res" where
  "set_copy off w c =
     (if off < 0 then Inl OutOfBounds
      else rbind (wr32 (nat off) w (m_sendBuff c)) (\<lambda>b. Inr (c\<lparr>m_sendBuff := b\<rparr>)))"

definition forward_copy :: "block \<Rightarrow> int \<Rightarrow> int \<Rightarrow> i32 \<Rightarrow> ccmdsend \<Rightarrow> ccmdsend res" where
  "forward_copy pack len field w c =
     rbind (m_copy pack len c) (\<lambda>(off, c).
       rbind (set_copy (off + field) w c) (\<lambda>c. Inr (setPosition len c)))"

definition send_to_user :: "int \<Rightarrow> (ccmdsend \<Rightarrow> ccmdsend res) \<Rightarrow> server \<Rightarrow> server res" where
  "send_to_user uid f s =
     rbind (user_at (cmd_map s) uid s) (\<lambda>(a, u).
       rbind (f (m_send u)) (\<lambda>c. Inr (put_user a (u\<lparr>m_send := c\<rparr>) s)))"

text \<open>\<open>m_map[id]->m_udpSendList->packPush(p)\<close>.\<close>

definition push_udp :: "int \<Rightarrow> block \<Rightarrow> server \<Rightarrow> server res" where
  "push_udp uid p s =
     rbind (user_at (cmd_map s) uid s) (\<lambda>(a, u).
       Inr (put_user a (u\<lparr>m_udpSendList := packPush p (m_udpSendList u)\<rparr>) s))"

text \<open>The address that follows a datagram in the packet list, popped and freed if there is anything.\<close>

definition drop_addr :: "server \<Rightarrow> server res" where
  "drop_addr s =
     (if getPackSize (packList s) > 0
      then rbind (packPop (packList s)) (\<lambda>(_, l). Inr (s\<lparr>packList := l\<rparr>))
      else Inr s)"

section \<open>The cases of the router\<close>

text \<open>\<open>SENDtoONE\<close>: sender 0 is the server itself, whose message becomes a heartbeat.\<close>

definition route_one :: "block \<Rightarrow> server \<Rightarrow> server res" where
  "route_one pack s =
     rbind (rd32 16 pack) (\<lambda>to. rbind (rd32 8 pack) (\<lambda>len. rbind (rd32 4 pack) (\<lambda>from.
       send_to_user (sint to)
         (if sint from = 0 then forward_copy pack (sint len) 0 (word_of_int (cmd_num HEARTBEAT))
          else forward_copy pack (sint len) 16 from) s)))"

text \<open>\<open>SENDtoOTHERS\<close>: every user of the map, the sender included.\<close>

definition route_others :: "block \<Rightarrow> server \<Rightarrow> server res" where
  "route_others pack s =
     rbind (rd32 8 pack) (\<lambda>len. rbind (rd32 4 pack) (\<lambda>from.
       each_key False (\<lambda>s. keys (cmd_map s))
         (\<lambda>uid. send_to_user uid (forward_copy pack (sint len) 16 from)) s))"

text \<open>\<open>SENDFILENAME\<close>, \<open>FILERET\<close> and \<open>SENDFILE\<close>: one receiver, the sender's id put in its place.\<close>

definition route_peer :: "block \<Rightarrow> server \<Rightarrow> server res" where
  "route_peer pack s =
     rbind (rd32 16 pack) (\<lambda>to. rbind (rd32 8 pack) (\<lambda>len. rbind (rd32 4 pack) (\<lambda>from.
       send_to_user (sint to) (forward_copy pack (sint len) 16 from) s)))"

text \<open>
  \<open>UDPRESEND\<close>: of the lost datagrams, those that are still kept are queued again for the user that
  asked; the others are collected in a report for the original sender. The report is a block of 220
  cells of which only these fields are set; \<open>junk\<close> is what the rest holds.
\<close>

record resend_acc =
  ra_num :: nat
  ra_report :: block
  ra_server :: server

definition resend_report_size :: nat where
  "resend_report_size = 220"

definition resend_one :: "block \<Rightarrow> block \<Rightarrow> nat \<Rightarrow> resend_acc \<Rightarrow> resend_acc res" where
  "resend_one junk pack i ra =
     rbind (rd32 (24 + 4 * i) pack) (\<lambda>lost. rbind (rd32 4 pack) (\<lambda>from.
       case map_find (sint lost) (udpLoseMap (ra_server ra)) of
         Some kept \<Rightarrow>
           if length kept < block_size then Inl OutOfBounds
           else rbind (push_udp (sint from) (take block_size kept) (ra_server ra)) (\<lambda>s.
                  Inr (ra\<lparr>ra_server := s\<rparr>))
       | None \<Rightarrow>
           rbind (if ra_num ra = 0 then wr32 16 from junk else Inr (ra_report ra)) (\<lambda>rep.
             rbind (wr32 (24 + 4 * ra_num ra) lost rep) (\<lambda>rep.
               Inr (ra\<lparr>ra_report := rep, ra_num := ra_num ra + 1\<rparr>)))))"

definition route_resend :: "block \<Rightarrow> block \<Rightarrow> server \<Rightarrow> server res" where
  "route_resend junk pack s =
     rbind (drop_addr s) (\<lambda>s. rbind (rd32 20 pack) (\<lambda>n. rbind (rd32 16 pack) (\<lambda>to.
       rbind (rfold (resend_one junk pack) [0..<nat (sint n)]
                \<lparr>ra_num = 0, ra_report = junk, ra_server = s\<rparr>) (\<lambda>ra.
         if ra_num ra = 0 then Inr (ra_server ra)
         else rbind (wr32 20 (word_of_nat (ra_num ra)) (ra_report ra)) (\<lambda>rep.
                rbind (wr32 0 (word_of_int (cmd_num UDPRESEND)) rep) (\<lambda>rep.
                  push_udp (sint to) rep (ra_server ra)))))))"

text \<open>
  \<open>UDPSENDFILE\<close>: a copy with the sender's id is queued for the receiver; the datagram itself is
  stamped with the time and kept under its count, unless that count is already there.
\<close>

definition route_udpfile :: "block \<Rightarrow> int \<Rightarrow> block \<Rightarrow> server \<Rightarrow> server res" where
  "route_udpfile junk now pack s =
     rbind (drop_addr s) (\<lambda>s. rbind (rd32 28 pack) (\<lambda>to. rbind (rd32 8 pack) (\<lambda>len.
       rbind (rd32 4 pack) (\<lambda>from. rbind (user_at (cmd_map s) (sint to) s) (\<lambda>(a, u).
         rbind (m_udpcopy junk pack (sint len) (m_send u)) (\<lambda>(copy, c).
           rbind (wr32 28 from copy) (\<lambda>copy.
             let s = put_user a (u\<lparr>m_send := c\<lparr>m_udpSendBuff := Some copy\<rparr>,
                                   m_udpSendList := packPush copy (m_udpSendList u)\<rparr>) s in
             rbind (wr64 20 (word_of_int now) pack) (\<lambda>pack.
               rbind (rd32 16 pack) (\<lambda>count.
                 Inr (s\<lparr>udpLoseMap := map_ins (sint count) pack (udpLoseMap s)\<rparr>))))))))))"

text \<open>\<open>UDPREGISTER\<close>: the next element of the packet list is taken for the sender's address.\<close>

definition route_register :: "block \<Rightarrow> server \<Rightarrow> server res" where
  "route_register pack s =
     rbind (packPop (packList s)) (\<lambda>(addr, l). rbind (rd32 4 pack) (\<lambda>from.
       let s = s\<lparr>packList := l\<rparr> in
       rbind (user_at (cmd_map s) (sint from) s) (\<lambda>(a, u).
         Inr (put_user a (u\<lparr>clientaddrUdp := Some addr\<rparr>) s))))"

definition route_heartbeat :: "int \<Rightarrow> block \<Rightarrow> server \<Rightarrow> server res" where
  "route_heartbeat now pack s =
     rbind (rd32 4 pack) (\<lambda>from.
       rbind (user_at (cmd_map s) (sint from) s) (\<lambda>(a, u).
         Inr (put_user a (u\<lparr>m_lastTime := now\<rparr>) s)))"

section \<open>The router\<close>

text \<open>
  \<open>QUIT\<close> reads the user from the local pointer \<open>tmp\<close>, which only other cases set.
\<close>

definition setWriteSocketFdFlag :: "block \<Rightarrow> int \<Rightarrow> block \<Rightarrow> server \<Rightarrow> server res" where
  "setWriteSocketFdFlag junk now pack s =
     rbind (rd32 0 pack) (\<lambda>cmd.
       case cmd_of (sint cmd) of
         Some UDPRESEND \<Rightarrow> route_resend junk pack s
       | Some SENDtoONE \<Rightarrow> route_one pack s
       | Some SENDtoOTHERS \<Rightarrow> route_others pack s
       | Some SENDFILENAME \<Rightarrow> route_peer pack s
       | Some FILERET \<Rightarrow> route_peer pack s
       | Some SENDFILE \<Rightarrow> route_peer pack s
       | Some UDPSENDFILE \<Rightarrow> route_udpfile junk now pack s
       | Some UDPREGISTER \<Rightarrow> route_register pack s
       | Some HEARTBEAT \<Rightarrow> route_heartbeat now pack s
       | Some QUIT \<Rightarrow> Inl UninitRead
       | Some LOGIN \<Rightarrow> Inr s
       | None \<Rightarrow> Inr s)"

text \<open>
  \<open>sendHeartBeat\<close>: a message from user 0 put into the user's own receive block and pushed to the
  packet list. Its call in the loop is commented out.
\<close>

definition sendHeartBeat :: "block \<Rightarrow> int \<Rightarrow> int \<Rightarrow> server \<Rightarrow> server res" where
  "sendHeartBeat junk now uid s =
     rbind (user_at (cmd_map s) uid s) (\<lambda>(a, u).
       rbind (c_strcpy 20 (str_bytes ''heartbeat'') junk) (\<lambda>b.
       rbind (wr32 16 (word_of_int uid) b) (\<lambda>b.
       rbind (wr32 0 (word_of_int (cmd_num SENDtoONE)) b) (\<lambda>b.
       rbind (wr32 8 30 b) (\<lambda>b.
       rbind (wr32 4 0 b) (\<lambda>b.
         Inr ((put_user a (u\<lparr>m_recv := getRecvBuff b (m_recv u), m_sendLastTime := now\<rparr>) s)
                \<lparr>packList := packPush b (packList s)\<rparr>)))))))"

section \<open>The phases of startDealCmd\<close>

text \<open>
  Kept datagrams older than two seconds are forgotten, at most every two seconds.
\<close>

definition expire_one :: "int \<Rightarrow> int \<Rightarrow> server \<Rightarrow> server res" where
  "expire_one now k s =
     (case map_find k (udpLoseMap s) of
        None \<Rightarrow> Inl DanglingIter
      | Some b \<Rightarrow> rbind (rd64 20 b) (\<lambda>t.
          Inr (if now - sint t > 2 then s\<lparr>udpLoseMap := map_del k (udpLoseMap s)\<rparr> else s)))"

definition cmd_expire :: "bool \<Rightarrow> int \<Rightarrow> server \<Rightarrow> server res" where
  "cmd_expire resume now s =
     (if now - lasttime s > 1
      then each_key resume (\<lambda>s. keys (udpLoseMap s)) (expire_one now) (s\<lparr>lasttime := now\<rparr>)
      else Inr s)"

text \<open>One packet is routed. The result is also the pause that follows.\<close>

definition cmd_route :: "block \<Rightarrow> int \<Rightarrow> server \<Rightarrow> (server \<times> int) res" where
  "cmd_route junk now s =
     (if getPackSize (packList s) > 0
      then rbind (packPop (packList s)) (\<lambda>(pack, l).
             rbind (setWriteSocketFdFlag junk now pack (s\<lparr>packList := l\<rparr>)) (\<lambda>s. Inr (s, 40)))
      else Inr (s, 1000))"

text \<open>One new connection is taken over from \<open>CAccept\<close>.\<close>

definition cmd_take :: "server \<Rightarrow> server res" where
  "cmd_take s =
     (if getUnloginSize (vcdLoginList s) > 0
      then rbind (unloginUserPop (vcdLoginList s)) (\<lambda>(a, l).
             let s = s\<lparr>vcdLoginList := l\<rparr> in
             rbind (deref_unlogin a s) (\<lambda>u.
               Inr (s\<lparr>cmd_loginMap := map_ins (ul_socket u) a (cmd_loginMap s)\<rparr>)))
      else Inr s)"

text \<open>Users whose two flags are set are closed and deleted, at most every two seconds.\<close>

definition sweep_one :: "int \<Rightarrow> server \<Rightarrow> server res" where
  "sweep_one uid s =
     rbind (user_at (cmd_map s) uid s) (\<lambda>(a, u).
       if deleteFlag1 u \<and> deleteFlag2 u
       then Inr (s\<lparr>closed := closed s @ [getSocket u], users := (users s)(a := None),
                  cmd_map := map_del uid (cmd_map s)\<rparr>)
       else Inr s)"

definition cmd_sweep :: "bool \<Rightarrow> int \<Rightarrow> server \<Rightarrow> server res" where
  "cmd_sweep resume now s =
     (if now - lastLoopTime s > 1
      then rbind (each_key resume (\<lambda>s. keys (cmd_map s)) sweep_one s) (\<lambda>s.
             Inr (s\<lparr>lastLoopTime := now\<rparr>))
      else Inr s)"

section \<open>Logins\<close>

text \<open>
  The name is at offset 16 of the receive buffer and the password at 66. The decision is taken once,
  whatever has been received by then.
\<close>

definition login_accepted :: "cunloginuser \<Rightarrow> bool" where
  "login_accepted u \<longleftrightarrow> c_streq 16 ''admin'' (recvbuff u) \<and> c_streq 66 ''admin'' (recvbuff u)"

definition authenticate :: "cunloginuser \<Rightarrow> cunloginuser res" where
  "authenticate u =
     (if authFlag u then Inr u
      else let ok = login_accepted u;
               result = (if ok then str_bytes ''Y'' else str_bytes ''N'') in
        rbind (c_strcpy 16 result (m_loginMsgSend u)) (\<lambda>msg.
          rbind (wr32 4 (word_of_int (ul_userId u)) msg) (\<lambda>msg.
            Inr (u\<lparr>loginState := (if ok then LOGINSUCCESS else LOGINFAILED),
                   m_loginMsgSend := msg, authFlag := True\<rparr>))))"

text \<open>
  A connection that \<open>CAccept\<close> gave up is closed and deleted and its map entry erased; the code then
  reads the flag through that entry, in which it has just stored a null pointer. A connection whose
  reply is out becomes a user if the login succeeded. \<open>jcount\<close> and \<open>jsend\<close> are the indeterminate parts
  of the new \<open>CUser\<close>.
\<close>

definition login_one :: "int \<Rightarrow> 32 word \<Rightarrow> block \<Rightarrow> int \<Rightarrow> server \<Rightarrow> server res" where
  "login_one now jcount jsend fd s =
     rbind (unlogin_at (cmd_loginMap s) fd s) (\<lambda>(a, u0).
       rbind (authenticate u0) (\<lambda>u.
         let s = put_unlogin a u s in
         if ul_deleteFlag1 u \<and> ul_deleteFlag2 u then Inl NullDeref
         else if loginReturnFlag u
         then let s = (if loginState u = LOGINSUCCESS
                  then let b = fresh s;
                           v = setUserId (ul_userId u) (setSocket fd (CUser now jcount jsend))
                       in (put_user b v s)\<lparr>fresh := b + 1,
                            cmd_map := map_ins (ul_userId u) b (cmd_map s),
                            userListToIO := vcdPush b (userListToIO s)\<rparr>
                  else s)
              in Inr (s\<lparr>unlogins := (unlogins s)(a := None),
                       cmd_loginMap := map_del fd (cmd_loginMap s)\<rparr>)
         else Inr s))"

definition cmd_logins :: "bool \<Rightarrow> int \<Rightarrow> 32 word \<Rightarrow> block \<Rightarrow> server \<Rightarrow> server res" where
  "cmd_logins resume now jcount jsend s =
     each_key resume (\<lambda>s. keys (cmd_loginMap s)) (login_one now jcount jsend) s"

section \<open>One iteration\<close>

definition startDealCmd_iter ::
  "bool \<Rightarrow> block \<Rightarrow> 32 word \<Rightarrow> block \<Rightarrow> int \<Rightarrow> server \<Rightarrow> (server \<times> int) res" where
  "startDealCmd_iter resume junk jcount jsend now s =
     rbind (cmd_expire resume now s) (\<lambda>s.
     rbind (cmd_route junk now s) (\<lambda>(s, pause).
     rbind (cmd_take s) (\<lambda>s.
     rbind (cmd_sweep resume now s) (\<lambda>s.
     rbind (cmd_logins resume now jcount jsend s) (\<lambda>s.
       Inr (s, pause))))))"

section \<open>The list of users\<close>

text \<open>\<open>printAllLoginUser\<close>, which nothing calls: a line with id and socket for each user, in the order of the map.\<close>

definition user_line :: "int \<Rightarrow> server \<Rightarrow> (int \<times> int) list \<Rightarrow> (int \<times> int) list res" where
  "user_line uid s out = rbind (user_at (cmd_map s) uid s) (\<lambda>(_, u). Inr (out @ [(getUserId u, getSocket u)]))"

definition printAllLoginUser :: "server \<Rightarrow> (int \<times> int) list res" where
  "printAllLoginUser s = rfold (\<lambda>uid. user_line uid s) (keys (cmd_map s)) []"

end
