(* ===== verification/ServerSystem.thy ===== *)
theory ServerSystem
  imports AcceptThread IoThread CmdThread
begin

text \<open>
  The three threads together. A step of the system is one step of one thread: an event it handles, a
  phase of its loop, or bytes arriving from the network. The order of the steps is arbitrary.
  Connection objects are shared between the threads through pointers and deleted by one of them; the
  invariant below is what keeps the others from touching a deleted object.
\<close>

section \<open>The step relation\<close>

inductive server_step :: "bool \<Rightarrow> server \<Rightarrow> server res \<Rightarrow> bool" for resume where
  net_arrive: "server_step resume s (Inr (s\<lparr>sock_rx := (sock_rx s)(fd := sock_rx s fd @ d)\<rparr>))"
| net_close: "server_step resume s (Inr (s\<lparr>sock_eof := (sock_eof s)(fd := True)\<rparr>))"
| acc_arm: "server_step resume s (accept_arm s)"
| acc_conn: "length jsend = nat loginMessageSend_size \<Longrightarrow> length jrecv = 1500 \<Longrightarrow>
    server_step resume s (acc_handle (AccConn connfd now jrem jsend jrecv) s)"
| acc_in: "server_step resume s (acc_handle (AccReadable fd now) s)"
| acc_out: "nread \<le> loginMessageSend_size \<Longrightarrow>
    server_step resume s (acc_handle (AccWritable fd nread) s)"
| io_step_take: "server_step resume s (io_take s)"
| io_step_arm: "server_step resume s (io_arm resume s)"
| io_step_in: "length junk = block_size \<Longrightarrow> server_step resume s (io_handle (IoReadable fd junk) s)"
| io_step_out: "(\<And>a u. map_find fd (io_map s) = Some a \<Longrightarrow> users s a = Some u \<Longrightarrow>
      nread \<le> m_position (m_send u)) \<Longrightarrow>
    server_step resume s (io_handle (IoWritable fd nread) s)"
| udp_pack: "length junk = block_size \<Longrightarrow> server_step resume s (Inr (udp_push_pack junk dgram s))"
| udp_addr: "length addr = 16 \<Longrightarrow> server_step resume s (Inr (udp_push_addr addr s))"
| cmd_step_expire: "server_step resume s (cmd_expire resume now s)"
| cmd_step_route: "length junk = n \<Longrightarrow> n = block_size \<or> n = resend_report_size \<Longrightarrow>
    server_step resume s (rbind (cmd_route junk now s) (\<lambda>(s, pause). Inr s))"
| cmd_step_take: "server_step resume s (cmd_take s)"
| cmd_step_sweep: "server_step resume s (cmd_sweep resume now s)"
| cmd_step_logins: "length jsend = send_cap \<Longrightarrow>
    server_step resume s (cmd_logins resume now jcount jsend s)"

inductive_cases server_step_stop: "server_step resume s (Inl e)"

inductive server_reach :: "bool \<Rightarrow> server \<Rightarrow> bool" for resume where
  start: "server_reach resume (server_init jpack jlogin juser now)"
| step: "server_reach resume s \<Longrightarrow> server_step resume s (Inr s') \<Longrightarrow> server_reach resume s'"

section \<open>The invariant\<close>

definition vals :: "('k, 'v) smap \<Rightarrow> 'v set" where
  "vals m = snd ` set m"

text \<open>Connections before login: where the pointers are, and what the flags say then.\<close>

definition login_heap_ok :: "server \<Rightarrow> bool" where
  "login_heap_ok s \<longleftrightarrow>
     distinct (map snd (acc_loginMap s)) \<and>
     distinct (m_unloginuser (vcdLoginList s) @ map snd (cmd_loginMap s)) \<and>
     (\<forall>a \<in> vals (acc_loginMap s) \<union> set (m_unloginuser (vcdLoginList s)) \<union> vals (cmd_loginMap s).
        a < fresh s \<and> unlogins s a \<noteq> None) \<and>
     (\<forall>a \<in> vals (acc_loginMap s). \<forall>u. unlogins s a = Some u \<longrightarrow> \<not> loginReturnFlag u)"

text \<open>Users: the I/O thread holds only objects that it has not marked.\<close>

definition user_heap_ok :: "server \<Rightarrow> bool" where
  "user_heap_ok s \<longleftrightarrow>
     distinct (m_user (userListToIO s) @ map snd (io_map s)) \<and>
     distinct (map snd (cmd_map s)) \<and>
     (\<forall>a \<in> set (m_user (userListToIO s)) \<union> vals (io_map s) \<union> vals (cmd_map s).
        a < fresh s \<and> users s a \<noteq> None) \<and>
     (\<forall>a \<in> set (m_user (userListToIO s)) \<union> vals (io_map s).
        \<forall>u. users s a = Some u \<longrightarrow> \<not> deleteFlag2 u)"

definition maps_ok :: "server \<Rightarrow> bool" where
  "maps_ok s \<longleftrightarrow> map_ok (acc_loginMap s) \<and> map_ok (cmd_loginMap s) \<and> map_ok (io_map s) \<and>
     map_ok (cmd_map s) \<and> map_ok (udpLoseMap s)"

definition server_inv :: "server \<Rightarrow> bool" where
  "server_inv s \<longleftrightarrow> maps_ok s \<and> login_heap_ok s \<and> user_heap_ok s"

abbreviation no_uaf :: "stop \<Rightarrow> bool" where
  "no_uaf e \<equiv> e \<noteq> UseAfterFree"

section \<open>Facts about the maps\<close>

lemma map_find_vals: "map_find k m = Some a \<Longrightarrow> a \<in> vals m"
  by (force dest: map_find_in_set simp: vals_def)

lemma set_map_snd: "snd ` set m = vals m"
  by (simp add: vals_def)

lemma vals_map_ins: "vals (map_ins k v m) \<subseteq> insert v (vals m)"
  using set_map_ins [of k v m] by (fastforce simp: vals_def)

lemma vals_map_del: "vals (map_del k m) \<subseteq> vals m"
  using set_map_del [of k m] by (auto simp: vals_def)

lemma distinct_map_ins:
  "distinct (map snd m) \<Longrightarrow> v \<notin> vals m \<Longrightarrow> distinct (map snd (map_ins k v m))"
proof (induction k v m rule: map_ins.induct)
  case (2 k v k' v' m)
  then show ?case using vals_map_ins [of k v m] by (auto simp: vals_def)
qed simp

lemma distinct_map_del: "distinct (map snd m) \<Longrightarrow> distinct (map snd (map_del k m))"
proof (induction k m rule: map_del.induct)
  case (2 k k' v' m)
  then show ?case using vals_map_del [of k m] by (auto simp: vals_def)
qed simp

lemma vals_map_del_found:
  "distinct (map snd m) \<Longrightarrow> map_find k m = Some a \<Longrightarrow> a \<notin> vals (map_del k m)"
proof (induction k m rule: map_del.induct)
  case (2 k k' v' m)
  then show ?case by (auto simp: vals_def dest: map_find_vals split: if_splits)
qed simp

lemmas map_laws = map_ok_map_ins map_ok_map_del distinct_map_ins distinct_map_del

section \<open>Changes that keep the invariant\<close>

lemma inv_frame [simp]:
  "server_inv (s\<lparr>sock_rx := x1\<rparr>) = server_inv s"
  "server_inv (s\<lparr>sock_eof := x2\<rparr>) = server_inv s"
  "server_inv (s\<lparr>outbox := x3\<rparr>) = server_inv s"
  "server_inv (s\<lparr>acc_userId := x4\<rparr>) = server_inv s"
  "server_inv (s\<lparr>m_connfd := x5\<rparr>) = server_inv s"
  "server_inv (s\<lparr>acc_epoll := x6\<rparr>) = server_inv s"
  "server_inv (s\<lparr>io_epoll := x7\<rparr>) = server_inv s"
  "server_inv (s\<lparr>packList := x8\<rparr>) = server_inv s"
  "server_inv (s\<lparr>lasttime := x9\<rparr>) = server_inv s"
  "server_inv (s\<lparr>lastLoopTime := x10\<rparr>) = server_inv s"
  by (simp_all add: server_inv_def maps_ok_def login_heap_ok_def user_heap_ok_def)

lemma inv_udpLoseMap: "server_inv s \<Longrightarrow> map_ok m \<Longrightarrow> server_inv (s\<lparr>udpLoseMap := m\<rparr>)"
  by (simp add: server_inv_def maps_ok_def login_heap_ok_def user_heap_ok_def)

lemma inv_put_unlogin:
  "server_inv s \<Longrightarrow> (a \<in> vals (acc_loginMap s) \<Longrightarrow> \<not> loginReturnFlag u) \<Longrightarrow>
   server_inv (put_unlogin a u s)"
  by (auto simp: server_inv_def maps_ok_def login_heap_ok_def user_heap_ok_def put_unlogin_def)

lemma inv_put_user:
  "server_inv s \<Longrightarrow>
   (a \<in> set (m_user (userListToIO s)) \<union> vals (io_map s) \<Longrightarrow> \<not> deleteFlag2 u) \<Longrightarrow>
   server_inv (put_user a u s)"
  by (auto simp: server_inv_def maps_ok_def login_heap_ok_def user_heap_ok_def put_user_def)

lemma inv_acc_del: "server_inv s \<Longrightarrow> server_inv (s\<lparr>acc_loginMap := map_del fd (acc_loginMap s)\<rparr>)"
  using vals_map_del [of fd "acc_loginMap s"]
  by (auto simp: server_inv_def maps_ok_def login_heap_ok_def user_heap_ok_def map_laws)

lemma inv_io_del: "server_inv s \<Longrightarrow> server_inv (s\<lparr>io_map := map_del fd (io_map s)\<rparr>)"
  using vals_map_del [of fd "io_map s"]
  by (auto simp: server_inv_def maps_ok_def login_heap_ok_def user_heap_ok_def map_laws set_map_snd)

lemma acc_lookup:
  "server_inv s \<Longrightarrow> ensures no_uaf (\<lambda>(a, u). map_find fd (acc_loginMap s) = Some a \<and>
     unlogins s a = Some u \<and> a \<in> vals (acc_loginMap s) \<and> \<not> loginReturnFlag u)
   (unlogin_at (acc_loginMap s) fd s)"
  by (cases "map_find fd (acc_loginMap s)")
    (auto simp: unlogin_at_def deref_unlogin_def server_inv_def login_heap_ok_def
      dest: map_find_vals split: option.splits)

lemma login_lookup:
  "server_inv s \<Longrightarrow> ensures no_uaf (\<lambda>(a, u). map_find fd (cmd_loginMap s) = Some a \<and>
     unlogins s a = Some u) (unlogin_at (cmd_loginMap s) fd s)"
  by (cases "map_find fd (cmd_loginMap s)")
    (auto simp: unlogin_at_def deref_unlogin_def server_inv_def login_heap_ok_def
      dest: map_find_vals split: option.splits)

lemma io_lookup:
  "server_inv s \<Longrightarrow> ensures no_uaf (\<lambda>(a, u). map_find fd (io_map s) = Some a \<and>
     users s a = Some u \<and> a \<in> vals (io_map s) \<and> \<not> deleteFlag2 u) (user_at (io_map s) fd s)"
  by (cases "map_find fd (io_map s)")
    (auto simp: user_at_def deref_user_def server_inv_def user_heap_ok_def
      dest: map_find_vals split: option.splits)

lemma cmd_lookup:
  "server_inv s \<Longrightarrow> ensures no_uaf (\<lambda>(a, u). map_find uid (cmd_map s) = Some a \<and>
     users s a = Some u \<and>
     (a \<in> set (m_user (userListToIO s)) \<union> vals (io_map s) \<longrightarrow> \<not> deleteFlag2 u))
   (user_at (cmd_map s) uid s)"
  by (cases "map_find uid (cmd_map s)")
    (auto simp: user_at_def deref_user_def server_inv_def user_heap_ok_def
      dest: map_find_vals split: option.splits)

lemma cmd_lookup_frame:
  "server_inv s \<Longrightarrow> m = cmd_map s \<Longrightarrow> ensures no_uaf (\<lambda>(a, u). map_find uid (cmd_map s) = Some a \<and>
     users s a = Some u \<and>
     (a \<in> set (m_user (userListToIO s)) \<union> vals (io_map s) \<longrightarrow> \<not> deleteFlag2 u))
   (user_at m uid s)"
  using cmd_lookup by simp

named_theorems no_uaf_intros \<open>operations on blocks never use a deleted object\<close>

lemma no_uaf_bytes [no_uaf_intros]:
  "ensures no_uaf (\<lambda>_. True) (c_memcpy off src dst n)"
  "ensures no_uaf (\<lambda>_. True) (c_strcpy o' str b)"
  "ensures no_uaf (\<lambda>_. True) (rd32 o' b)"
  "ensures no_uaf (\<lambda>_. True) (wr32 o' w b)"
  "ensures no_uaf (\<lambda>_. True) (rd64 o' b)"
  "ensures no_uaf (\<lambda>_. True) (wr64 o' v b)"
  "ensures no_uaf (\<lambda>_. True) (packPop l)"
  by (simp_all add: c_memcpy_def c_strcpy_def rd32_def wr32_def rd64_def wr64_def packPop_def
      split: list.split)

text \<open>A block operation in a sequence: its result is arbitrary.\<close>

lemmas no_uaf_seq = no_uaf_bytes [THEN ensures_rbind]

section \<open>The login thread\<close>

lemma safe_deleteOneUnloginUser:
  "server_inv s \<Longrightarrow> ensures no_uaf server_inv (deleteOneUnloginUser fd s)"
  unfolding deleteOneUnloginUser_def
proof (rule ensures_rbind [OF acc_lookup], assumption)
  fix x :: "nat \<times> cunloginuser"
  assume s: "server_inv s" and x: "case x of (a, u) \<Rightarrow> map_find fd (acc_loginMap s) = Some a \<and>
    unlogins s a = Some u \<and> a \<in> vals (acc_loginMap s) \<and> \<not> loginReturnFlag u"
  obtain a u where xu: "x = (a, u)" by (cases x)
  let ?t = "put_unlogin a (u\<lparr>ul_deleteFlag1 := True, ul_deleteFlag2 := True\<rparr>) s"
  have "server_inv (?t\<lparr>acc_epoll := map_del fd (acc_epoll ?t)\<rparr>)"
    using s x xu by (auto intro!: inv_put_unlogin)
  from inv_acc_del [OF this, of fd] show "ensures no_uaf server_inv (case x of (a, u) \<Rightarrow>
       let s = put_unlogin a (u\<lparr>ul_deleteFlag1 := True, ul_deleteFlag2 := True\<rparr>) s in
       Inr (s\<lparr>acc_epoll := map_del fd (acc_epoll s), acc_loginMap := map_del fd (acc_loginMap s)\<rparr>))"
    using xu by (simp add: Let_def)
qed

lemma safe_timeoutFunc: "server_inv s \<Longrightarrow> ensures no_uaf server_inv (timeoutFunc fd now s)"
  unfolding timeoutFunc_def
  by (rule ensures_rbind [OF acc_lookup])
    (auto simp: Let_def intro!: no_uaf_seq safe_deleteOneUnloginUser inv_put_unlogin)

lemma safe_accept_head:
  "server_inv s \<Longrightarrow> ensures no_uaf (\<lambda>(s, skip). server_inv s) (accept_head fd s)"
  unfolding accept_head_def
  by (rule ensures_rbind [OF acc_lookup])
    (auto simp: Let_def split: prod.split
      intro!: no_uaf_seq ensures_rbind [OF safe_deleteOneUnloginUser] inv_put_unlogin)

lemma safe_accept_body: "server_inv s \<Longrightarrow> ensures no_uaf server_inv (accept_body fd s)"
  unfolding accept_body_def
  by (rule ensures_rbind [OF acc_lookup])
    (auto simp: Let_def split: prod.split
      intro!: no_uaf_seq safe_deleteOneUnloginUser inv_put_unlogin)

lemma safe_accept_read: "server_inv s \<Longrightarrow> ensures no_uaf server_inv (accept_read fd s)"
  unfolding accept_read_def
  by (rule ensures_rbind [OF acc_lookup])
    (auto intro!: ensures_rbind [where P = "\<lambda>(s, skip). server_inv s"]
      safe_accept_head safe_accept_body ensures_rbind [OF acc_lookup])

lemma safe_accept_in: "server_inv s \<Longrightarrow> ensures no_uaf server_inv (accept_in fd now s)"
proof -
  assume s: "server_inv s"
  let ?s = "s\<lparr>m_connfd := fd\<rparr>"
  have first: "ensures no_uaf server_inv
      (if k_fionread (sock_rx ?s fd) = 0 then deleteOneUnloginUser fd ?s else Inr ?s)"
    using s by (auto intro!: safe_deleteOneUnloginUser)
  have enter: "ensures no_uaf (\<lambda>_. True) (if header_size \<le> k_fionread (sock_rx ?s fd) then Inr True
      else rbind (unlogin_at (acc_loginMap t) fd t) (\<lambda>(_, u). Inr (\<not> recvHeadFlag u)))"
    if "server_inv t" for t
    using that by (auto intro!: ensures_rbind [OF acc_lookup])
  have last: "ensures no_uaf server_inv (if e then accept_read fd t else timeoutFunc fd now t)"
    if "server_inv t" for e t
    using that by (simp add: safe_accept_read safe_timeoutFunc)
  show ?thesis
    unfolding accept_in_def Let_def
    using s ensures_rbind [OF first ensures_rbind [OF enter last]] by simp
qed

lemma inv_return:
  assumes s: "server_inv s" and f: "map_find fd (acc_loginMap s) = Some a"
  shows "server_inv ((put_unlogin a u s)\<lparr>acc_loginMap := map_del fd (acc_loginMap s)\<rparr>)"
proof -
  have eq: "(put_unlogin a u s)\<lparr>acc_loginMap := map_del fd (acc_loginMap s)\<rparr>
      = put_unlogin a u (s\<lparr>acc_loginMap := map_del fd (acc_loginMap s)\<rparr>)"
    by (simp add: put_unlogin_def)
  have "distinct (map snd (acc_loginMap s))"
    using s by (simp add: server_inv_def login_heap_ok_def)
  from vals_map_del_found [OF this f] inv_acc_del [OF s, of fd] show ?thesis
    unfolding eq by (auto intro!: inv_put_unlogin)
qed

lemma put_unlogin_twice [simp]: "put_unlogin a u (put_unlogin a v s) = put_unlogin a u s"
  by (simp add: put_unlogin_def)

lemma put_unlogin_frame [simp]:
  "acc_loginMap (put_unlogin a u s) = acc_loginMap s" "acc_epoll (put_unlogin a u s) = acc_epoll s"
  "acc_userId (put_unlogin a u s) = acc_userId s" "cmd_loginMap (put_unlogin a u s) = cmd_loginMap s"
  "fresh (put_unlogin a u s) = fresh s" "users (put_unlogin a u s) = users s"
  "vcdLoginList (put_unlogin a u s) = vcdLoginList s" "sock_rx (put_unlogin a u s) = sock_rx s"
  "outbox (put_unlogin a u s) = outbox s" "cmd_map (put_unlogin a u s) = cmd_map s"
  "userListToIO (put_unlogin a u s) = userListToIO s" "m_connfd (put_unlogin a u s) = m_connfd s"
  "unlogins (put_unlogin a u s) = (unlogins s)(a := Some u)"
  "(put_unlogin a u s)\<lparr>acc_userId := i\<rparr> = put_unlogin a u (s\<lparr>acc_userId := i\<rparr>)"
  "(put_unlogin a u s)\<lparr>acc_epoll := e\<rparr> = put_unlogin a u (s\<lparr>acc_epoll := e\<rparr>)"
  by (simp_all add: put_unlogin_def)

lemma safe_accept_out: "server_inv s \<Longrightarrow> ensures no_uaf server_inv (accept_out fd nread s)"
proof -
  assume s: "server_inv s"
  then have s': "server_inv (s\<lparr>m_connfd := fd\<rparr>)" by simp
  have ret: "server_inv ((put_unlogin a v t)\<lparr>acc_loginMap := map_del fd (acc_loginMap s)\<rparr>)"
    if "server_inv t" "acc_loginMap t = acc_loginMap s" "map_find fd (acc_loginMap s) = Some a" for t a v
    using inv_return [OF that(1), of fd a v] that by simp
  show ?thesis
    unfolding accept_out_def Let_def
    by (rule ensures_rbind [OF acc_lookup [OF s']])
      (auto simp: s intro!: safe_deleteOneUnloginUser inv_put_unlogin ret)
qed

lemma safe_accept_arm: "server_inv s \<Longrightarrow> ensures no_uaf server_inv (accept_arm s)"
  unfolding accept_arm_def
proof (rule ensures_each_key)
  show "ensures no_uaf server_inv (rbind (unlogin_at (acc_loginMap t) fd t) (\<lambda>(_, u).
          Inr (if loginState u \<noteq> NOLOGIN
               then t\<lparr>acc_epoll := epoll_mod fd EPOLLOUT (acc_epoll t)\<rparr> else t)))"
    if "server_inv t" for fd t
    by (rule ensures_rbind [OF acc_lookup [OF that]]) (auto simp: that)
qed simp_all

text \<open>The address of a new object is one that no map and no list holds.\<close>

lemma fresh_login:
  "server_inv s \<Longrightarrow> fresh s \<notin> vals (acc_loginMap s) \<and>
     fresh s \<notin> set (m_unloginuser (vcdLoginList s)) \<and> fresh s \<notin> vals (cmd_loginMap s)"
  by (auto simp: server_inv_def login_heap_ok_def)

lemma fresh_user:
  "server_inv s \<Longrightarrow> fresh s \<notin> set (m_user (userListToIO s)) \<and> fresh s \<notin> vals (io_map s) \<and>
     fresh s \<notin> vals (cmd_map s)"
  by (auto simp: server_inv_def user_heap_ok_def)

lemma inv_new_unlogin:
  assumes s: "server_inv s" and u: "\<not> loginReturnFlag u"
  shows "server_inv (s\<lparr>unlogins := (unlogins s)(fresh s := Some u), fresh := fresh s + 1,
     vcdLoginList := unloginUserPush (fresh s) (vcdLoginList s),
     acc_loginMap := map_ins fd (fresh s) (acc_loginMap s)\<rparr>)"
proof -
  have fr: "fresh s \<notin> vals (acc_loginMap s)" "fresh s \<notin> set (m_unloginuser (vcdLoginList s))"
    "fresh s \<notin> vals (cmd_loginMap s)"
    using fresh_login [OF s] by simp_all
  have v: "a \<in> vals (map_ins fd (fresh s) (acc_loginMap s)) \<Longrightarrow> a = fresh s \<or> a \<in> vals (acc_loginMap s)" for a
    using vals_map_ins by fastforce
  from s have m: "maps_ok s" and l: "login_heap_ok s" and h: "user_heap_ok s"
    by (simp_all add: server_inv_def)
  have "login_heap_ok (s\<lparr>unlogins := (unlogins s)(fresh s := Some u), fresh := fresh s + 1,
     vcdLoginList := unloginUserPush (fresh s) (vcdLoginList s),
     acc_loginMap := map_ins fd (fresh s) (acc_loginMap s)\<rparr>)"
    using l fr u unfolding login_heap_ok_def
    by (auto simp: unloginUserPush_def set_map_snd less_Suc_eq intro!: distinct_map_ins dest!: v)
  with m h show ?thesis
    by (auto simp: server_inv_def maps_ok_def user_heap_ok_def map_laws intro!: less_SucI)
qed

lemma safe_accept_conn: "server_inv s \<Longrightarrow> server_inv (accept_conn fd now jrem jsend jrecv s)"
proof (cases "fd < 0")
  case False
  assume s: "server_inv s"
  let ?u = "(CUnloginuser fd (acc_userId s) jrem jsend jrecv)\<lparr>loginTime := now\<rparr>"
  let ?s = "s\<lparr>m_connfd := fd, acc_epoll := map_ins fd EPOLLIN (acc_epoll s)\<rparr>"
  have eq: "accept_conn fd now jrem jsend jrecv s =
    ?s\<lparr>unlogins := (unlogins ?s)(fresh ?s := Some ?u), fresh := fresh ?s + 1,
       vcdLoginList := unloginUserPush (fresh ?s) (vcdLoginList ?s),
       acc_loginMap := map_ins fd (fresh ?s) (acc_loginMap ?s)\<rparr>"
    using False by (simp add: accept_conn_def put_unlogin_def Let_def)
  show ?thesis unfolding eq
    by (rule inv_new_unlogin) (simp_all add: s CUnloginuser_def)
qed (simp add: accept_conn_def)

section \<open>The I/O threads\<close>

lemma safe_deleteloginUser: "server_inv s \<Longrightarrow> ensures no_uaf server_inv (deleteloginUser fd s)"
proof -
  assume s: "server_inv s"
  let ?s = "s\<lparr>io_epoll := map_del fd (io_epoll s)\<rparr>"
  have s': "server_inv ?s" using s by simp
  have del: "server_inv ((put_user a v ?s)\<lparr>io_map := map_del fd (io_map ?s)\<rparr>)"
    if f: "map_find fd (io_map ?s) = Some a" for a v
  proof -
    have eq: "(put_user a v ?s)\<lparr>io_map := map_del fd (io_map ?s)\<rparr>
        = put_user a v (?s\<lparr>io_map := map_del fd (io_map ?s)\<rparr>)"
      by (simp add: put_user_def)
    have d: "distinct (m_user (userListToIO s) @ map snd (io_map s))"
      using s by (simp add: server_inv_def user_heap_ok_def)
    then have "a \<notin> set (m_user (userListToIO s))" "a \<notin> vals (map_del fd (io_map s))"
      using map_find_vals [of fd "io_map s" a] vals_map_del_found [of "io_map s" fd a] f
      by (auto simp: set_map_snd)
    then show ?thesis
      unfolding eq using inv_io_del [OF s', of fd] by (auto intro!: inv_put_user)
  qed
  show ?thesis
    unfolding deleteloginUser_def Let_def
    by (rule ensures_rbind [OF io_lookup [OF s']]) (use del in auto)
qed

lemma no_uaf_recv_step [no_uaf_intros]: "ensures no_uaf (\<lambda>_. True) (recv_step junk r rx eof)"
proof -
  have head: "ensures no_uaf (\<lambda>_. True) (recv_head junk r rx eof)" for r rx
    by (auto simp: recv_head_def split: prod.split intro!: no_uaf_seq)
  have body: "ensures no_uaf (\<lambda>_. True) (recv_body r rx eof)" for r rx
    by (auto simp: recv_body_def recv_block_def Let_def
        split: prod.split option.split intro!: no_uaf_seq)
  show ?thesis
    unfolding recv_step_def
    by (auto intro!: ensures_rbind [OF head] ensures_rbind [OF body])
qed

lemma no_uaf_startSend [no_uaf_intros]: "ensures no_uaf (\<lambda>_. True) (startSend n c)"
  by (auto simp: startSend_def intro!: no_uaf_seq)

lemma safe_epollRead: "server_inv s \<Longrightarrow> ensures no_uaf server_inv (epollRead fd junk s)"
proof -
  assume s: "server_inv s"
  show ?thesis
    unfolding epollRead_def Let_def
    by (auto simp: s intro!: safe_deleteloginUser ensures_rbind [OF io_lookup]
        no_uaf_recv_step [THEN ensures_rbind] inv_put_user)
qed

lemma safe_io_out: "server_inv s \<Longrightarrow> ensures no_uaf server_inv (io_out fd nread s)"
proof -
  assume s: "server_inv s"
  have fin: "ensures no_uaf server_inv (rbind (if b then deleteloginUser fd t else Inr t)
      (\<lambda>s. Inr (s\<lparr>io_epoll := epoll_mod fd EPOLLIN (io_epoll s)\<rparr>)))" if "server_inv t" for t b
    by (rule ensures_rbind [where P = server_inv]) (use that safe_deleteloginUser in auto)
  show ?thesis
    unfolding io_out_def Let_def
    by (auto simp: s intro!: ensures_rbind [OF io_lookup] no_uaf_startSend [THEN ensures_rbind]
        fin inv_put_user)
qed

lemma safe_io_visit: "server_inv s \<Longrightarrow> ensures no_uaf server_inv (io_visit fd s)"
  unfolding io_visit_def Let_def
  by (rule ensures_rbind [OF io_lookup]) (auto intro!: safe_deleteloginUser)

lemma safe_io_arm: "server_inv s \<Longrightarrow> ensures no_uaf server_inv (io_arm resume s)"
  unfolding io_arm_def by (rule ensures_each_key) (auto intro: safe_io_visit)

lemma safe_io_take: "server_inv s \<Longrightarrow> ensures no_uaf server_inv (io_take s)"
proof (cases "getSize (userListToIO s) > 0")
  case True
  assume s: "server_inv s"
  show ?thesis
  proof (cases "m_user (userListToIO s)")
    case Nil
    then show ?thesis by (simp add: io_take_def vcdPop_def s)
  next
    case (Cons a us)
    let ?l = "(userListToIO s)\<lparr>m_user := us, m_count := m_count (userListToIO s) - 1\<rparr>"
    from s Cons obtain u where u: "users s a = Some u"
      by (auto simp: server_inv_def user_heap_ok_def)
    have v: "b \<in> vals (map_ins k a (io_map s)) \<Longrightarrow> b = a \<or> b \<in> vals (io_map s)" for b k
      using vals_map_ins by fastforce
    have "user_heap_ok (s\<lparr>userListToIO := ?l, io_map := map_ins k a (io_map s), io_epoll := e\<rparr>)" for k e
      using s Cons unfolding server_inv_def user_heap_ok_def
      by (auto simp: set_map_snd intro!: distinct_map_ins dest!: v)
    then have "server_inv (s\<lparr>userListToIO := ?l, io_map := map_ins k a (io_map s), io_epoll := e\<rparr>)" for k e
      using s by (auto simp: server_inv_def maps_ok_def login_heap_ok_def map_laws)
    then show ?thesis
      using True Cons u by (simp add: io_take_def vcdPop_def deref_user_def)
  qed
qed (simp add: io_take_def)

lemma io_handle_safe: "server_inv s \<Longrightarrow> ensures no_uaf server_inv (io_handle ev s)"
  by (cases ev) (simp_all add: safe_epollRead safe_io_out)

lemma acc_handle_safe: "server_inv s \<Longrightarrow> ensures no_uaf server_inv (acc_handle ev s)"
  by (cases ev) (simp_all add: safe_accept_conn safe_accept_in safe_accept_out)

section \<open>The command thread\<close>

lemma safe_send_to_user:
  assumes "server_inv s" and "\<And>c. ensures no_uaf (\<lambda>_. True) (f c)"
  shows "ensures no_uaf server_inv (send_to_user uid f s)"
  unfolding send_to_user_def
  by (rule ensures_rbind [OF cmd_lookup])
    (auto simp: assms(1) intro!: assms(2) [THEN ensures_rbind] inv_put_user)

lemma no_uaf_forward_copy [no_uaf_intros]: "ensures no_uaf (\<lambda>_. True) (forward_copy pack len k w c)"
  unfolding forward_copy_def m_copy_def set_copy_def rbind_assoc
  by (auto intro!: no_uaf_seq simp: rbind_assoc)

lemma safe_push_udp: "server_inv s \<Longrightarrow> ensures no_uaf server_inv (push_udp uid p s)"
  unfolding push_udp_def
  by (rule ensures_rbind [OF cmd_lookup]) (auto intro!: inv_put_user)

lemma safe_drop_addr: "server_inv s \<Longrightarrow> ensures no_uaf server_inv (drop_addr s)"
  unfolding drop_addr_def by (auto intro!: no_uaf_seq)

lemma safe_route_one: "server_inv s \<Longrightarrow> ensures no_uaf server_inv (route_one pack s)"
  unfolding route_one_def
  by (auto intro!: no_uaf_seq safe_send_to_user no_uaf_intros)

lemma safe_route_peer: "server_inv s \<Longrightarrow> ensures no_uaf server_inv (route_peer pack s)"
  unfolding route_peer_def
  by (auto intro!: no_uaf_seq safe_send_to_user no_uaf_intros)

lemma safe_route_others: "server_inv s \<Longrightarrow> ensures no_uaf server_inv (route_others pack s)"
  unfolding route_others_def
  by (auto intro!: no_uaf_seq ensures_each_key safe_send_to_user no_uaf_intros)

lemma safe_resend_one:
  "server_inv (ra_server ra) \<Longrightarrow>
   ensures no_uaf (\<lambda>ra. server_inv (ra_server ra)) (resend_one junk pack i ra)"
  unfolding resend_one_def
proof (intro no_uaf_seq)
  fix lost sender :: i32
  assume s: "server_inv (ra_server ra)"
  show "ensures no_uaf (\<lambda>ra. server_inv (ra_server ra))
      (case map_find (sint lost) (udpLoseMap (ra_server ra)) of
         Some kept \<Rightarrow>
           if length kept < block_size then Inl OutOfBounds
           else rbind (push_udp (sint sender) (take block_size kept) (ra_server ra)) (\<lambda>s.
                  Inr (ra\<lparr>ra_server := s\<rparr>))
       | None \<Rightarrow>
           rbind (if ra_num ra = 0 then wr32 16 sender junk else Inr (ra_report ra)) (\<lambda>rep.
             rbind (wr32 (24 + 4 * ra_num ra) lost rep) (\<lambda>rep.
               Inr (ra\<lparr>ra_report := rep, ra_num := ra_num ra + 1\<rparr>))))"
  proof (cases "map_find (sint lost) (udpLoseMap (ra_server ra))")
    case None
    with s show ?thesis by (auto intro!: no_uaf_seq)
  next
    case (Some kept)
    with s show ?thesis by (auto intro!: ensures_rbind [OF safe_push_udp])
  qed
qed

lemma safe_route_resend: "server_inv s \<Longrightarrow> ensures no_uaf server_inv (route_resend junk pack s)"
proof -
  assume s: "server_inv s"
  have loop: "ensures no_uaf (\<lambda>ra. server_inv (ra_server ra))
      (rfold (resend_one junk pack) is \<lparr>ra_num = 0, ra_report = junk, ra_server = t\<rparr>)"
    if "server_inv t" for t "is"
    by (rule ensures_rfold) (use that safe_resend_one in auto)
  show ?thesis
    unfolding route_resend_def
    by (auto intro!: ensures_rbind [OF safe_drop_addr [OF s]] no_uaf_seq ensures_rbind [OF loop]
        safe_push_udp)
qed

lemma safe_route_udpfile: "server_inv s \<Longrightarrow> ensures no_uaf server_inv (route_udpfile junk now pack s)"
proof -
  assume s: "server_inv s"
  have copy: "ensures no_uaf (\<lambda>_. True) (m_udpcopy junk pack len c)" for len c
    by (auto simp: m_udpcopy_def intro!: no_uaf_seq)
  have keep: "server_inv (t\<lparr>udpLoseMap := map_ins k p (udpLoseMap t)\<rparr>)" if "server_inv t" for t k p
    using that by (intro inv_udpLoseMap) (auto simp: server_inv_def maps_ok_def map_laws)
  show ?thesis
    unfolding route_udpfile_def
    by (auto simp: Let_def intro!: ensures_rbind [OF safe_drop_addr [OF s]] no_uaf_seq
        ensures_rbind [OF cmd_lookup] ensures_rbind [OF copy] keep inv_put_user)
qed

lemma safe_route_register: "server_inv s \<Longrightarrow> ensures no_uaf server_inv (route_register pack s)"
  unfolding route_register_def
  by (auto simp: Let_def intro!: no_uaf_seq ensures_rbind [OF cmd_lookup_frame] inv_put_user)

lemma safe_route_heartbeat: "server_inv s \<Longrightarrow> ensures no_uaf server_inv (route_heartbeat now pack s)"
  unfolding route_heartbeat_def
  by (auto intro!: no_uaf_seq ensures_rbind [OF cmd_lookup] inv_put_user)

lemmas safe_routes = safe_route_one safe_route_peer safe_route_others safe_route_resend
  safe_route_udpfile safe_route_register safe_route_heartbeat

lemma safe_setWriteSocketFdFlag:
  "server_inv s \<Longrightarrow> ensures no_uaf server_inv (setWriteSocketFdFlag junk now pack s)"
  unfolding setWriteSocketFdFlag_def
  by (auto intro!: no_uaf_seq safe_routes split: option.split cmdId.split)

lemma safe_cmd_route: "server_inv s \<Longrightarrow> ensures no_uaf (\<lambda>(s, p). server_inv s) (cmd_route junk now s)"
  unfolding cmd_route_def
  by (auto intro!: no_uaf_seq ensures_rbind [OF safe_setWriteSocketFdFlag])

lemma safe_cmd_expire: "server_inv s \<Longrightarrow> ensures no_uaf server_inv (cmd_expire resume now s)"
proof -
  assume s: "server_inv s"
  have one: "ensures no_uaf server_inv (expire_one now k t)" if "server_inv t" for k t
  proof -
    have "server_inv (t\<lparr>udpLoseMap := map_del k (udpLoseMap t)\<rparr>)"
      using that by (intro inv_udpLoseMap) (auto simp: server_inv_def maps_ok_def map_laws)
    then show ?thesis
      using that by (auto simp: expire_one_def intro!: no_uaf_seq split: option.split)
  qed
  show ?thesis
    unfolding cmd_expire_def using s by (auto intro!: ensures_each_key one)
qed

lemma safe_cmd_take: "server_inv s \<Longrightarrow> ensures no_uaf server_inv (cmd_take s)"
proof (cases "getUnloginSize (vcdLoginList s) > 0")
  case True
  assume s: "server_inv s"
  show ?thesis
  proof (cases "m_unloginuser (vcdLoginList s)")
    case Nil
    then show ?thesis by (simp add: cmd_take_def unloginUserPop_def s)
  next
    case (Cons a us)
    let ?l = "(vcdLoginList s)\<lparr>m_unloginuser := us, m_unLoginCount := m_unLoginCount (vcdLoginList s) - 1\<rparr>"
    from s Cons obtain u where u: "unlogins s a = Some u"
      by (auto simp: server_inv_def login_heap_ok_def)
    have v: "b \<in> vals (map_ins k a (cmd_loginMap s)) \<Longrightarrow> b = a \<or> b \<in> vals (cmd_loginMap s)" for b k
      using vals_map_ins by fastforce
    have "login_heap_ok (s\<lparr>vcdLoginList := ?l, cmd_loginMap := map_ins k a (cmd_loginMap s)\<rparr>)" for k
      using s Cons unfolding server_inv_def login_heap_ok_def
      by (auto simp: set_map_snd intro!: distinct_map_ins dest!: v)
    then have "server_inv (s\<lparr>vcdLoginList := ?l, cmd_loginMap := map_ins k a (cmd_loginMap s)\<rparr>)" for k
      using s by (auto simp: server_inv_def maps_ok_def user_heap_ok_def map_laws)
    then show ?thesis
      using True Cons u by (simp add: cmd_take_def unloginUserPop_def deref_unlogin_def)
  qed
qed (simp add: cmd_take_def)

text \<open>
  A user is deleted only when the I/O thread has marked it, so no list and no map of that thread
  holds it.
\<close>

lemma safe_sweep_one: "server_inv s \<Longrightarrow> ensures no_uaf server_inv (sweep_one uid s)"
proof -
  assume s: "server_inv s"
  have del: "server_inv (s\<lparr>closed := c, users := (users s)(a := None), cmd_map := map_del uid (cmd_map s)\<rparr>)"
    if f: "map_find uid (cmd_map s) = Some a"
      and a: "a \<notin> set (m_user (userListToIO s))" "a \<notin> vals (io_map s)" for a c
  proof -
    have d: "distinct (map snd (cmd_map s))" using s by (simp add: server_inv_def user_heap_ok_def)
    from vals_map_del_found [OF d f] have n: "a \<notin> vals (map_del uid (cmd_map s))" .
    have v: "b \<in> vals (map_del uid (cmd_map s)) \<Longrightarrow> b \<in> vals (cmd_map s)" for b
      using vals_map_del by fastforce
    have "user_heap_ok (s\<lparr>closed := c, users := (users s)(a := None), cmd_map := map_del uid (cmd_map s)\<rparr>)"
      using s a n unfolding server_inv_def user_heap_ok_def
      by (auto intro!: distinct_map_del dest: v)
    then show ?thesis
      using s by (auto simp: server_inv_def maps_ok_def login_heap_ok_def map_laws)
  qed
  show ?thesis
    unfolding sweep_one_def
    by (rule ensures_rbind [OF cmd_lookup [OF s]]) (use s del in auto)
qed

lemma safe_cmd_sweep: "server_inv s \<Longrightarrow> ensures no_uaf server_inv (cmd_sweep resume now s)"
  unfolding cmd_sweep_def
  by (auto intro!: ensures_rbind [OF ensures_each_key [OF safe_sweep_one]])

lemma authenticate_flags:
  "authenticate u = Inr v \<Longrightarrow> loginReturnFlag v = loginReturnFlag u \<and> ul_userId v = ul_userId u \<and>
     ul_deleteFlag1 v = ul_deleteFlag1 u \<and> ul_deleteFlag2 v = ul_deleteFlag2 u"
  by (auto simp: authenticate_def Let_def res_simps split: if_splits)

lemma no_uaf_authenticate:
  "ensures no_uaf (\<lambda>v. loginReturnFlag v = loginReturnFlag u) (authenticate u)"
  using authenticate_flags [of u]
  by (cases "authenticate u")
    (auto simp: authenticate_def Let_def c_strcpy_def wr32_def split: if_splits)

lemma inv_new_user:
  assumes s: "server_inv s" and v: "\<not> deleteFlag2 v"
  shows "server_inv (s\<lparr>users := (users s)(fresh s := Some v), fresh := fresh s + 1,
     cmd_map := map_ins k (fresh s) (cmd_map s), userListToIO := vcdPush (fresh s) (userListToIO s)\<rparr>)"
proof -
  have fr: "fresh s \<notin> set (m_user (userListToIO s))" "fresh s \<notin> vals (io_map s)"
    "fresh s \<notin> vals (cmd_map s)"
    using fresh_user [OF s] by simp_all
  have vi: "a \<in> vals (map_ins k (fresh s) (cmd_map s)) \<Longrightarrow> a = fresh s \<or> a \<in> vals (cmd_map s)" for a
    using vals_map_ins by fastforce
  have "user_heap_ok (s\<lparr>users := (users s)(fresh s := Some v), fresh := fresh s + 1,
     cmd_map := map_ins k (fresh s) (cmd_map s), userListToIO := vcdPush (fresh s) (userListToIO s)\<rparr>)"
    using s fr v unfolding server_inv_def user_heap_ok_def
    by (auto simp: vcdPush_def set_map_snd less_Suc_eq intro!: distinct_map_ins dest: vi)
  then show ?thesis
    using s by (auto simp: server_inv_def maps_ok_def login_heap_ok_def map_laws intro!: less_SucI)
qed

lemma inv_free_unlogin:
  assumes s: "server_inv s" and f: "map_find fd (cmd_loginMap s) = Some a" and a: "a \<notin> vals (acc_loginMap s)"
  shows "server_inv (s\<lparr>unlogins := (unlogins s)(a := None), cmd_loginMap := map_del fd (cmd_loginMap s)\<rparr>)"
proof -
  have d: "distinct (m_unloginuser (vcdLoginList s) @ map snd (cmd_loginMap s))"
    using s by (simp add: server_inv_def login_heap_ok_def)
  then have n: "a \<notin> vals (map_del fd (cmd_loginMap s))" "a \<notin> set (m_unloginuser (vcdLoginList s))"
    using vals_map_del_found [OF _ f] map_find_vals [OF f] by (auto simp: set_map_snd)
  have v: "b \<in> vals (map_del fd (cmd_loginMap s)) \<Longrightarrow> b \<in> vals (cmd_loginMap s)" for b
    using vals_map_del by fastforce
  have "login_heap_ok (s\<lparr>unlogins := (unlogins s)(a := None), cmd_loginMap := map_del fd (cmd_loginMap s)\<rparr>)"
    using s a n unfolding server_inv_def login_heap_ok_def
    by (auto simp: set_map_snd intro!: distinct_map_del dest: v)
  then show ?thesis
    using s by (auto simp: server_inv_def maps_ok_def user_heap_ok_def map_laws)
qed

lemma safe_login_one: "server_inv s \<Longrightarrow> ensures no_uaf server_inv (login_one now jcount jsend fd s)"
proof -
  assume s: "server_inv s"
  have fin: "ensures no_uaf server_inv
     (let t = put_unlogin a u s in
         if ul_deleteFlag1 u \<and> ul_deleteFlag2 u then Inl NullDeref
         else if loginReturnFlag u
         then let t = (if loginState u = LOGINSUCCESS
                  then let b = fresh t;
                           v = setUserId (ul_userId u) (setSocket fd (CUser now jcount jsend))
                       in (put_user b v t)\<lparr>fresh := b + 1,
                            cmd_map := map_ins (ul_userId u) b (cmd_map t),
                            userListToIO := vcdPush b (userListToIO t)\<rparr>
                  else t)
              in Inr (t\<lparr>unlogins := (unlogins t)(a := None),
                       cmd_loginMap := map_del fd (cmd_loginMap t)\<rparr>)
         else Inr t)"
    if f: "map_find fd (cmd_loginMap s) = Some a" and u0: "unlogins s a = Some u0"
      and u: "loginReturnFlag u = loginReturnFlag u0" for a u0 u
  proof -
    have n: "loginReturnFlag u \<Longrightarrow> a \<notin> vals (acc_loginMap s)"
      using s u0 u by (auto simp: server_inv_def login_heap_ok_def)
    have put: "server_inv (put_unlogin a u s)"
      using s n u0 by (auto intro!: inv_put_unlogin)
    let ?v = "setUserId (ul_userId u) (setSocket fd (CUser now jcount jsend))"
    have v: "\<not> deleteFlag2 ?v" by (simp add: setUserId_def setSocket_def CUser_def)
    have gone: "server_inv (t\<lparr>unlogins := (unlogins t)(a := None),
        cmd_loginMap := map_del fd (cmd_loginMap t)\<rparr>)"
      if "server_inv t" "cmd_loginMap t = cmd_loginMap s" "acc_loginMap t = acc_loginMap s"
        "loginReturnFlag u" for t
      using inv_free_unlogin [OF that(1), of fd a] that f n by simp
    have new: "server_inv ((put_user (fresh t) ?v t)\<lparr>fresh := fresh t + 1,
        cmd_map := map_ins (ul_userId u) (fresh t) (cmd_map t),
        userListToIO := vcdPush (fresh t) (userListToIO t)\<rparr>)" if "server_inv t" for t
      using inv_new_user [OF that v, of "ul_userId u"] by (simp add: put_user_def)
    have gone_new: "loginReturnFlag u \<Longrightarrow> server_inv ((((put_user (fresh t) ?v t)\<lparr>fresh := fresh t + 1,
        cmd_map := map_ins (ul_userId u) (fresh t) (cmd_map t),
        userListToIO := vcdPush (fresh t) (userListToIO t)\<rparr>))\<lparr>unlogins := (unlogins t)(a := None),
        cmd_loginMap := map_del fd (cmd_loginMap s)\<rparr>)" if t: "t = put_unlogin a u s" for t
      using gone [OF new [of t]] put t by (simp add: put_user_def)
    show ?thesis
      using gone_new [OF refl] gone [OF put] put
      by (auto simp: Let_def put_user_def)
  qed
  show ?thesis
    unfolding login_one_def
    by (rule ensures_rbind [OF login_lookup [OF s]])
      (use fin in \<open>auto intro!: ensures_rbind [OF no_uaf_authenticate]\<close>)
qed

lemma safe_cmd_logins: "server_inv s \<Longrightarrow> ensures no_uaf server_inv (cmd_logins resume now jcount jsend s)"
  unfolding cmd_logins_def by (rule ensures_each_key) (auto intro: safe_login_one)

section \<open>Every reachable state\<close>

lemma inv_init: "server_inv (server_init jpack jlogin juser now)"
  by (simp add: server_init_def server_inv_def maps_ok_def login_heap_ok_def user_heap_ok_def
      CUserList_def vals_def)

lemma safe_step: "server_step resume s m \<Longrightarrow> server_inv s \<Longrightarrow> ensures no_uaf server_inv m"
proof (induction rule: server_step.induct)
  case (cmd_step_route junk n s now)
  then show ?case by (auto intro!: ensures_rbind [OF safe_cmd_route])
qed (simp_all add: udp_push_pack_def udp_push_addr_def safe_accept_arm safe_io_take safe_io_arm
    acc_handle_safe io_handle_safe safe_cmd_expire safe_cmd_take safe_cmd_sweep safe_cmd_logins
    del: acc_handle.simps io_handle.simps)

lemma reach_inv: "server_reach resume s \<Longrightarrow> server_inv s"
proof (induction rule: server_reach.induct)
  case start
  show ?case by (rule inv_init)
next
  case (step s s')
  from safe_step [OF step.hyps(2) step.IH] show ?case by simp
qed

text \<open>In a reachable state the list of users can always be printed, a line for each.\<close>

lemma printAllLoginUser_lines:
  assumes "server_inv s"
  shows "\<exists>ls. printAllLoginUser s = Inr ls \<and> length ls = length (cmd_map s)"
proof -
  have line: "\<exists>l. user_line k s out = Inr (out @ [l])" if k: "k \<in> set (keys (cmd_map s))" for k out
  proof -
    have "map_ok (cmd_map s)" using assms by (simp add: server_inv_def maps_ok_def)
    with k obtain a where a: "map_find k (cmd_map s) = Some a"
      by (metis map_find_eq_None_iff not_None_eq)
    then have "users s a \<noteq> None"
      using assms map_find_vals [OF a] by (auto simp: server_inv_def user_heap_ok_def)
    with a show ?thesis
      by (auto simp: user_line_def user_at_def map_at_def deref_user_def)
  qed
  have "set ks \<subseteq> set (keys (cmd_map s)) \<Longrightarrow>
      \<exists>ls. rfold (\<lambda>uid. user_line uid s) ks out = Inr (out @ ls) \<and> length ls = length ks" for ks out
  proof (induction ks arbitrary: out)
    case (Cons k ks)
    then have "k \<in> set (keys (cmd_map s))" by simp
    from line [OF this] obtain l where l: "user_line k s out = Inr (out @ [l])" by blast
    obtain ls where "rfold (\<lambda>uid. user_line uid s) ks (out @ [l]) = Inr ((out @ [l]) @ ls)" "length ls = length ks"
      using Cons.IH [of "out @ [l]"] Cons.prems by auto
    then show ?case by (intro exI [of _ "l # ls"]) (simp add: l)
  qed simp
  from this [of "keys (cmd_map s)" "[]"] show ?thesis by (simp add: printAllLoginUser_def)
qed

end
