(* ===== verification/RouterSpec.thy ===== *)
theory RouterSpec
  imports ServerSystem
begin

text \<open>
  What the router promises: each user has a stream of bytes still to be sent, and routing a packet
  appends the packet, with the sender's id in place of the receiver's, to the streams of its
  receivers. \<open>deliver\<close> is that specification on streams; \<open>streams\<close> is the abstraction of a server
  state.
\<close>

section \<open>The specification\<close>

definition pk_user :: "block \<Rightarrow> i32" where
  "pk_user p = bytes_i32 (cells 4 4 p)"

definition pk_peer :: "block \<Rightarrow> i32" where
  "pk_peer p = bytes_i32 (cells 16 4 p)"

definition pk_cmd :: "block \<Rightarrow> cmdId option" where
  "pk_cmd p = cmd_of (sint (bytes_i32 (cells 0 4 p)))"

type_synonym streams = "int \<Rightarrow> block option"

definition streams :: "server \<Rightarrow> streams" where
  "streams s uid =
     Option.bind (map_find uid (cmd_map s)) (\<lambda>a. map_option (\<lambda>u. pending (m_send u)) (users s a))"

text \<open>The packet as its receivers get it.\<close>

definition stamped :: "block \<Rightarrow> block" where
  "stamped p = blit 16 (i32_bytes (pk_user p)) (payload p)"

definition heartbeat_of :: "block \<Rightarrow> block" where
  "heartbeat_of p = blit 0 (i32_bytes (word_of_int (cmd_num HEARTBEAT))) (payload p)"

definition to_peer :: "block \<Rightarrow> block \<Rightarrow> streams \<Rightarrow> streams" where
  "to_peer p out \<sigma> = \<sigma>(sint (pk_peer p) := map_option (\<lambda>b. b @ out) (\<sigma> (sint (pk_peer p))))"

definition deliver :: "block \<Rightarrow> streams \<Rightarrow> streams" where
  "deliver p \<sigma> =
     (case pk_cmd p of
        Some SENDtoONE \<Rightarrow> to_peer p (if sint (pk_user p) = 0 then heartbeat_of p else stamped p) \<sigma>
      | Some SENDtoOTHERS \<Rightarrow> (\<lambda>i. map_option (\<lambda>b. b @ stamped p) (\<sigma> i))
      | Some SENDFILENAME \<Rightarrow> to_peer p (stamped p) \<sigma>
      | Some FILERET \<Rightarrow> to_peer p (stamped p) \<sigma>
      | Some SENDFILE \<Rightarrow> to_peer p (stamped p) \<sigma>
      | _ \<Rightarrow> \<sigma>)"

text \<open>Every user can take \<open>n\<close> more bytes.\<close>

definition has_room :: "int \<Rightarrow> server \<Rightarrow> bool" where
  "has_room n s \<longleftrightarrow> (\<forall>a \<in> vals (cmd_map s). \<forall>u. users s a = Some u \<longrightarrow>
     send_ok (m_send u) \<and> m_position (m_send u) + n \<le> int send_cap)"

section \<open>The copy for one receiver\<close>

lemma take_blit_blit:
  assumes "p + length xs \<le> length b" "f + length ws \<le> length xs"
  shows "take (p + length xs) (blit (p + f) ws (blit p xs b)) = take p b @ blit f ws xs"
proof -
  have "blit (p + f) ws (blit p xs b) = take p b @ blit f ws xs @ drop (p + length xs) b"
    using assms by (simp add: blit_def min_absorb1 min_absorb2)
  then show ?thesis using assms by simp
qed

lemma forward_copy_effect:
  assumes c: "send_ok c" and len: "0 \<le> len" "len \<le> int (length pack)" "m_position c + len \<le> int send_cap"
    and f: "0 \<le> f" "f + 4 \<le> len"
  shows "\<exists>c'. forward_copy pack len f w c = Inr c' \<and> send_ok c' \<and>
     pending c' = pending c @ blit (nat f) (i32_bytes w) (take (nat len) pack) \<and>
     m_position c' = m_position c + len"
proof -
  define p n k where "p = nat (m_position c)" and "n = nat len" and "k = nat f"
  have eqs: "m_position c = int p" "len = int n" "f = int k"
    using assms by (auto simp: p_def n_def k_def send_ok_def)
  let ?b = "blit p (take n pack) (m_sendBuff c)"
  have lb: "length (m_sendBuff c) = send_cap" using c by (simp add: send_ok_def)
  have nb: "n \<le> length pack" "p + n \<le> send_cap" "k + 4 \<le> n" using assms(2-6) eqs by simp_all
  have cp: "m_copy pack (int n) c = Inr (int p, c\<lparr>m_sendBuff := ?b\<rparr>)"
    using lb nb by (simp add: m_copy_def c_memcpy_def eqs)
  have ws: "set_copy (int p + int k) w (c\<lparr>m_sendBuff := ?b\<rparr>) =
      Inr (c\<lparr>m_sendBuff := blit (p + k) (i32_bytes w) ?b\<rparr>)"
    using lb nb by (simp add: set_copy_def eqs nat_add_distrib)
  have tk: "take (p + n) (blit (p + k) (i32_bytes w) ?b) =
      take p (m_sendBuff c) @ blit k (i32_bytes w) (take n pack)"
    using take_blit_blit [of p "take n pack" "m_sendBuff c" k "i32_bytes w"] lb nb
    by (simp add: min_absorb1 min_absorb2)
  show ?thesis
    using lb nb tk
    by (simp add: forward_copy_def cp ws setPosition_def send_ok_def pending_def eqs
        nat_add_distrib del: take_append)
qed

section \<open>The router keeps the promise\<close>

lemma map_find_inj:
  assumes "distinct (map snd m)" "map_find i m = Some a" "map_find j m = Some a"
  shows "i = j"
proof -
  from assms(2,3) have "(i, a) \<in> set m" "(j, a) \<in> set m" by (simp_all add: map_find_in_set)
  with assms(1) show ?thesis by (metis distinct_map inj_onD prod.inject snd_conv)
qed

lemma inv_user_alive:
  assumes "server_inv s" "map_find k (cmd_map s) = Some a"
  shows "\<exists>u. users s a = Some u"
  using assms(1) map_find_vals [OF assms(2)] by (auto simp: server_inv_def user_heap_ok_def)

lemma streams_put:
  assumes "server_inv s" "map_find uid (cmd_map s) = Some a"
  shows "streams (put_user a u s) = (streams s)(uid := Some (pending (m_send u)))"
proof
  fix i
  have d: "distinct (map snd (cmd_map s))"
    using assms(1) by (simp add: server_inv_def user_heap_ok_def)
  have "i = uid" if "map_find i (cmd_map s) = Some a"
    by (rule map_find_inj [OF d that assms(2)])
  then show "streams (put_user a u s) i = ((streams s)(uid := Some (pending (m_send u)))) i"
    using assms(2)
    by (cases "map_find i (cmd_map s)") (auto simp: streams_def put_user_def)
qed

lemma send_to_user_streams:
  assumes s: "server_inv s" "has_room len s" and uid: "streams s uid = Some b"
    and len: "0 \<le> len" "len \<le> int (length pack)" and f: "0 \<le> f" "f + 4 \<le> len"
  shows "\<exists>s'. send_to_user uid (forward_copy pack len f w) s = Inr s' \<and>
     streams s' = (streams s)(uid := Some (b @ blit (nat f) (i32_bytes w) (take (nat len) pack))) \<and>
     server_inv s' \<and> cmd_map s' = cmd_map s \<and>
     (\<forall>a. map_find uid (cmd_map s) \<noteq> Some a \<longrightarrow> users s' a = users s a)"
proof -
  from uid obtain a u where a: "map_find uid (cmd_map s) = Some a" "users s a = Some u"
    and b: "b = pending (m_send u)"
    by (auto simp: streams_def bind_eq_Some_conv)
  then have "send_ok (m_send u)" "m_position (m_send u) + len \<le> int send_cap"
    using s(2) map_find_vals [OF a(1)] by (auto simp: has_room_def)
  from forward_copy_effect [OF this(1) len this(2) f, of w] obtain c' where
    c': "forward_copy pack len f w (m_send u) = Inr c'"
      "pending c' = pending (m_send u) @ blit (nat f) (i32_bytes w) (take (nat len) pack)"
    by blast
  let ?s = "put_user a (u\<lparr>m_send := c'\<rparr>) s"
  have r: "send_to_user uid (forward_copy pack len f w) s = Inr ?s"
    using a c' by (simp add: send_to_user_def)
  have "ensures no_uaf server_inv (send_to_user uid (forward_copy pack len f w) s)"
    by (rule safe_send_to_user [OF s(1)]) (rule no_uaf_forward_copy)
  then have "server_inv ?s" by (simp add: r)
  then show ?thesis
    using r c' b streams_put [OF s(1) a(1), of "u\<lparr>m_send := c'\<rparr>"] a
    by (intro exI [of _ ?s]) (auto simp: put_user_def)
qed

lemma has_room_cong:
  "has_room n s \<Longrightarrow> cmd_map s' = cmd_map s \<Longrightarrow> users s' = users s \<Longrightarrow> has_room n s'"
  by (simp add: has_room_def)

text \<open>The loop over all users, for the keys still to come.\<close>

lemma broadcast_streams:
  assumes "server_inv s" "distinct ks" "set ks \<subseteq> set (keys (cmd_map s))"
    and room: "\<forall>k \<in> set ks. \<forall>a u. map_find k (cmd_map s) = Some a \<longrightarrow> users s a = Some u \<longrightarrow>
        send_ok (m_send u) \<and> m_position (m_send u) + len \<le> int send_cap"
    and len: "20 \<le> len" "len \<le> int (length pack)"
  shows "\<exists>s'. rfold (\<lambda>k s. rbind (send_to_user k (forward_copy pack len 16 w) s) (\<lambda>s'.
           if False \<or> k \<in> set (keys (cmd_map s')) then Inr s' else Inl DanglingIter)) ks s = Inr s' \<and>
     cmd_map s' = cmd_map s \<and> server_inv s' \<and>
     (\<forall>i. streams s' i = (if i \<in> set ks
        then map_option (\<lambda>b. b @ blit 16 (i32_bytes w) (take (nat len) pack)) (streams s i)
        else streams s i))"
  using assms(1-4)
proof (induction ks arbitrary: s)
  case Nil
  then show ?case by simp
next
  case (Cons k ks)
  from Cons.prems(3) obtain a where a: "map_find k (cmd_map s) = Some a"
    using map_find_eq_None_iff [of k "cmd_map s"] by (cases "map_find k (cmd_map s)") auto
  then obtain u where u: "users s a = Some u"
    using inv_user_alive [OF Cons.prems(1)] by blast
  have ok: "send_ok (m_send u)" "m_position (m_send u) + len \<le> int send_cap"
    using Cons.prems(4) a u by auto
  have len': "0 \<le> len" "(16::int) + 4 \<le> len" using len by simp_all
  from forward_copy_effect [OF ok(1) len'(1) len(2) ok(2) _ len'(2), of w] obtain c' where
    c': "forward_copy pack len 16 w (m_send u) = Inr c'"
      "pending c' = pending (m_send u) @ blit 16 (i32_bytes w) (take (nat len) pack)"
    by auto
  let ?s = "put_user a (u\<lparr>m_send := c'\<rparr>) s"
  have step: "send_to_user k (forward_copy pack len 16 w) s = Inr ?s"
    using a u c' by (simp add: send_to_user_def)
  have "ensures no_uaf server_inv (send_to_user k (forward_copy pack len 16 w) s)"
    by (rule safe_send_to_user [OF Cons.prems(1)]) (rule no_uaf_forward_copy)
  then have inv: "server_inv ?s" by (simp add: step)
  have cm: "cmd_map ?s = cmd_map s" by (simp add: put_user_def)
  have d: "distinct (map snd (cmd_map s))"
    using Cons.prems(1) by (simp add: server_inv_def user_heap_ok_def)
  have other: "j = k" if "map_find j (cmd_map s) = Some a" for j
    by (rule map_find_inj [OF d that a])
  have room': "\<forall>j \<in> set ks. \<forall>b v. map_find j (cmd_map ?s) = Some b \<longrightarrow> users ?s b = Some v \<longrightarrow>
        send_ok (m_send v) \<and> m_position (m_send v) + len \<le> int send_cap"
  proof (intro ballI allI impI)
    fix j b v
    assume j: "j \<in> set ks" "map_find j (cmd_map ?s) = Some b" "users ?s b = Some v"
    then have "b \<noteq> a" using other [of j] Cons.prems(2) cm by auto
    with j Cons.prems(4) show "send_ok (m_send v) \<and> m_position (m_send v) + len \<le> int send_cap"
      by (auto simp: put_user_def)
  qed
  have "distinct ks" "set ks \<subseteq> set (keys (cmd_map ?s))" using Cons.prems(2,3) cm by auto
  from Cons.IH [OF inv this room'] obtain s' where
    s': "rfold (\<lambda>k s. rbind (send_to_user k (forward_copy pack len 16 w) s) (\<lambda>s'.
           if False \<or> k \<in> set (keys (cmd_map s')) then Inr s' else Inl DanglingIter)) ks ?s = Inr s'"
      "cmd_map s' = cmd_map s" "server_inv s'"
      "\<forall>i. streams s' i = (if i \<in> set ks
        then map_option (\<lambda>b. b @ blit 16 (i32_bytes w) (take (nat len) pack)) (streams ?s i)
        else streams ?s i)"
    using cm by auto
  have k: "streams s k = Some (pending (m_send u))" using a u by (simp add: streams_def)
  have "k \<in> set (keys (cmd_map ?s))" using Cons.prems(3) cm by simp
  with s' step streams_put [OF Cons.prems(1) a, of "u\<lparr>m_send := c'\<rparr>"] Cons.prems(2) k c'
  show ?case by auto
qed

lemma deliver_peer:
  assumes "streams s (sint (pk_peer p)) = Some b"
  shows "to_peer p out (streams s) = (streams s)(sint (pk_peer p) := Some (b @ out))"
  by (simp add: to_peer_def assms)

lemma route_peer_delivers:
  assumes s: "server_inv s" "has_room (hdr_length p) s" and p: "20 \<le> hdr_length p"
    "hdr_length p \<le> int (length p)" and b: "streams s (sint (pk_peer p)) = Some b"
  shows "\<exists>s'. route_peer p s = Inr s' \<and> streams s' = to_peer p (stamped p) (streams s)"
proof -
  have l: "20 \<le> length p" "(16::int) + 4 \<le> hdr_length p" "0 \<le> hdr_length p" using p by simp_all
  from send_to_user_streams [OF s b l(3) p(2) _ l(2), of "pk_user p"] obtain s' where
    "send_to_user (sint (pk_peer p)) (forward_copy p (hdr_length p) 16 (pk_user p)) s = Inr s'"
    "streams s' = (streams s)(sint (pk_peer p) := Some (b @ stamped p))"
    by (auto simp: stamped_def payload_def)
  then show ?thesis
    using l by (simp add: route_peer_def deliver_peer [OF b] flip: pk_peer_def hdr_length_def pk_user_def)
qed

lemma route_one_delivers:
  assumes s: "server_inv s" "has_room (hdr_length p) s" and p: "20 \<le> hdr_length p"
    "hdr_length p \<le> int (length p)" and b: "streams s (sint (pk_peer p)) = Some b"
  shows "\<exists>s'. route_one p s = Inr s' \<and> streams s' =
    to_peer p (if sint (pk_user p) = 0 then heartbeat_of p else stamped p) (streams s)"
proof -
  have l: "20 \<le> length p" "(16::int) + 4 \<le> hdr_length p" "0 \<le> hdr_length p"
    "(0::int) + 4 \<le> hdr_length p" using p by simp_all
  have eq: "route_one p s = send_to_user (sint (pk_peer p))
      (if sint (pk_user p) = 0 then forward_copy p (hdr_length p) 0 (word_of_int (cmd_num HEARTBEAT))
       else forward_copy p (hdr_length p) 16 (pk_user p)) s"
    using l by (simp add: route_one_def flip: pk_peer_def hdr_length_def pk_user_def)
  show ?thesis
  proof (cases "sint (pk_user p) = 0")
    case True
    from send_to_user_streams [OF s b l(3) p(2) _ l(4), of "word_of_int (cmd_num HEARTBEAT)"] obtain s' where
      "send_to_user (sint (pk_peer p)) (forward_copy p (hdr_length p) 0 (word_of_int (cmd_num HEARTBEAT))) s = Inr s'"
      "streams s' = (streams s)(sint (pk_peer p) := Some (b @ heartbeat_of p))"
      by (auto simp: heartbeat_of_def payload_def)
    then show ?thesis using True by (simp add: eq deliver_peer [OF b])
  next
    case False
    from send_to_user_streams [OF s b l(3) p(2) _ l(2), of "pk_user p"] obtain s' where
      "send_to_user (sint (pk_peer p)) (forward_copy p (hdr_length p) 16 (pk_user p)) s = Inr s'"
      "streams s' = (streams s)(sint (pk_peer p) := Some (b @ stamped p))"
      by (auto simp: stamped_def payload_def)
    then show ?thesis using False by (simp add: eq deliver_peer [OF b])
  qed
qed

lemma route_others_delivers:
  assumes s: "server_inv s" "has_room (hdr_length p) s" and p: "20 \<le> hdr_length p"
    "hdr_length p \<le> int (length p)"
  shows "\<exists>s'. route_others p s = Inr s' \<and>
    streams s' = (\<lambda>i. map_option (\<lambda>b. b @ stamped p) (streams s i))"
proof -
  have l: "20 \<le> length p" using p by simp
  have d: "distinct (keys (cmd_map s))"
    using s(1) by (auto simp: server_inv_def maps_ok_def intro: map_ok_distinct)
  have room: "\<forall>k \<in> set (keys (cmd_map s)). \<forall>a u. map_find k (cmd_map s) = Some a \<longrightarrow>
      users s a = Some u \<longrightarrow> send_ok (m_send u) \<and> m_position (m_send u) + hdr_length p \<le> int send_cap"
    using s(2) map_find_vals by (fastforce simp: has_room_def)
  from broadcast_streams [OF s(1) d order_refl room p, of "pk_user p"] obtain s' where
    r: "rfold (\<lambda>k s. rbind (send_to_user k (forward_copy p (hdr_length p) 16 (pk_user p)) s) (\<lambda>s'.
           if False \<or> k \<in> set (keys (cmd_map s')) then Inr s' else Inl DanglingIter))
         (keys (cmd_map s)) s = Inr s'"
    and st: "\<forall>i. streams s' i = (if i \<in> set (keys (cmd_map s))
        then map_option (\<lambda>b. b @ blit 16 (i32_bytes (pk_user p)) (take (nat (hdr_length p)) p)) (streams s i)
        else streams s i)"
    by blast
  have none: "streams s i = None" if "i \<notin> set (keys (cmd_map s))" for i
    using that by (simp add: streams_def map_find_eq_None_iff [symmetric] del: set_map)
  have "streams s' i = map_option (\<lambda>b. b @ stamped p) (streams s i)" for i
    using st none [of i] by (auto simp: stamped_def payload_def)
  then show ?thesis
    using r l by (auto simp: route_others_def each_key_def simp flip: hdr_length_def pk_user_def)
qed

end
