(* ===== verification/TransportProps.thy ===== *)
theory TransportProps
  imports ServerSystem
begin

text \<open>
  Properties of what carries the packets: the hand-over lists, the send buffers and the receivers of
  the server.
\<close>

section \<open>The lists\<close>

text \<open>Any sequence of pushes and pops on a new packet list that does not pop an empty list takes
  the packets out in the order they were put in, none lost and none twice; the size the consumers test
  is the number of packets in the list plus whatever the counter held when the list was constructed
  (as a 32-bit number), so it is right exactly when that was 0.\<close>

theorem packlist_run:
  assumes "qrun packPush packPop ops (CList junk) = Inr (out, l)"
  shows "out @ m_package l = pushed ops \<and>
    getPackSize l = sint (junk + word_of_nat (length (m_package l)))"
  using clist.run_from_new [OF _ assms] by (simp add: CList_def)

lemma packlist_run_witness:
  "[1] @ [2, 3] = pushed [Push (1::nat), Push 2, Pop, Push 3] \<and>
   getPackSize \<lparr>m_packcount = 5 + 2, m_package = [2::nat, 3]\<rparr> = 7"
proof -
  have r: "qrun packPush packPop [Push (1::nat), Push 2, Pop, Push 3] (CList 5) =
    Inr ([1], \<lparr>m_packcount = 5 + 2, m_package = [2, 3]\<rparr>)"
    by (simp add: packPush_def packPop_def CList_def)
  from packlist_run [OF r] show ?thesis by simp
qed

text \<open>When the memory under the counter of the packet list held a positive number, the first pass
  of the command thread pops an empty list.\<close>

theorem first_pass_pops_empty:
  assumes "0 < sint jpack"
  shows "cmd_route junk now (server_init jpack jlogin juser t) = Inl PopEmpty"
  using assms by (simp add: cmd_route_def server_init_def CList_def getPackSize_def packPop_def)

lemma first_pass_pops_empty_witness:
  "cmd_route [] 0 (server_init 1 0 0 0) = Inl PopEmpty"
  by (rule first_pass_pops_empty) simp

section \<open>The send buffer\<close>

text \<open>C6: The bytes of a connection go out as one stream: for any sequence of packets appended and
  sends in which the kernel takes each time at least half of what is pending, what went out followed
  by what is still pending is the concatenation of the packets.\<close>

theorem send_stream:
  assumes "length junk = send_cap"
    and "half_sends append_packet startSend pending ops (CCmdSend junk)"
    and "srun append_packet startSend ops (CCmdSend junk) = Inr (out, c)"
  shows "out @ pending c = appended ops"
proof -
  have ok: "send_ok (CCmdSend junk)" and "pending (CCmdSend junk) = []"
    using assms(1) by (simp_all add: send_ok_def CCmdSend_def pending_def)
  with cmdsend.run_stream [OF ok assms(2,3)] show ?thesis by simp
qed

lemma send_stream_witness:
  "\<exists>out c. srun append_packet startSend [App [1, 2] 2, Snd 2, App [3] 1] (CCmdSend (replicate send_cap 0))
     = Inr (out, c) \<and> out @ pending c = [1, 2, 3]"
proof -
  let ?c = "CCmdSend (replicate send_cap (0::byte))"
  let ?ops = "[App [1, 2] 2, Snd 2, App [3] 1]"
  have half: "half_sends append_packet startSend pending ?ops ?c"
    by (simp add: CCmdSend_def append_packet_def m_copy_def c_memcpy_def setPosition_def send_cap_def
        pending_def startSend_def blit_def split: sum.split)
  have run: "\<exists>out c. srun append_packet startSend ?ops ?c = Inr (out, c)"
    by (simp add: CCmdSend_def append_packet_def m_copy_def c_memcpy_def setPosition_def send_cap_def
        startSend_def blit_def min_def)
  then obtain out c where r: "srun append_packet startSend ?ops ?c = Inr (out, c)" by blast
  from send_stream [OF _ half r] r show ?thesis by auto
qed

text \<open>A send in which the kernel takes \<open>n\<close> of \<open>p\<close> pending bytes reports \<open>n\<close> and puts the first \<open>n\<close>
  out. If that is at least half of them, the others remain; if it is less, the code, which moves \<open>n\<close>
  bytes and not \<open>p - n\<close>, leaves the \<open>p - n\<close> bytes that begin with the second \<open>n\<close> and then start
  over with them, so bytes are repeated and the last ones lost.\<close>

theorem partial_send:
  assumes "send_ok c" "0 \<le> n" "n \<le> m_position c" "startSend n c = Inr (r, c', out)"
  shows "r = n \<and> out = take (nat n) (pending c) \<and>
    pending c' = (if m_position c \<le> 2 * n then drop (nat n) (pending c)
      else cells (nat n) (nat n) (pending c) @
           cells (nat n) (nat (m_position c - 2 * n)) (pending c))"
  using startSend_pending [OF assms] by simp

lemma partial_send_witness:
  "\<exists>c r c' out. pending c = [1, 2, 3, 4, 5] \<and> startSend 2 c = Inr (r, c', out) \<and>
     out @ pending c' = [1, 2, 3, 4, 3]"
proof -
  let ?c = "\<lparr>m_position = 5, m_sendBuff = [1, 2, 3, 4, 5] @ replicate 10235 (0::byte),
             m_udpSendFlag = 0, m_udpSendBuff = None\<rparr>"
  have ok: "send_ok ?c" by (simp add: send_ok_def send_cap_def)
  have p: "pending ?c = [1, 2, 3, 4, 5]" by (simp add: pending_def)
  obtain r c' out where s: "startSend 2 ?c = Inr (r, c', out)"
    by (simp add: startSend_def c_memcpy_def)
  from partial_send [OF ok _ _ s] have "out @ pending c' = [1, 2, 3, 4, 3]"
    by (simp add: pending_def cells_def)
  with p s show ?thesis by blast
qed

text \<open>The append of a packet succeeds exactly when its length field is not negative, the packet is
  that long and the rest of the 10240 bytes holds it; there is no check, so everything else is an
  access outside the buffer. A send that reports more than half of the buffer reads past its end.\<close>

theorem buffer_limits:
  assumes "send_ok c"
  shows "(append_packet p len c = Inl OutOfBounds \<longleftrightarrow>
      \<not> (0 \<le> len \<and> len \<le> int (length p) \<and> m_position c + len \<le> 10240)) \<and>
    (startSend n c = Inl OutOfBounds \<longleftrightarrow> 5120 < n)"
  using assms
  by (auto simp: append_packet_def m_copy_def c_memcpy_def send_ok_def send_cap_def startSend_def)

lemma buffer_limits_witness:
  "append_packet (replicate 1436 0) 1436 (CCmdSend (replicate send_cap 0)) \<noteq> Inl OutOfBounds \<and>
   startSend 5121 (CCmdSend (replicate send_cap 0)) = Inl OutOfBounds"
proof -
  have "send_ok (CCmdSend (replicate send_cap (0::byte)))" by (simp add: send_ok_def CCmdSend_def)
  from buffer_limits [OF this, of "replicate 1436 0" 1436 5121] show ?thesis
    by (simp add: CCmdSend_def)
qed

text \<open>The router appends a packet with two calls, \<open>m_copy\<close> and \<open>setPosition\<close>, and only each of them
  holds the lock. When the I/O thread sends all \<open>n\<close> pending bytes between the two, the packet is
  still right if it has at most \<open>n\<close> bytes; a longer one comes out as its first \<open>n\<close> bytes followed by
  its beginning again.\<close>

theorem append_race:
  assumes "send_ok c" "m_position c = int n"
    and "m_copy p (int len) c = Inr (off, c1)"
    and "startSend (int n) c1 = Inr (r, c2, out)"
  shows "out = pending c \<and> pending (setPosition (int len) c2) =
      (if len \<le> n then take len p else take n p @ take (len - n) p)"
proof -
  let ?b = "m_sendBuff c"
  let ?b1 = "blit n (take len p) ?b"
  have lb: "length ?b = send_cap" and n: "n \<le> send_cap" using assms(1,2) by (auto simp: send_ok_def)
  from assms(2,3) have c1: "c1 = c\<lparr>m_sendBuff := ?b1\<rparr>" and fit: "len \<le> length p" "n + len \<le> send_cap"
    using lb by (auto simp: m_copy_def c_memcpy_def res_simps split: if_splits)
  have lb1: "length ?b1 = send_cap" using fit lb by simp
  from assms(4) have n2: "n \<le> send_cap - n"
    and c2: "c2 = c\<lparr>m_position := 0, m_sendBuff := blit 0 (take n (drop n ?b1)) ?b1\<rparr>"
    and out: "out = take n ?b1"
    using lb1 assms(2) by (auto simp: c1 startSend_def c_memcpy_def res_simps split: if_splits)
  have d: "drop n ?b1 = take len p @ drop (n + len) ?b"
    using n lb fit by (simp add: blit_def min_absorb1 min_absorb2)
  have l1: "length (take n (drop n ?b1)) = n" using n2 lb1 by simp
  have "blit 0 (take n (drop n ?b1)) ?b1 = take n (drop n ?b1) @ drop n ?b1"
    unfolding blit_def [of 0] l1 by simp
  then have b2: "m_sendBuff c2 = take n (drop n ?b1) @ drop n ?b1"
    by (simp add: c2)
  have pend: "pending (setPosition (int len) c2) = take len (take n (drop n ?b1) @ drop n ?b1)"
    using b2 by (simp add: pending_def setPosition_def c2)
  have "take len (take n (drop n ?b1)) = take len p" if "len \<le> n"
    using that fit(1) by (simp add: d min_absorb1)
  moreover have "take n (drop n ?b1) = take n p" "take (len - n) (drop n ?b1) = take (len - n) p"
    if "n < len"
    using that fit(1) by (simp_all add: d min_absorb1 min_absorb2)
  ultimately have "pending (setPosition (int len) c2) =
      (if len \<le> n then take len p else take n p @ take (len - n) p)"
    unfolding pend take_append l1 by auto
  moreover have "out = pending c"
    using n lb assms(2) by (simp add: out pending_def)
  ultimately show ?thesis by simp
qed

lemma append_race_witness:
  "\<exists>c off c1 r c2 out. m_copy [1, 2, 3] (int 3) c = Inr (off, c1) \<and>
     startSend (int 1) c1 = Inr (r, c2, out) \<and> out = pending c \<and> pending c = [9] \<and>
     pending (setPosition (int 3) c2) = [1, 1, 2]"
proof -
  obtain b :: block where b: "length b = send_cap" "take 1 b = [9]"
    using that [of "9 # replicate (send_cap - 1) 0"] by (simp add: send_cap_def)
  let ?c = "\<lparr>m_position = int 1, m_sendBuff = b, m_udpSendFlag = 0, m_udpSendBuff = None\<rparr>"
  have ok: "send_ok ?c" by (simp add: send_ok_def b(1) send_cap_def)
  have pos: "m_position ?c = int 1" by simp
  obtain off c1 r c2 out where
    run: "m_copy [1, 2, 3] (int 3) ?c = Inr (off, c1)" "startSend (int 1) c1 = Inr (r, c2, out)"
    by (simp add: m_copy_def startSend_def c_memcpy_def blit_def b(1) send_cap_def)
  from append_race [OF ok pos run] have res: "out = pending ?c" "pending (setPosition (int 3) c2) = [1, 1, 2]"
    by simp_all
  have "pending ?c = [9]" using b(2) by (simp add: pending_def)
  with run res show ?thesis by blast
qed

section \<open>The receiver\<close>

text \<open>C5: However the network cuts up a stream of packets, and whenever the receiver is woken, a
  user's receiver never stops the run, and the blocks it hands over are exactly the packets of the
  stream, whole and in order, as long as it is not woken with nothing but one header in the queue;
  the bytes not handed over yet are in its buffer or in the queue.\<close>

theorem server_receives_stream:
  assumes "all_ready server_read recv_ready es CCmdRecv []"
    and "\<forall>p \<in> set ps. valid_packet 16 p" and "prefix (arrivals es) (concat ps)"
  shows "\<exists>outs r rx. frun server_read es CCmdRecv [] = Inr (outs, r, rx) \<and>
     map payload outs = take (length outs) ps \<and>
     arrivals es = concat (map payload outs) @ recv_partial r @ rx"
proof -
  have "recv_framed CCmdRecv" "recv_partial CCmdRecv = []"
    by (simp_all add: recv_framed_def recv_partial_def CCmdRecv_def)
  with server_framer.run_frames [of CCmdRecv es "[]" ps] assms show ?thesis by auto
qed

text \<open>A packet with a command and a body.\<close>

definition sample_packet :: block where
  "sample_packet = i32_bytes 2 @ i32_bytes 1 @ i32_bytes 20 @ i32_bytes 0 @ i32_bytes 7"

lemma sample_packet_bytes:
  "sample_packet = [2,0,0,0, 1,0,0,0, 20,0,0,0, 0,0,0,0, 7,0,0,0]"
  by (simp add: sample_packet_def i32_bytes_def le_enc_numeral)

lemma valid_sample_packet: "valid_packet 16 sample_packet"
  by (simp add: valid_packet_def hdr_length_def sample_packet_bytes cells_def bytes_i32_def
      block_size_def)

lemma server_receives_stream_witness:
  "\<exists>outs r rx. frun server_read [Arrive (take 17 sample_packet), Readable (replicate block_size 0)]
       CCmdRecv [] = Inr (outs, r, rx) \<and>
     map payload outs = take (length outs) [sample_packet]"
proof -
  have rdy: "all_ready server_read recv_ready [Arrive (take 17 sample_packet),
      Readable (replicate block_size 0)] CCmdRecv []"
    by (simp add: recv_ready_def sample_packet_bytes split: sum.split)
  have "prefix (arrivals [Arrive (take 17 sample_packet), Readable (replicate block_size 0)])
      (concat [sample_packet])"
    by (simp add: take_is_prefix)
  with server_receives_stream [OF rdy, of "[sample_packet]"] valid_sample_packet show ?thesis by auto
qed

end
