(* ===== verification/RouterProps.thy ===== *)
theory RouterProps
  imports RouterSpec TransportProps
begin

text \<open>
  Properties of the router: the packets it delivers, the users it does not know, and a private
  message from the sender's socket to the receiver's.
\<close>

section \<open>A server with two users\<close>

definition sample_user :: "int \<Rightarrow> int \<Rightarrow> cuser" where
  "sample_user uid fd = setUserId uid (setSocket fd (CUser 0 0 (replicate send_cap 0)))"

definition two_users :: server where
  "two_users = (server_init 0 0 0 0)\<lparr>users := [1 \<mapsto> sample_user 1 5, 2 \<mapsto> sample_user 7 6], fresh := 3,
     io_map := [(5, 1), (6, 2)], io_epoll := [(5, EPOLLIN), (6, EPOLLIN)],
     cmd_map := [(1, 1), (7, 2)]\<rparr>"

lemmas two_users_simps = two_users_def sample_user_def server_init_def CUser_def setSocket_def
  setUserId_def CCmdSend_def CUserList_def CList_def

lemma two_users_inv: "server_inv two_users"
  by (auto simp: two_users_simps server_inv_def maps_ok_def login_heap_ok_def user_heap_ok_def vals_def)

lemma two_users_room: "n \<le> int send_cap \<Longrightarrow> has_room n two_users"
  by (auto simp: two_users_simps has_room_def vals_def send_ok_def)

lemma two_users_streams:
  "streams two_users = (\<lambda>i. if i = 1 \<or> i = 7 then Some [] else None)"
  by (auto simp: two_users_simps streams_def pending_def fun_eq_iff)

section \<open>Delivery\<close>

text \<open>C3: The router implements \<open>deliver\<close>: in a state that satisfies the invariant, with room in the
  send buffers, a chat or file packet of at least 20 bytes with an honest length whose receiver is
  logged in is appended to the streams of exactly its receivers (for \<open>SENDtoOTHERS\<close> all users, the
  sender included), with the sender's id in place of the receiver's.\<close>

theorem router_delivers:
  assumes "server_inv s" "has_room (hdr_length p) s"
    and "20 \<le> hdr_length p" "hdr_length p \<le> int (length p)"
    and "pk_cmd p \<in> Some ` {SENDtoONE, SENDtoOTHERS, SENDFILENAME, FILERET, SENDFILE}"
    and "pk_cmd p \<noteq> Some SENDtoOTHERS \<Longrightarrow> streams s (sint (pk_peer p)) \<noteq> None"
  shows "\<exists>s'. setWriteSocketFdFlag junk now p s = Inr s' \<and> streams s' = deliver p (streams s)"
proof -
  have l: "4 \<le> length p" using assms(3,4) by simp
  have eq: "setWriteSocketFdFlag junk now p s = (case pk_cmd p of
         Some UDPRESEND \<Rightarrow> route_resend junk p s
       | Some SENDtoONE \<Rightarrow> route_one p s | Some SENDtoOTHERS \<Rightarrow> route_others p s
       | Some SENDFILENAME \<Rightarrow> route_peer p s | Some FILERET \<Rightarrow> route_peer p s
       | Some SENDFILE \<Rightarrow> route_peer p s | Some UDPSENDFILE \<Rightarrow> route_udpfile junk now p s
       | Some UDPREGISTER \<Rightarrow> route_register p s | Some HEARTBEAT \<Rightarrow> route_heartbeat now p s
       | Some QUIT \<Rightarrow> Inl UninitRead | Some LOGIN \<Rightarrow> Inr s | None \<Rightarrow> Inr s)"
    using l by (simp add: setWriteSocketFdFlag_def pk_cmd_def)
  from assms(5) consider "pk_cmd p = Some SENDtoOTHERS" | "pk_cmd p = Some SENDtoONE"
    | "pk_cmd p = Some SENDFILENAME" | "pk_cmd p = Some FILERET" | "pk_cmd p = Some SENDFILE"
    by auto
  then show ?thesis
  proof cases
    case 1
    with route_others_delivers [OF assms(1-4)] show ?thesis by (simp add: eq deliver_def)
  qed (use assms(6) route_one_delivers [OF assms(1-4)] route_peer_delivers [OF assms(1-4)]
      in \<open>auto simp: eq deliver_def\<close>)
qed

lemma sample_packet_fields:
  "hdr_length sample_packet = 20" "length sample_packet = 20" "pk_cmd sample_packet = Some SENDtoONE"
  "sint (pk_peer sample_packet) = 7" "pk_user sample_packet = 1"
  by (simp_all add: sample_packet_bytes hdr_length_def pk_cmd_def pk_peer_def pk_user_def
      cells_def bytes_i32_def cmd_of_def all_cmds_def cmd_num_def)

lemma router_delivers_witness:
  "\<exists>s'. setWriteSocketFdFlag [] 0 sample_packet two_users = Inr s' \<and>
     streams s' = deliver sample_packet (\<lambda>i. if i = 1 \<or> i = 7 then Some [] else None)"
  using router_delivers [OF two_users_inv two_users_room, of sample_packet]
  by (simp add: sample_packet_fields send_cap_def two_users_streams)

text \<open>A packet for a single user whose receiver is not logged in stops the server: \<open>m_map[id]\<close>
  makes a null pointer and the router goes through it.\<close>

theorem unknown_receiver:
  assumes "pk_cmd p \<in> Some ` {SENDtoONE, SENDFILENAME, FILERET, SENDFILE}" "20 \<le> length p"
    and "map_find (sint (pk_peer p)) (cmd_map s) = None"
  shows "setWriteSocketFdFlag junk now p s = Inl NullDeref"
  using assms
  by (auto simp: setWriteSocketFdFlag_def pk_cmd_def route_one_def route_peer_def send_to_user_def
      pk_peer_def)

lemma unknown_receiver_witness:
  "setWriteSocketFdFlag [] 0 sample_packet (server_init 0 0 0 0) = Inl NullDeref"
  by (rule unknown_receiver) (simp_all add: sample_packet_fields server_init_def)

section \<open>A message from one user to another\<close>

text \<open>What the two calls of \<open>recv\<close> and \<open>memcpy\<close> do with a packet that has arrived in one piece.\<close>

lemma whole_packet:
  assumes p: "17 \<le> length p" "length p \<le> block_size" "hdr_length p = int (length p)" and j: "length junk = block_size"
  shows "k_recv 16 p eof = (16, take 16 p, drop 16 p)"
    "c_memcpy 0 (take 16 p) junk 16 = Inr (blit 0 (take 16 p) junk)"
    "rd32 8 (blit 0 (take 16 p) junk) = Inr (bytes_i32 (cells 8 4 (blit 0 (take 16 p) junk)))"
    "sint (bytes_i32 (cells 8 4 (blit 0 (take 16 p) junk))) = int (length p)"
    "k_recv (int (length p) - 16) (drop 16 p) eof = (int (length p) - 16, drop 16 p, [])"
    "c_memcpy 16 (drop 16 p) (blit 0 (take 16 p) junk) (int (length p - 16)) = Inr (blit 0 p junk)"
proof -
  let ?b = "blit 0 (take 16 p) junk"
  have lt: "length (take 16 p) = 16" using p(1) by simp
  have lb: "length ?b = block_size" using j lt by (simp add: block_size_def)
  show "k_recv 16 p eof = (16, take 16 p, drop 16 p)"
    using p(1) by (subst k_recv_take) (auto simp: min_absorb1)
  show "c_memcpy 0 (take 16 p) junk 16 = Inr ?b"
    using p(1) j by (simp add: c_memcpy_def block_size_def min_absorb1)
  show "rd32 8 ?b = Inr (bytes_i32 (cells 8 4 ?b))" using lb by (simp add: block_size_def)
  have "hdr_length ?b = int (length p)"
    using p(1,3) hdr_length_blit [of "take 16 p" junk] hdr_length_take [of 16 p] by simp
  then show "sint (bytes_i32 (cells 8 4 ?b)) = int (length p)" by (simp add: hdr_length_def)
  show "k_recv (int (length p) - 16) (drop 16 p) eof = (int (length p) - 16, drop 16 p, [])"
    using p(1) by (subst k_recv_take) auto
  have bb: "blit 16 (drop 16 p) ?b = blit 0 p junk"
    using blit_blit_adjacent [of 16 0 "take 16 p" "drop 16 p" junk] lt p j
    by (simp flip: append_assoc)
  show "c_memcpy 16 (drop 16 p) ?b (int (length p - 16)) = Inr (blit 0 p junk)"
    using p lb by (simp add: c_memcpy_def bb [symmetric])
qed

lemma recv_step_whole:
  assumes r: "\<not> m_recvHeadFlag r" and p: "17 \<le> length p" "length p \<le> block_size"
    "hdr_length p = int (length p)" and j: "length junk = block_size"
  shows "recv_step junk r p eof = Inr (r\<lparr>m_recvBuff := Some (blit 0 p junk),
     m_totalLengthOfData := int (length p), m_lengthHasRecv := 0, m_recvHeadFlag := False\<rparr>, [],
     [blit 0 p junk], False)"
proof -
  note w = whole_packet [OF p j]
  let ?r = "(getRecvBuff (blit 0 (take 16 p) junk) r)\<lparr>m_totalLengthOfData := int (length p), m_lengthHasRecv := 16,
      m_recvHeadFlag := True\<rparr>"
  have hd: "recv_head junk r p eof = Inr (?r, drop 16 p, False)"
    using p(1) w(1-4) by (simp add: recv_head_def header_size_def min_absorb2)
  have bd: "recv_body ?r (drop 16 p) eof = Inr (r\<lparr>m_recvBuff := Some (blit 0 p junk),
     m_totalLengthOfData := int (length p), m_lengthHasRecv := 0, m_recvHeadFlag := False\<rparr>, [],
     [blit 0 p junk])"
    using p(1) w(5,6) by (simp add: recv_body_def recv_block_def getRecvBuff_def of_nat_diff Let_def)
  show ?thesis
    using r p(1) hd bd by (simp add: recv_step_def header_size_def k_fionread_def)
qed

lemma take_blit_0: "n \<le> length xs \<Longrightarrow> take n (blit 0 xs b) = take n xs"
  by (simp add: blit_def)

lemma packet_in_block:
  assumes "20 \<le> length p" "hdr_length p = int (length p)"
  shows "payload (blit 0 p junk) = p" "hdr_length (blit 0 p junk) = int (length p)"
    "pk_cmd (blit 0 p junk) = pk_cmd p" "pk_user (blit 0 p junk) = pk_user p"
    "pk_peer (blit 0 p junk) = pk_peer p" "stamped (blit 0 p junk) = stamped p"
proof -
  show h: "hdr_length (blit 0 p junk) = int (length p)"
    using assms hdr_length_blit [of p junk] by simp
  show pay: "payload (blit 0 p junk) = p"
    using take_blit_upto [of 0 junk p] by (simp add: payload_def h)
  show "pk_cmd (blit 0 p junk) = pk_cmd p" "pk_peer (blit 0 p junk) = pk_peer p"
    and u: "pk_user (blit 0 p junk) = pk_user p"
    using assms(1) by (simp_all add: pk_cmd_def pk_user_def pk_peer_def cells_blit_inside take_blit_0)
  have "payload p = p" by (simp add: payload_def assms(2))
  then show "stamped (blit 0 p junk) = stamped p"
    by (simp add: stamped_def u pay)
qed

lemma epollRead_whole:
  assumes io: "map_find fd (io_map s) = Some a" "users s a = Some u" "\<not> m_recvHeadFlag (m_recv u)"
    and pk: "sock_rx s fd = p" "17 \<le> length p" "length p \<le> block_size" "hdr_length p = int (length p)"
    and j: "length junk = block_size"
  shows "epollRead fd junk s = Inr ((put_user a (u\<lparr>m_recv := (m_recv u)\<lparr>m_recvBuff := Some (blit 0 p junk),
      m_totalLengthOfData := int (length p), m_lengthHasRecv := 0, m_recvHeadFlag := False\<rparr>\<rparr>) s)
    \<lparr>sock_rx := (sock_rx s)(fd := []), packList := packPush (blit 0 p junk) (packList s)\<rparr>)"
  using io pk recv_step_whole [OF io(3) pk(2-4) j, of "sock_eof s fd"]
  by (auto simp: epollRead_def k_fionread_def Let_def put_user_def)

text \<open>A message for one user, alone in the packet list, goes through the router into the user's send buffer.\<close>

lemma cmd_route_one:
  assumes q: "packList s = packPush k (CList 0)" and k: "20 \<le> hdr_length k" "hdr_length k \<le> int (length k)"
      "length k \<le> block_size" "pk_cmd k = Some SENDtoONE" "sint (pk_user k) \<noteq> 0"
    and to: "map_find (sint (pk_peer k)) (cmd_map s) = Some b" "users s b = Some v"
      "send_ok (m_send v)" "m_position (m_send v) = 0"
  shows "\<exists>c. cmd_route junk now s = Inr (put_user b (v\<lparr>m_send := c\<rparr>) (s\<lparr>packList := CList 0\<rparr>), 40) \<and>
    send_ok c \<and> pending c = stamped k"
proof -
  let ?s = "s\<lparr>packList := CList 0\<rparr>"
  have pop: "getPackSize (packList s) > 0" "packPop (packList s) = Inr (k, CList 0)"
    using q by (simp_all add: packPush_def packPop_def getPackSize_def CList_def)
  have lk: "20 \<le> length k" using k(1,2) by simp
  have lp: "(16::int) + 4 \<le> hdr_length k" "m_position (m_send v) + hdr_length k \<le> int send_cap"
    using k to(4) by (simp_all add: block_size_def send_cap_def)
  from forward_copy_effect [OF to(3) _ k(2) lp(2) _ lp(1), of "pk_user k"] obtain c where
    c: "forward_copy k (hdr_length k) 16 (pk_user k) (m_send v) = Inr c" "send_ok c"
      "pending c = pending (m_send v) @ blit 16 (i32_bytes (pk_user k)) (take (nat (hdr_length k)) k)"
    using k(1) by auto
  have "route_one k ?s = send_to_user (sint (pk_peer k))
      (if sint (pk_user k) = 0 then forward_copy k (hdr_length k) 0 (word_of_int (cmd_num HEARTBEAT))
       else forward_copy k (hdr_length k) 16 (pk_user k)) ?s"
    using lk by (simp add: route_one_def flip: pk_peer_def hdr_length_def pk_user_def)
  then have r: "route_one k ?s = Inr (put_user b (v\<lparr>m_send := c\<rparr>) ?s)"
    using k(5) c(1) to(1,2) by (simp add: send_to_user_def)
  have "rd32 0 k = Inr (bytes_i32 (cells 0 4 k))"
    using lk by (intro rd32_Inr) simp
  then have "setWriteSocketFdFlag junk now k ?s = Inr (put_user b (v\<lparr>m_send := c\<rparr>) ?s)"
    using r k(4) unfolding setWriteSocketFdFlag_def pk_cmd_def by simp
  moreover have "pending c = stamped k"
    using c(3) to(4) by (simp add: pending_def stamped_def payload_def)
  ultimately show ?thesis using pop c(2) by (auto simp: cmd_route_def)
qed

text \<open>A write event in which the kernel takes everything.\<close>

lemma io_out_all:
  assumes "map_find fd (io_map s) = Some b" "users s b = Some v" "send_ok (m_send v)"
    and "pending (m_send v) = d" "d \<noteq> []" "2 * length d \<le> send_cap"
  shows "\<exists>s'. io_out fd (int (length d)) s = Inr s' \<and> outbox s' = outbox s @ [(fd, d)]"
proof -
  let ?c = "m_send v"
  have n: "0 \<le> m_position ?c" "m_position ?c \<le> int send_cap" "length (m_sendBuff ?c) = send_cap"
    using assms(3) by (simp_all add: send_ok_def)
  then have "length d = nat (m_position ?c)"
    using assms(4) by (auto simp: pending_def)
  then have "\<exists>c'. startSend (int (length d)) ?c = Inr (int (length d), c', d)"
    using n assms(4,6) by (simp add: startSend_def c_memcpy_def pending_def)
  then show ?thesis using assms(1,2,5) by (auto simp: io_out_def put_user_def Let_def)
qed

lemma stamped_not_empty: "stamped p \<noteq> []"
proof -
  have "i32_bytes (pk_user p) \<noteq> []" by (metis length_i32_bytes list.size(3) zero_neq_numeral)
  then show ?thesis by (simp add: stamped_def blit_def)
qed

text \<open>A private message makes its way: when it has arrived on the sender's socket in one piece,
  one read event, one pass of the router over the empty packet list and one write event in which the
  kernel takes everything put exactly the message, with the sender's id in place of the receiver's,
  on the receiver's socket.\<close>

theorem private_message:
  assumes io: "map_find fd (io_map s) = Some a" "users s a = Some u" "\<not> m_recvHeadFlag (m_recv u)"
    and pk: "sock_rx s fd = p" "20 \<le> length p" "length p \<le> block_size"
      "hdr_length p = int (length p)" "pk_cmd p = Some SENDtoONE" "sint (pk_user p) \<noteq> 0"
    and q: "packList s = CList 0" "length junk = block_size"
    and to: "map_find (sint (pk_peer p)) (cmd_map s) = Some b" "map_find fd' (io_map s) = Some b"
      "users s b = Some v" "send_ok (m_send v)" "m_position (m_send v) = 0"
  shows "\<exists>s1 s2 s3. epollRead fd junk s = Inr s1 \<and> cmd_route junk' now s1 = Inr (s2, 40) \<and>
    io_out fd' (int (length p)) s2 = Inr s3 \<and> outbox s3 = outbox s @ [(fd', stamped p)]"
proof -
  let ?k = "blit 0 p junk"
  note pb = packet_in_block [OF pk(2,4), of junk]
  have lk: "length ?k = block_size" using pk(3) q(2) by simp
  have "17 \<le> length p" using pk(2) by simp
  note e = epollRead_whole [OF io pk(1) this pk(3,4) q(2)]
  define s1 where "s1 = projr (epollRead fd junk s)"
  have s1: "epollRead fd junk s = Inr s1" "packList s1 = packPush ?k (CList 0)" "cmd_map s1 = cmd_map s"
      "io_map s1 = io_map s" "outbox s1 = outbox s"
    using q(1) by (simp_all add: s1_def e put_user_def)
  obtain v1 where v1: "users s1 b = Some v1" "m_send v1 = m_send v"
    using to(3) io(2) by (cases "b = a") (auto simp: s1_def e put_user_def)
  from cmd_route_one [OF s1(2), of b v1 junk' now] obtain c where
    c: "cmd_route junk' now s1 = Inr (put_user b (v1\<lparr>m_send := c\<rparr>) (s1\<lparr>packList := CList 0\<rparr>), 40)"
      "send_ok c" "pending c = stamped p"
    using pb pk lk to s1(3) v1 by auto
  have l: "length (stamped p) = length p" "2 * length (stamped p) \<le> send_cap"
    using pk(2-4) by (simp_all add: stamped_def payload_def block_size_def send_cap_def)
  show ?thesis
    using io_out_all [of fd' "put_user b (v1\<lparr>m_send := c\<rparr>) (s1\<lparr>packList := CList 0\<rparr>)" b "v1\<lparr>m_send := c\<rparr>" "stamped p"]
      s1 c to(2) stamped_not_empty [of p] l
    by (auto simp: put_user_def)
qed

lemma private_message_witness:
  "\<exists>s1 s2 s3. epollRead 5 (replicate block_size 0) (two_users\<lparr>sock_rx := \<lambda>_. sample_packet\<rparr>) = Inr s1 \<and>
     cmd_route [] 0 s1 = Inr (s2, 40) \<and> io_out 6 20 s2 = Inr s3 \<and>
     outbox s3 = [(6, [2,0,0,0, 1,0,0,0, 20,0,0,0, 0,0,0,0, 1,0,0,0])]"
proof -
  let ?s = "two_users\<lparr>sock_rx := \<lambda>_. sample_packet\<rparr>"
  have st: "stamped sample_packet = [2,0,0,0, 1,0,0,0, 20,0,0,0, 0,0,0,0, 1,0,0,0]"
    by (simp add: stamped_def payload_def sample_packet_fields)
      (simp add: sample_packet_bytes blit_def i32_bytes_def le_enc_numeral)
  have ok: "send_ok (m_send (sample_user uid fd))" for uid fd
    by (simp add: two_users_simps send_ok_def)
  from private_message [of 5 ?s 1 "sample_user 1 5" sample_packet "replicate block_size 0" 2 6
      "sample_user 7 6" "[]" 0] ok
  show ?thesis
    by (simp add: sample_packet_fields st two_users_simps CCmdRecv_def block_size_def)
qed

end
