(* ===== verification/UdpProps.thy ===== *)
theory UdpProps
  imports RouterProps
begin

text \<open>
  Files over UDP at the server: what is kept for retransmission, how a report of lost datagrams is
  answered, when kept datagrams are forgotten, and what the address list does.
\<close>

section \<open>The queues of datagrams\<close>

text \<open>The datagrams waiting for each user, as an abstraction of the state.\<close>

definition udp_queues :: "server \<Rightarrow> int \<Rightarrow> block list option" where
  "udp_queues s uid =
     Option.bind (map_find uid (cmd_map s))
       (\<lambda>a. map_option (\<lambda>u. m_package (m_udpSendList u)) (users s a))"

lemma udp_queues_put:
  assumes "server_inv s" "map_find uid (cmd_map s) = Some a"
  shows "udp_queues (put_user a u s) = (udp_queues s)(uid := Some (m_package (m_udpSendList u)))"
proof
  fix i
  have d: "distinct (map snd (cmd_map s))"
    using assms(1) by (simp add: server_inv_def user_heap_ok_def)
  have "i = uid" if "map_find i (cmd_map s) = Some a"
    by (rule map_find_inj [OF d that assms(2)])
  then show "udp_queues (put_user a u s) i =
      ((udp_queues s)(uid := Some (m_package (m_udpSendList u)))) i"
    using assms(2)
    by (cases "map_find i (cmd_map s)") (auto simp: udp_queues_def put_user_def)
qed

lemma udp_queues_frame [simp]:
  "udp_queues (s\<lparr>udpLoseMap := m\<rparr>) = udp_queues s"
  "udp_queues (s\<lparr>packList := l\<rparr>) = udp_queues s"
  by (simp_all add: udp_queues_def fun_eq_iff)

lemma push_udp_queues:
  assumes s: "server_inv s" and q: "udp_queues s uid = Some q"
  shows "\<exists>s'. push_udp uid p s = Inr s' \<and> udp_queues s' = (udp_queues s)(uid := Some (q @ [p])) \<and>
    server_inv s' \<and> udpLoseMap s' = udpLoseMap s"
proof -
  from q obtain a u where a: "map_find uid (cmd_map s) = Some a" "users s a = Some u"
    "q = m_package (m_udpSendList u)"
    by (auto simp: udp_queues_def bind_eq_Some_conv)
  let ?s = "put_user a (u\<lparr>m_udpSendList := packPush p (m_udpSendList u)\<rparr>) s"
  have r: "push_udp uid p s = Inr ?s" using a by (simp add: push_udp_def)
  moreover have "server_inv ?s" using safe_push_udp [OF s, of uid p] by (simp add: r)
  ultimately show ?thesis
    using udp_queues_put [OF s a(1), of "u\<lparr>m_udpSendList := packPush p (m_udpSendList u)\<rparr>"] a
    by (simp add: packPush_def put_user_def)
qed

section \<open>A datagram of a file\<close>

definition dg_count :: "block \<Rightarrow> i32" where
  "dg_count p = bytes_i32 (cells 16 4 p)"

definition dg_to :: "block \<Rightarrow> i32" where
  "dg_to p = bytes_i32 (cells 28 4 p)"

definition dg_time :: "block \<Rightarrow> int" where
  "dg_time p = sint (bytes_i64 (cells 20 8 p))"

text \<open>A datagram of a file is queued for its receiver with the sender's id in place of the
  receiver's, and kept, stamped with the time, under its count, unless a datagram with that count is
  still kept: then the old one stays, whoever sent it, so a later retransmission of that count sends
  the wrong datagram.\<close>

theorem udpfile_queued_and_kept:
  assumes s: "server_inv s" "getPackSize (packList s) \<le> 0"
    and p: "length p = block_size" "0 \<le> hdr_length p" "hdr_length p \<le> int block_size"
      "length junk = block_size"
    and q: "udp_queues s (sint (dg_to p)) = Some q"
  shows "\<exists>s'. route_udpfile junk now p s = Inr s' \<and>
     udp_queues s' = (udp_queues s)(sint (dg_to p) :=
       Some (q @ [blit 28 (i32_bytes (pk_user p)) (blit 0 (payload p) junk)])) \<and>
     map_find (sint (dg_count p)) (udpLoseMap s') =
       (case map_find (sint (dg_count p)) (udpLoseMap s) of
          None \<Rightarrow> Some (blit 20 (i64_bytes (word_of_int now)) p) | Some old \<Rightarrow> Some old)"
proof -
  from q obtain a u where a: "map_find (sint (dg_to p)) (cmd_map s) = Some a" "users s a = Some u"
    "q = m_package (m_udpSendList u)"
    by (auto simp: udp_queues_def bind_eq_Some_conv)
  let ?copy = "blit 28 (i32_bytes (pk_user p)) (blit 0 (payload p) junk)"
  let ?kept = "blit 20 (i64_bytes (word_of_int now)) p"
  let ?u = "u\<lparr>m_send := (m_send u)\<lparr>m_udpSendBuff := Some ?copy\<rparr>,
              m_udpSendList := packPush ?copy (m_udpSendList u)\<rparr>"
  have pl: "length (payload p) \<le> block_size" using p(1) by (simp add: payload_def)
  have copy: "m_udpcopy junk p (hdr_length p) (m_send u) =
      Inr (blit 0 (payload p) junk, (m_send u)\<lparr>m_udpSendBuff := Some (blit 0 (payload p) junk)\<rparr>)"
    using p by (simp add: m_udpcopy_def c_memcpy_def payload_def)
  have cnt: "cells 16 4 ?kept = cells 16 4 p"
    using p(1) by (simp add: block_size_def)
  have rd: "rd32 28 p = Inr (dg_to p)" "rd32 4 p = Inr (pk_user p)"
    "rd32 8 p = Inr (bytes_i32 (cells 8 4 p))" "rd32 16 ?kept = Inr (dg_count p)"
    using p(1) cnt by (simp_all add: dg_to_def pk_user_def dg_count_def block_size_def)
  have wr: "wr32 28 (pk_user p) (blit 0 (payload p) junk) = Inr ?copy"
    "wr64 20 (word_of_int now) p = Inr ?kept"
    using p(1,4) pl by (simp_all add: block_size_def)
  have run: "route_udpfile junk now p s =
      Inr ((put_user a ?u s)\<lparr>udpLoseMap := map_ins (sint (dg_count p)) ?kept (udpLoseMap s)\<rparr>)"
    using s(2) a copy rd wr
    by (simp add: route_udpfile_def drop_addr_def hdr_length_def put_user_def)
  have ok: "map_ok (udpLoseMap s)" using s(1) by (simp add: server_inv_def maps_ok_def)
  show ?thesis
    unfolding run
    using udp_queues_put [OF s(1) a(1), of ?u] a
    by (auto simp: packPush_def map_find_map_ins [OF ok] split: option.split)
qed

section \<open>Retransmission\<close>

text \<open>The numbers of a report.\<close>

definition lose_num :: "block \<Rightarrow> nat \<Rightarrow> i32" where
  "lose_num p i = bytes_i32 (cells (24 + 4 * i) 4 p)"

definition missing :: "(int, block) smap \<Rightarrow> i32 list \<Rightarrow> i32 list" where
  "missing m ks = filter (\<lambda>k. map_find (sint k) m = None) ks"


definition kept :: "(int, block) smap \<Rightarrow> i32 list \<Rightarrow> block list" where
  "kept m ks = map (\<lambda>k. take block_size (the (map_find (sint k) m)))
     (filter (\<lambda>k. map_find (sint k) m \<noteq> None) ks)"

text \<open>What the report block holds after the numbers \<open>ns\<close> have been collected.\<close>

definition report_ok :: "block \<Rightarrow> i32 \<Rightarrow> i32 list \<Rightarrow> block \<Rightarrow> bool" where
  "report_ok junk asker ns b \<longleftrightarrow> length b = length junk \<and>
     (ns = [] \<longrightarrow> b = junk) \<and> (ns \<noteq> [] \<longrightarrow> cells 16 4 b = i32_bytes asker) \<and>
     (\<forall>j < length ns. cells (24 + 4 * j) 4 b = i32_bytes (ns ! j))"

lemma report_ok_step:
  fixes k :: i32
  assumes "report_ok junk asker ns b" "length junk = resend_report_size" "length ns \<le> 48"
  defines "r0 \<equiv> if ns = [] then blit 16 (i32_bytes asker) junk else b"
  defines "r1 \<equiv> blit (24 + 4 * length ns) (i32_bytes k) r0"
  shows "length r0 = resend_report_size" "report_ok junk asker (ns @ [k]) r1"
proof -
  have ln: "28 + 4 * length ns \<le> 220" using assms(3) by simp
  show r0: "length r0 = resend_report_size"
    using assms(1,2) by (simp add: r0_def report_ok_def resend_report_size_def)
  then have r0': "length r0 = 220" by (simp add: resend_report_size_def)
  have len1: "length r1 = length junk"
    using ln r0 assms(2) by (simp add: r1_def resend_report_size_def)
  have "cells 16 4 r1 = cells 16 4 r0" using ln r0' by (simp add: r1_def)
  also have "\<dots> = i32_bytes asker"
    using assms(1,2) by (auto simp: r0_def report_ok_def resend_report_size_def)
  finally have c16: "cells 16 4 r1 = i32_bytes asker" .
  have cj: "cells (24 + 4 * j) 4 r1 = i32_bytes ((ns @ [k]) ! j)" if j: "j < length (ns @ [k])" for j
  proof (cases "j = length ns")
    case True
    then show ?thesis using ln r0' by (simp add: r1_def)
  next
    case False
    with j have lt: "j < length ns" by simp
    then have "ns \<noteq> []" by auto
    moreover have "cells (24 + 4 * j) 4 r1 = cells (24 + 4 * j) 4 r0"
      using lt ln r0' by (simp add: r1_def)
    ultimately show ?thesis using lt assms(1) by (simp add: r0_def report_ok_def nth_append)
  qed
  show "report_ok junk asker (ns @ [k]) r1"
    using len1 c16 cj unfolding report_ok_def by blast
qed

text \<open>One number of a report: its datagram is queued, or the number is added to the report block.\<close>

lemma resend_one_kept:
  assumes "server_inv (ra_server ra)" "udp_queues (ra_server ra) (sint (pk_user p)) = Some q"
    and "28 + 4 * i \<le> length p" "8 \<le> length p"
    and "map_find (sint (lose_num p i)) (udpLoseMap (ra_server ra)) = Some b" "block_size \<le> length b"
  shows "\<exists>s'. resend_one junk p i ra = Inr (ra\<lparr>ra_server := s'\<rparr>) \<and> server_inv s' \<and>
    udpLoseMap s' = udpLoseMap (ra_server ra) \<and>
    udp_queues s' = (udp_queues (ra_server ra))(sint (pk_user p) := Some (q @ [take block_size b]))"
proof -
  have rd: "rd32 (24 + 4 * i) p = Inr (lose_num p i)" "rd32 4 p = Inr (pk_user p)"
    using assms(3,4) by (auto simp: lose_num_def pk_user_def)
  from push_udp_queues [OF assms(1,2), of "take block_size b"] show ?thesis
    using assms(5,6) by (auto simp: resend_one_def rd)
qed

lemma resend_one_gone:
  assumes "report_ok junk (pk_user p) ns (ra_report ra)" "ra_num ra = length ns"
    and "length junk = resend_report_size" "length ns \<le> 48"
    and "28 + 4 * i \<le> length p" "8 \<le> length p"
    and "map_find (sint (lose_num p i)) (udpLoseMap (ra_server ra)) = None"
  shows "\<exists>r. resend_one junk p i ra =
      Inr (ra\<lparr>ra_report := r, ra_num := length (ns @ [lose_num p i])\<rparr>) \<and>
    report_ok junk (pk_user p) (ns @ [lose_num p i]) r"
proof -
  have rd: "rd32 (24 + 4 * i) p = Inr (lose_num p i)" "rd32 4 p = Inr (pk_user p)"
    using assms(5,6) by (auto simp: lose_num_def pk_user_def)
  note step = report_ok_step(1) [OF assms(1,3,4)]
    report_ok_step(2) [OF assms(1,3,4), of "lose_num p i"]
  show ?thesis
    using assms(2,3,4,7) step
    by (cases "ns = []") (auto simp: resend_one_def rd resend_report_size_def intro!: exI)
qed

lemma resend_loop:
  assumes "server_inv (ra_server ra)" "udp_queues (ra_server ra) (sint (pk_user p)) = Some q"
    and "\<forall>i \<in> set is. 28 + 4 * i \<le> length p" "8 \<le> length p"
    and "\<forall>k b. map_find k (udpLoseMap (ra_server ra)) = Some b \<longrightarrow> block_size \<le> length b"
    and "report_ok junk (pk_user p) ns (ra_report ra)" "ra_num ra = length ns"
    and "length junk = resend_report_size" "length ns + length is \<le> 49"
    and "m = udpLoseMap (ra_server ra)" "ks = map (lose_num p) is"
  shows "\<exists>ra'. rfold (resend_one junk p) is ra = Inr ra' \<and> server_inv (ra_server ra') \<and>
    ra_num ra' = length (ns @ missing m ks) \<and>
    report_ok junk (pk_user p) (ns @ missing m ks) (ra_report ra') \<and>
    udp_queues (ra_server ra') = (udp_queues (ra_server ra))(sint (pk_user p) := Some (q @ kept m ks))"
  using assms
proof (induction "is" arbitrary: ra ns q ks)
  case Nil
  then show ?case by (auto simp: missing_def kept_def fun_upd_idem)
next
  case (Cons i "is")
  let ?k = "lose_num p i" and ?ks = "map (lose_num p) is"
  have rest: "\<forall>i \<in> set is. 28 + 4 * i \<le> length p" "28 + 4 * i \<le> length p"
    "length ns + length is \<le> 49" "length ns \<le> 48"
    using Cons.prems(3,9) by simp_all
  show ?case
  proof (cases "map_find (sint ?k) m")
    case (Some b)
    then have b: "map_find (sint ?k) (udpLoseMap (ra_server ra)) = Some b" "block_size \<le> length b"
      using Cons.prems(5,10) by auto
    from resend_one_kept [OF Cons.prems(1,2) rest(2) Cons.prems(4) b] obtain s' where
      one: "resend_one junk p i ra = Inr (ra\<lparr>ra_server := s'\<rparr>)" and s': "server_inv s'"
        "udpLoseMap s' = udpLoseMap (ra_server ra)"
        "udp_queues s' = (udp_queues (ra_server ra))(sint (pk_user p) := Some (q @ [take block_size b]))"
      by blast
    let ?ra = "ra\<lparr>ra_server := s'\<rparr>"
    have "\<exists>ra'. rfold (resend_one junk p) is ?ra = Inr ra' \<and> server_inv (ra_server ra') \<and>
      ra_num ra' = length (ns @ missing m ?ks) \<and>
      report_ok junk (pk_user p) (ns @ missing m ?ks) (ra_report ra') \<and>
      udp_queues (ra_server ra') = (udp_queues (ra_server ?ra))(sint (pk_user p) :=
         Some ((q @ [take block_size b]) @ kept m ?ks))"
      by (intro Cons.IH) (use s' Cons.prems rest in auto)
    then show ?thesis
      using one Some s'(3) Cons.prems(11) by (auto simp: missing_def kept_def)
  next
    case None
    then have gone: "map_find (sint ?k) (udpLoseMap (ra_server ra)) = None" using Cons.prems(10) by simp
    from resend_one_gone [OF Cons.prems(6,7,8) rest(4,2) Cons.prems(4) gone] obtain r where
      one: "resend_one junk p i ra = Inr (ra\<lparr>ra_report := r, ra_num := length (ns @ [?k])\<rparr>)" and
      rep: "report_ok junk (pk_user p) (ns @ [?k]) r"
      by blast
    let ?ra = "ra\<lparr>ra_report := r, ra_num := length (ns @ [?k])\<rparr>"
    have "length (ns @ [?k]) + length is \<le> 49" using Cons.prems(9) by simp
    then have "\<exists>ra'. rfold (resend_one junk p) is ?ra = Inr ra' \<and> server_inv (ra_server ra') \<and>
      ra_num ra' = length ((ns @ [?k]) @ missing m ?ks) \<and>
      report_ok junk (pk_user p) ((ns @ [?k]) @ missing m ?ks) (ra_report ra') \<and>
      udp_queues (ra_server ra') = (udp_queues (ra_server ?ra))(sint (pk_user p) :=
         Some (q @ kept m ?ks))"
      by (intro Cons.IH) (use rep Cons.prems rest in auto)
    then show ?thesis
      using one None Cons.prems(11) by (auto simp: missing_def kept_def)
  qed
qed





lemma two_users_udp:
  "udp_queues two_users = (\<lambda>i. if i = 1 \<or> i = 7 then Some [] else None)"
  "udpLoseMap two_users = []" "getPackSize (packList two_users) = 0"
  by (auto simp: two_users_simps udp_queues_def getPackSize_def fun_eq_iff)

definition sample_report :: block where
  "sample_report = i32_bytes 9 @ i32_bytes 1 @ i32_bytes 28 @ i32_bytes 0 @ i32_bytes 7 @
     i32_bytes 1 @ i32_bytes 5"

lemma sample_report_bytes:
  "sample_report = [9,0,0,0, 1,0,0,0, 28,0,0,0, 0,0,0,0, 7,0,0,0, 1,0,0,0, 5,0,0,0]"
  by (simp add: sample_report_def i32_bytes_def le_enc_numeral)

lemma sample_report_fields:
  "sint (pk_user sample_report) = 1" "sint (pk_peer sample_report) = 7"
  "rd32 20 sample_report = Inr 1" "length sample_report = 28" "lose_num sample_report 0 = 5"
  by (simp_all add: sample_report_bytes pk_user_def pk_peer_def rd32_def lose_num_def cells_def
      bytes_i32_def)


definition sample_datagram :: block where
  "sample_datagram = i32_bytes 7 @ i32_bytes 1 @ i32_bytes 46 @ i32_bytes 0 @ i32_bytes 3 @
     replicate 8 0 @ i32_bytes 7 @ replicate 1404 0"

lemma udpfile_queued_and_kept_witness:
  "\<exists>s' q. route_udpfile (replicate block_size 0) 99 sample_datagram two_users = Inr s' \<and>
     udp_queues s' 7 = Some [q] \<and>
     map_find 3 (udpLoseMap s') = Some (blit 20 (i64_bytes 99) sample_datagram)"
proof -
  have f: "dg_to sample_datagram = 7" "dg_count sample_datagram = 3" "hdr_length sample_datagram = 46"
    "length sample_datagram = 1436"
    by (simp_all add: sample_datagram_def dg_to_def dg_count_def hdr_length_def cells_append_right
        cells_append_left)
  from udpfile_queued_and_kept [OF two_users_inv, of sample_datagram "replicate block_size 0" "[]" 99]
  show ?thesis
    by (auto simp: f two_users_udp block_size_def)
qed

text \<open>C34: The block of a report has 220 bytes, four too few for 50 numbers: when 50 datagrams are
  reported lost and none of them is kept, the router writes past the end of the block.\<close>

theorem resend_overflow:
  assumes "server_inv s" "getPackSize (packList s) \<le> 0" "udpLoseMap s = []"
    and "udp_queues s (sint (pk_user p)) = Some q"
    and "rd32 20 p = Inr 50" "224 \<le> length p" "length junk = resend_report_size"
  shows "route_resend junk p s = Inl OutOfBounds"
proof -
  define r0 where "r0 = \<lparr>ra_num = 0, ra_report = junk, ra_server = s\<rparr>"
  have "\<exists>ra. rfold (resend_one junk p) [0..<49] r0 = Inr ra \<and> server_inv (ra_server ra) \<and>
    ra_num ra = length ([] @ missing [] (map (lose_num p) [0..<49])) \<and>
    report_ok junk (pk_user p) ([] @ missing [] (map (lose_num p) [0..<49])) (ra_report ra) \<and>
    udp_queues (ra_server ra) = (udp_queues (ra_server r0))(sint (pk_user p) :=
      Some (q @ kept [] (map (lose_num p) [0..<49])))"
    by (rule resend_loop) (use assms in \<open>auto simp: r0_def report_ok_def\<close>)
  moreover have "missing [] ks = ks" for ks by (simp add: missing_def)
  ultimately obtain ra where ra: "rfold (resend_one junk p) [0..<49] r0 = Inr ra" "ra_num ra = 49"
    "length (ra_report ra) = 220"
    using assms(7) by (auto simp: report_ok_def resend_report_size_def)
  have lose: "udpLoseMap (ra_server r') = []" if "rfold (resend_one junk p) is r = Inr r'"
    "udpLoseMap (ra_server r) = []" for "is" r r'
  proof (rule rfold_invariant [where I = "\<lambda>r. udpLoseMap (ra_server r) = []", OF _ that(2,1)])
    fix x t t'
    assume "udpLoseMap (ra_server t) = []" "resend_one junk p x t = Inr t'"
    then show "udpLoseMap (ra_server t') = []"
      by (auto simp: resend_one_def res_simps split: if_splits)
  qed
  have "udpLoseMap (ra_server ra) = []"
    by (rule lose [OF ra(1)]) (simp add: r0_def assms(3))
  then have last: "resend_one junk p 49 ra = Inl OutOfBounds"
    using assms(6) ra by (simp add: resend_one_def wr32_def)
  have "nat (sint (50::i32)) = Suc 49" by simp
  then have "[0..<nat (sint (50::i32))] = [0..<49] @ [49]" by (simp only: upt_Suc_append le0)
  then have "rfold (resend_one junk p) [0..<nat (sint (50::i32))] r0 = Inl OutOfBounds"
    by (simp add: rfold_append ra(1) last)
  then show ?thesis
    using assms(2,5,6) by (simp add: route_resend_def drop_addr_def flip: r0_def)
qed

lemma resend_overflow_witness:
  "route_resend (replicate 220 0) (blit 20 (i32_bytes 50) (sample_report @ replicate 196 0)) two_users
     = Inl OutOfBounds"
proof (rule resend_overflow [OF two_users_inv])
  let ?p = "blit 20 (i32_bytes 50) (sample_report @ replicate 196 0)"
  have len: "length (sample_report @ replicate 196 0) = 224"
    by (simp add: sample_report_fields)
  have "pk_user ?p = pk_user sample_report"
    unfolding pk_user_def using len by (simp add: cells_append_left sample_report_fields)
  then have "sint (pk_user ?p) = 1" by (simp only: sample_report_fields)
  then show "udp_queues two_users (sint (pk_user ?p)) = Some []"
    by (simp add: two_users_udp)
  show "rd32 20 ?p = Inr 50" using len by simp
  show "224 \<le> length ?p" using len by simp
qed (simp_all add: two_users_udp resend_report_size_def)

section \<open>Forgetting\<close>

text \<open>The body of the loop over the kept datagrams, as \<open>each_key\<close> runs it.\<close>

definition expire_visit :: "bool \<Rightarrow> int \<Rightarrow> int \<Rightarrow> server \<Rightarrow> server res" where
  "expire_visit res now k s = rbind (expire_one now k s) (\<lambda>s'.
      if res \<or> k \<in> set (keys (udpLoseMap s')) then Inr s' else Inl DanglingIter)"

lemma map_find_middle:
  "k \<notin> set (keys xs) \<Longrightarrow> map_find k (xs @ (k, b) # ys) = Some b"
  by (induction xs) auto

lemma map_del_middle:
  "k \<notin> set (keys xs) \<Longrightarrow> map_del k (xs @ (k, b) # ys) = xs @ ys"
  by (induction xs) auto

lemma expire_visit_entry:
  assumes "udpLoseMap t = xs @ (k, b) # ys" "distinct (keys (xs @ (k, b) # ys))" "28 \<le> length b"
  shows "expire_visit res now k t = (if now - dg_time b \<le> 2 then Inr t
     else if res then Inr (t\<lparr>udpLoseMap := xs @ ys\<rparr>) else Inl DanglingIter)"
proof -
  have k: "k \<notin> set (keys xs)" "k \<notin> set (keys ys)" using assms(2) by auto
  have "rd64 20 b = Inr (bytes_i64 (cells 20 8 b))" using assms(3) by simp
  then show ?thesis
    using assms(1) k
    by (auto simp: expire_visit_def expire_one_def map_find_middle map_del_middle dg_time_def)
qed

lemma expire_resume:
  assumes "udpLoseMap t = xs @ ys" "distinct (keys (xs @ ys))" "\<forall>(k, b) \<in> set ys. 28 \<le> length b"
  shows "rfold (expire_visit True now) (keys ys) t =
    Inr (t\<lparr>udpLoseMap := xs @ filter (\<lambda>(k, b). now - dg_time b \<le> 2) ys\<rparr>)"
  using assms
proof (induction ys arbitrary: xs t)
  case Nil
  then show ?case by simp
next
  case (Cons y ys)
  obtain k b where y: "y = (k, b)" by (cases y)
  have v: "expire_visit True now k t = (if now - dg_time b \<le> 2 then Inr t
     else Inr (t\<lparr>udpLoseMap := xs @ ys\<rparr>))"
    using expire_visit_entry [of t xs k b ys True now] Cons.prems y by simp
  show ?case
    using Cons.IH [of t "xs @ [y]"] Cons.IH [of "t\<lparr>udpLoseMap := xs @ ys\<rparr>" xs] Cons.prems y v
    by (cases "now - dg_time b \<le> 2") simp_all
qed

lemma expire_strict:
  assumes "udpLoseMap t = xs @ ys" "distinct (keys (xs @ ys))" "\<forall>(k, b) \<in> set ys. 28 \<le> length b"
  shows "rfold (expire_visit False now) (keys ys) t =
    (if \<forall>(k, b) \<in> set ys. now - dg_time b \<le> 2 then Inr t else Inl DanglingIter)"
  using assms
proof (induction ys arbitrary: xs)
  case Nil
  then show ?case by simp
next
  case (Cons y ys)
  obtain k b where y: "y = (k, b)" by (cases y)
  have v: "expire_visit False now k t = (if now - dg_time b \<le> 2 then Inr t else Inl DanglingIter)"
    using expire_visit_entry [of t xs k b ys False now] Cons.prems y by simp
  show ?case
    using Cons.IH [of "xs @ [y]"] Cons.prems y v by (cases "now - dg_time b \<le> 2") simp_all
qed

text \<open>C26: Once every two seconds the datagrams kept for more than two seconds are forgotten and no
  other, provided the loop goes on to the next entry after it erased one. It is not entitled to: it
  erases through the iterator it then increments. Read strictly, the loop is undefined behaviour as
  soon as one datagram is old enough, and without effect otherwise.\<close>

theorem expire_exact:
  assumes "map_ok (udpLoseMap s)" "1 < now - lasttime s"
    and "\<forall>(k, b) \<in> set (udpLoseMap s). 28 \<le> length b"
  shows "cmd_expire True now s = Inr (s\<lparr>lasttime := now,
      udpLoseMap := filter (\<lambda>(k, b). now - dg_time b \<le> 2) (udpLoseMap s)\<rparr>) \<and>
    cmd_expire False now s = (if \<forall>(k, b) \<in> set (udpLoseMap s). now - dg_time b \<le> 2
      then Inr (s\<lparr>lasttime := now\<rparr>) else Inl DanglingIter)"
proof -
  let ?t = "s\<lparr>lasttime := now\<rparr>"
  have d: "distinct (keys (udpLoseMap s))" by (rule map_ok_distinct [OF assms(1)])
  have run: "cmd_expire res now s = rfold (expire_visit res now) (keys (udpLoseMap s)) ?t" for res
    using assms(2) by (simp add: cmd_expire_def each_key_def expire_visit_def [abs_def])
  show ?thesis
    unfolding run
    using expire_resume [of ?t "[]" "udpLoseMap s"] expire_strict [of ?t "[]" "udpLoseMap s"]
      d assms(3)
    by simp
qed

lemma expire_exact_witness:
  "cmd_expire True 10 (two_users\<lparr>udpLoseMap := [(3, replicate 28 0)]\<rparr>) =
     Inr (two_users\<lparr>udpLoseMap := [], lasttime := 10\<rparr>) \<and>
   cmd_expire False 10 (two_users\<lparr>udpLoseMap := [(3, replicate 28 0)]\<rparr>) = Inl DanglingIter"
proof -
  have "bytes_i64 (replicate 8 0) = 0"
    by (simp add: bytes_i64_def eval_nat_numeral)
  then have t: "dg_time (replicate 28 0) = 0" by (simp add: dg_time_def cells_def)
  have l: "lasttime two_users = 0" by (simp add: two_users_simps)
  from expire_exact [of "two_users\<lparr>udpLoseMap := [(3, replicate 28 0)]\<rparr>" 10] l t show ?thesis
    by simp
qed

end
