(* ===== verification/ClientProps.thy ===== *)
theory ClientProps
  imports ClientCmd UdpProps
begin

text \<open>
  Properties of the client: its receiver, and a message from the keyboard of one client to the screen of
  another.
\<close>

section \<open>Messages\<close>

text \<open>C36: However the network cuts up a stream of packets that all have a body, the client's receiver
  hands over exactly the packets of the stream, whole and in order, and never ends the client, as long
  as it is not woken with nothing but one header in the queue.\<close>

theorem client_receives_stream:
  assumes "\<not> ur_recvHeadFlag r" "ur_lengthHasRecv r = 0"
    and "all_ready client_read cl_ready es r []"
    and "\<forall>p \<in> set ps. valid_packet 17 p" and "prefix (arrivals es) (concat ps)"
  shows "\<exists>outs r' rx. frun client_read es r [] = Inr (outs, r', rx) \<and>
     map payload outs = take (length outs) ps \<and>
     arrivals es = concat (map payload outs) @ cl_partial r' @ rx"
proof -
  have "cl_framed r" "cl_partial r = []"
    using assms(1,2) by (simp_all add: cl_framed_def cl_partial_def split: option.split)
  with client_framer.run_frames [of r es "[]" ps] assms(3-5) show ?thesis by auto
qed

lemma client_receives_stream_witness:
  "\<exists>outs r' rx. frun client_read [Arrive (take 18 sample_packet), Readable (replicate block_size 0)]
       (ud_recv (UserData 0 0 0 0 [])) [] = Inr (outs, r', rx) \<and>
     map payload outs = take (length outs) [sample_packet]"
proof -
  have "all_ready client_read cl_ready [Arrive (take 18 sample_packet),
      Readable (replicate block_size 0)] (ud_recv (UserData 0 0 0 0 [])) []"
    by (simp add: cl_ready_def sample_packet_bytes split: sum.split)
  moreover have "prefix (arrivals [Arrive (take 18 sample_packet), Readable (replicate block_size 0)])
      (concat [sample_packet])"
    by (simp add: take_is_prefix)
  moreover have "valid_packet 17 sample_packet"
    using valid_sample_packet by (simp add: valid_packet_def sample_packet_bytes)
  ultimately show ?thesis
    using client_receives_stream [of "ud_recv (UserData 0 0 0 0 [])"
        "[Arrive (take 18 sample_packet), Readable (replicate block_size 0)]" "[sample_packet]"]
    by (auto simp: UserData_def)
qed

text \<open>The block that \<open>fill_chat\<close> makes.\<close>

lemma drop_blit_upto:
  "off + length s \<le> length b \<Longrightarrow> drop off (blit off s b) = s @ drop (off + length s) b"
  by (simp add: blit_def)

lemma drop_blit_before:
  "o' + length s \<le> off \<Longrightarrow> off \<le> length b \<Longrightarrow> drop off (blit o' s b) = drop off b"
  by (simp add: blit_def)

definition chat_block :: "block \<Rightarrow> block \<Rightarrow> int \<Rightarrow> i32 option \<Rightarrow> cmdId \<Rightarrow> block" where
  "chat_block junk txt uid to c =
     (let b = blit 8 (i32_bytes (word_of_nat (21 + length txt)))
                (blit 4 (i32_bytes (word_of_int uid)) (blit 12 (i32_bytes 1) (blit 20 (txt @ [0]) junk)));
          b = (case to of None \<Rightarrow> b | Some w \<Rightarrow> blit 16 (i32_bytes w) b)
      in blit 0 (i32_bytes (word_of_int (cmd_num c))) b)"

lemma fill_chat_eq:
  assumes "length junk = block_size" "0 \<notin> set txt" "length txt \<le> 1415"
  shows "fill_chat junk txt uid to c = Inr (chat_block junk txt uid to c, int (21 + length txt))"
proof -
  let ?b = "blit 20 (txt @ [0]) junk"
  have l: "length ?b = 1436" using assms by (simp add: block_size_def)
  have "drop 20 (blit 4 (i32_bytes (word_of_int uid)) (blit 12 (i32_bytes 1) ?b)) =
      (txt @ [0]) @ drop (20 + length (txt @ [0])) junk"
    using assms l by (simp add: drop_blit_before drop_blit_upto block_size_def)
  then have s: "c_strlen (drop 20 (blit 4 (i32_bytes (word_of_int uid)) (blit 12 (i32_bytes 1) ?b))) =
      Inr (length txt)"
    using assms(2) by simp
  show ?thesis
    using assms l s
    by (simp add: fill_chat_def chat_block_def block_size_def Let_def ac_simps split: option.split)
qed

lemma chat_block_fields:
  assumes "length junk = block_size" "0 \<notin> set txt" "length txt \<le> 1415"
  shows "length (chat_block junk txt uid (Some to) c) = block_size"
    and "pk_cmd (chat_block junk txt uid (Some to) c) = Some c"
    and "pk_user (chat_block junk txt uid (Some to) c) = word_of_int uid"
    and "pk_peer (chat_block junk txt uid (Some to) c) = to"
    and "hdr_length (chat_block junk txt uid (Some to) c) = int (21 + length txt)"
    and "cells 20 (1 + length txt) (chat_block junk txt uid (Some to) c) = txt @ [0]"
proof -
  have l: "length junk = 1436" using assms(1) by (simp add: block_size_def)
  have n: "sint (word_of_nat (21 + length txt) :: i32) = int (21 + length txt)"
    by (rule sint_word_of_nat) (use assms(3) in simp)
  have cmd: "cmd_of (sint (word_of_int (cmd_num c) :: i32)) = Some c"
    by (cases c) (simp_all add: cmd_num_def cmd_of_def all_cmds_def)
  show "length (chat_block junk txt uid (Some to) c) = block_size"
    using l assms(3) by (simp add: chat_block_def block_size_def)
  have "cells 0 4 (chat_block junk txt uid (Some to) c) = i32_bytes (word_of_int (cmd_num c))"
    unfolding chat_block_def Let_def option.case
    using l assms(3) by (intro cells_blit_same) simp_all
  then show "pk_cmd (chat_block junk txt uid (Some to) c) = Some c"
    by (simp only: pk_cmd_def bytes_i32_bytes cmd)
  show "pk_user (chat_block junk txt uid (Some to) c) = word_of_int uid"
    "pk_peer (chat_block junk txt uid (Some to) c) = to"
    "cells 20 (1 + length txt) (chat_block junk txt uid (Some to) c) = txt @ [0]"
    using l assms(3) by (simp_all add: pk_user_def pk_peer_def chat_block_def Let_def)
  have "cells 8 4 (chat_block junk txt uid (Some to) c) = i32_bytes (word_of_nat (21 + length txt))"
    using l assms(3) by (simp add: chat_block_def Let_def)
  then show "hdr_length (chat_block junk txt uid (Some to) c) = int (21 + length txt)"
    using n by (simp only: hdr_length_def bytes_i32_bytes)
qed

text \<open>What one user types is what the other reads: a private message of at most 1415 bytes typed
  into the menu makes a packet that the server takes (its length field is right, its command, sender
  and receiver are the ones meant); and when that packet, with the sender's id put in by the server, is
  handed to the other client, the text appears on the screen with the sender's id.\<close>

theorem typed_message_is_shown:
  assumes "length junk = block_size" "0 \<notin> set txt" "length txt \<le> 1415"
    and "sint (word_of_int (ud_userId u) :: i32) = ud_userId u"
  shows "\<exists>u' b p. printCmdIdList junk CHR ''1'' txt to u = Inr u' \<and> ud_sendbuff u' = BufLive b \<and>
     p = take (nat (remainLengthofSend u')) b \<and> valid_packet 17 p \<and> pk_cmd p = Some SENDtoONE \<and>
     pk_peer p = to \<and> sint (pk_user p) = ud_userId u \<and>
     (\<forall>junk' rj ans now cl. length junk' = block_size \<longrightarrow>
        dealWithMessage rj ans now (blit 0 (stamped p) junk') cl =
          Inr (cl\<lparr>shown := shown cl @ [(ud_userId u, txt)]\<rparr>))"
proof -
  let ?b = "chat_block junk txt (ud_userId u) (Some to) SENDtoONE"
  let ?u = "put_send ?b (int (21 + length txt)) (get_send junk u)"
  define p where "p = take (21 + length txt) ?b"
  note f = chat_block_fields [OF assms(1-3), of "ud_userId u" to SENDtoONE]
  have run: "printCmdIdList junk CHR ''1'' txt to u = Inr ?u"
    by (simp add: printCmdIdList_def fill_chat_eq [OF assms(1-3)])
  have lp: "length p = 21 + length txt"
    using f(1) assms(3) by (simp add: p_def block_size_def)
  have h: "hdr_length p = int (length p)"
    using f(5) lp by (simp add: p_def hdr_length_take)
  have v: "valid_packet 17 p"
    using lp h assms(3) by (simp add: valid_packet_def block_size_def)
  have pk: "pk_cmd p = Some SENDtoONE" "pk_peer p = to" "pk_user p = word_of_int (ud_userId u)"
    using f(2-4) by (simp_all add: p_def pk_cmd_def pk_peer_def pk_user_def cells_take min_absorb1)
  have body: "cells 20 (1 + length txt) p = txt @ [0]"
    using f(6) by (simp add: p_def cells_take)
  have pay: "payload p = p" by (simp add: payload_def h)
  have shown: "dealWithMessage rj ans now (blit 0 (stamped p) junk') cl =
      Inr (cl\<lparr>shown := shown cl @ [(ud_userId u, txt)]\<rparr>)" if j: "length junk' = block_size"
    for junk' rj ans now cl
  proof -
    let ?m = "blit 0 (stamped p) junk'"
    have ls: "length (stamped p) = length p" using lp by (simp add: stamped_def pay)
    have lm: "length ?m = 1436" using ls lp j assms(3) by (simp add: block_size_def)
    have c0: "cells 0 4 ?m = cells 0 4 p"
      using ls lp by (simp add: take_blit_0 stamped_def pay)
    have c16: "cells 16 4 ?m = i32_bytes (pk_user p)"
      using ls lp by (simp add: cells_blit_inside) (simp add: stamped_def pay)
    have "drop 20 (stamped p) = drop 20 p" using lp by (simp add: stamped_def pay drop_blit_before)
    also have "\<dots> = txt @ [0]" using body lp by (simp add: cells_def)
    finally have "drop 20 ?m = txt @ 0 # drop (length p) junk'"
      using ls lp by (simp add: blit_def)
    then have str: "c_str (drop 20 ?m) = Inr txt" using assms(2) by simp
    have "rd32 0 ?m = Inr (bytes_i32 (cells 0 4 p))"
      using lm c0 by (subst rd32_Inr) simp_all
    moreover have "cmd_of (sint (bytes_i32 (cells 0 4 p))) = Some SENDtoONE"
      using pk(1) by (simp add: pk_cmd_def)
    moreover have "rd32 16 ?m = Inr (word_of_int (ud_userId u))"
      using lm c16 pk(3) by (subst rd32_Inr) simp_all
    ultimately show ?thesis
      using str assms(4) by (simp add: dealWithMessage_def show_message_def)
  qed
  have n: "nat (int (21 + length txt)) = 21 + length txt" by (rule nat_int)
  have "ud_sendbuff ?u = BufLive ?b" "p = take (nat (remainLengthofSend ?u)) ?b"
    unfolding p_def by (simp_all add: put_send_def n del: of_nat_add)
  moreover have "sint (pk_user p) = ud_userId u" using pk(3) assms(4) by simp
  ultimately show ?thesis
    using run v pk(1,2) shown by blast
qed

lemma typed_message_is_shown_witness:
  "\<exists>u' b. printCmdIdList (replicate block_size 0) CHR ''1'' (str_bytes ''hi'') 7
       ((UserData 3 0 0 0 [])) = Inr u' \<and> ud_sendbuff u' = BufLive b \<and>
     (\<forall>rj ans now cl. dealWithMessage rj ans now (blit 0 (stamped (take 23 b)) (replicate block_size 0)) cl =
        Inr (cl\<lparr>shown := shown cl @ [(3, str_bytes ''hi'')]\<rparr>))"
proof -
  have z: "0 \<notin> set (str_bytes ''hi'')" "length (str_bytes ''hi'') = 2" by (simp_all add: str_bytes_def)
  have uid: "ud_userId (UserData 3 0 0 0 []) = 3" by (simp add: UserData_def)
  let ?u = "put_send (chat_block (replicate block_size 0) (str_bytes ''hi'') 3 (Some 7) SENDtoONE) 23
      (get_send (replicate block_size 0) (UserData 3 0 0 0 []))"
  have run: "printCmdIdList (replicate block_size 0) CHR ''1'' (str_bytes ''hi'') 7 (UserData 3 0 0 0 []) = Inr ?u"
    using fill_chat_eq [of "replicate block_size 0" "str_bytes ''hi''" 3 "Some 7" SENDtoONE] z
    by (simp add: printCmdIdList_def uid)
  have rem: "remainLengthofSend ?u = 23" by (simp add: put_send_def)
  from typed_message_is_shown [of "replicate block_size 0" "str_bytes ''hi''" "UserData 3 0 0 0 []" 7]
  obtain u' b p where "printCmdIdList (replicate block_size 0) CHR ''1'' (str_bytes ''hi'') 7
       (UserData 3 0 0 0 []) = Inr u'" "ud_sendbuff u' = BufLive b"
     "p = take (nat (remainLengthofSend u')) b"
     "\<forall>junk' rj ans now cl. length junk' = block_size \<longrightarrow>
        dealWithMessage rj ans now (blit 0 (stamped p) junk') cl =
          Inr (cl\<lparr>shown := shown cl @ [(3, str_bytes ''hi'')]\<rparr>)"
    using z uid by auto
  moreover from this(1) run have "u' = ?u" by simp
  ultimately show ?thesis using rem by auto
qed

end
