(* ===== verification/ChatProps.thy ===== *)
theory ChatProps
  imports ClientProps
begin

text \<open>
  A message all the way: typed at one client, through its socket, the three threads of the server and the
  socket of the other client onto its screen.
\<close>

section \<open>The two ends\<close>

lemma cl_send_loop_all:
  "\<forall>n \<in> set rs. 0 < n \<Longrightarrow> sum_list rs = remain \<Longrightarrow> 0 \<le> has \<Longrightarrow> has + remain \<le> int (length b) \<Longrightarrow>
   cl_send_loop rs b has remain out = Inr (Some (out @ cells (nat has) (nat remain) b))"
proof (induction rs arbitrary: has remain out)
  case Nil
  then show ?case by (simp add: cl_send_loop.simps cells_def)
next
  case (Cons n rs)
  have n: "0 < n" "sum_list rs = remain - n" using Cons.prems by auto
  have "0 \<le> sum_list rs" using Cons.prems(1) by (intro sum_list_nonneg) auto
  then have r: "0 < remain" "0 \<le> remain - n" using n by auto
  have "nat remain = nat n + nat (remain - n)" "nat (has + n) = nat has + nat n"
    using n r Cons.prems(3) by simp_all
  then have "cells (nat has) (nat n) b @ cells (nat (has + n)) (nat (remain - n)) b = cells (nat has) (nat remain) b"
    by (simp only: cells_add)
  moreover have "cl_send_loop rs b (has + n) (remain - n) (out @ cells (nat has) (nat n) b) =
      Inr (Some ((out @ cells (nat has) (nat n) b) @ cells (nat (has + n)) (nat (remain - n)) b))"
    using Cons.prems n by (intro Cons.IH) auto
  ultimately show ?case
    using r n Cons.prems by (subst cl_send_loop.simps) simp
qed

lemma cl_step_whole:
  assumes r: "\<not> ur_recvHeadFlag r" "ur_lengthHasRecv r = 0"
    and p: "17 \<le> length p" "length p \<le> block_size" "hdr_length p = int (length p)" and j: "length junk = block_size"
  shows "\<exists>r'. cl_step junk r p eof = Inr (r', [], [blit 0 p junk])"
proof -
  note w = whole_packet [OF p j]
  let ?r = "(get_recv (blit 0 (take 16 p) junk) r)\<lparr>ur_totalLengthOfData := int (length p),
      ur_remainLengthtoRecv := int (length p) - 16, ur_recvHeadFlag := True\<rparr>"
  have hd: "cl_head junk r p eof = Inr (?r, drop 16 p)"
    using p(1) w(1-4) by (simp add: cl_head_def header_size_def min_absorb2)
  have "\<exists>r'. cl_body ?r (drop 16 p) eof = Inr (r', [], [blit 0 p junk])"
    using p(1) w(5,6) r(2) by (simp add: cl_body_def get_recv_def of_nat_diff Let_def)
  then show ?thesis
    using r(1) p(1) hd by (auto simp: cl_step_def header_size_def k_fionread_def)
qed

section \<open>From screen to screen\<close>

text \<open>C1: A chat message goes from one screen to another. A text of at most 1415 bytes is typed for a user
  who is logged in; the sender's client writes it to its socket in pieces of any size; when it has arrived
  at the server, a read event, a pass of the router and a write event put it on the other user's socket;
  and when it has arrived there, a read event and a pass of the client's loop show the text with the
  sender's id. No step on the way stops a program.\<close>

theorem chat_end_to_end:
  assumes "length j1 = block_size" "0 \<notin> set txt" "length txt \<le> 1415"
    and "ud_userId (cl_user A) = i" "i \<noteq> 0" "sint (word_of_int i :: i32) = i" "lengthHasSend (cl_user A) = 0"
    and "\<forall>n \<in> set rs. 0 < n" "sum_list rs = int (21 + length txt)"
    and S: "map_find fd (io_map s) = Some a" "users s a = Some u" "\<not> m_recvHeadFlag (m_recv u)"
      "packList s = CList 0" "length j2 = block_size"
    and to: "map_find (sint to) (cmd_map s) = Some b" "map_find fd' (io_map s) = Some b"
      "users s b = Some v" "send_ok (m_send v)" "m_position (m_send v) = 0"
    and B: "\<not> ur_recvHeadFlag (ud_recv (cl_user B))" "ur_lengthHasRecv (ud_recv (cl_user B)) = 0"
      "m_readList B = SaveList 0" "length j4 = block_size"
  shows "\<exists>uA A' p s1 s2 s3 d B1 B2.
     printCmdIdList j1 CHR ''1'' txt to (cl_user A) = Inr uA \<and>
     cl_writable rs (A\<lparr>cl_user := uA\<rparr>) = Inr (Some A') \<and> cl_out A' = cl_out A @ p \<and>
     epollRead fd j2 (s\<lparr>sock_rx := (sock_rx s)(fd := p)\<rparr>) = Inr s1 \<and>
     cmd_route j3 now s1 = Inr (s2, 40) \<and>
     io_out fd' (int (length p)) s2 = Inr s3 \<and> outbox s3 = outbox s @ [(fd', d)] \<and>
     cl_readable j4 (B\<lparr>cl_rx := d\<rparr>) = Inr B1 \<and> take_message j5 ans now' B1 = Inr B2 \<and>
     shown B2 = shown B @ [(i, txt)]"
proof -
  from typed_message_is_shown [OF assms(1-3), of "cl_user A" to] assms(4,6) obtain uA blk p where
    typed: "printCmdIdList j1 CHR ''1'' txt to (cl_user A) = Inr uA" "ud_sendbuff uA = BufLive blk"
      "p = take (nat (remainLengthofSend uA)) blk" "valid_packet 17 p" "pk_cmd p = Some SENDtoONE"
      "pk_peer p = to" "sint (pk_user p) = i"
    and shown: "\<And>junk' rj ans now cl. length junk' = block_size \<Longrightarrow>
        dealWithMessage rj ans now (blit 0 (stamped p) junk') cl = Inr (cl\<lparr>shown := shown cl @ [(i, txt)]\<rparr>)"
    by blast
  have uA: "lengthHasSend uA = 0" "remainLengthofSend uA = int (21 + length txt)" "block_size = length blk"
    using typed(1,2) assms(1-3,7) chat_block_fields(1) [OF assms(1-3)]
    by (auto simp: printCmdIdList_def fill_chat_eq put_send_def get_send_def)
  have p: "length p = 21 + length txt" "length p \<le> block_size" "hdr_length p = int (length p)"
    using typed(3,4) uA assms(3) by (auto simp: valid_packet_def block_size_def)
  have "cl_send_loop rs blk 0 (int (21 + length txt)) [] = Inr (Some p)"
    using cl_send_loop_all [OF assms(8,9), of 0 blk "[]"] uA typed(3) assms(3)
    by (simp add: block_size_def)
  then obtain A' where A': "cl_writable rs (A\<lparr>cl_user := uA\<rparr>) = Inr (Some A')" "cl_out A' = cl_out A @ p"
    using typed(2) uA by (auto simp: cl_writable_def Let_def)
  let ?s = "s\<lparr>sock_rx := (sock_rx s)(fd := p)\<rparr>"
  have "\<exists>s1 s2 s3. epollRead fd j2 ?s = Inr s1 \<and> cmd_route j3 now s1 = Inr (s2, 40) \<and>
      io_out fd' (int (length p)) s2 = Inr s3 \<and> outbox s3 = outbox ?s @ [(fd', stamped p)]"
    using S to typed(5-7) p assms(5) by (intro private_message [where a = a and b = b and u = u and v = v]) simp_all
  then obtain s1 s2 s3 where server: "epollRead fd j2 ?s = Inr s1" "cmd_route j3 now s1 = Inr (s2, 40)"
      "io_out fd' (int (length p)) s2 = Inr s3" "outbox s3 = outbox s @ [(fd', stamped p)]"
    by auto
  have d: "17 \<le> length (stamped p)" "length (stamped p) \<le> block_size"
      "hdr_length (stamped p) = int (length (stamped p))"
    using p by (simp_all add: stamped_def payload_def hdr_length_def)
  obtain r' where "cl_step j4 (ud_recv (cl_user B)) (stamped p) (cl_eof B) = Inr (r', [], [blit 0 (stamped p) j4])"
    using cl_step_whole [OF B(1,2) d B(4)] by blast
  then obtain B1 where B1: "cl_readable j4 (B\<lparr>cl_rx := stamped p\<rparr>) = Inr B1" "shown B1 = shown B"
      "m_readList B1 = pack_push (blit 0 (stamped p) j4) (SaveList 0)"
    using stamped_not_empty [of p] B(3) by (simp add: cl_readable_def k_fionread_def)
  then have "\<exists>B2. take_message j5 ans now' B1 = Inr B2 \<and> shown B2 = shown B @ [(i, txt)]"
    using shown [OF B(4)]
    by (simp add: take_message_def SaveList_def pack_push_def pack_pop_def sl_getPackSize_def)
  with typed(1) A' server B1(1) show ?thesis by blast
qed

text \<open>User 1 on connection 5 writes ``hi'' to user 7 on connection 6, in two pieces.\<close>

theorem chat_end_to_end_witness:
  "\<exists>uA A' p s1 s2 s3 d B1 B2.
     printCmdIdList (replicate block_size 0) CHR ''1'' (str_bytes ''hi'') 7 (UserData 1 0 0 0 []) = Inr uA \<and>
     cl_writable [20, 3] ((client_init (UserData 1 0 0 0 []) 0 0 0 (\<lambda>_. None))\<lparr>cl_user := uA\<rparr>) = Inr (Some A') \<and>
     cl_out A' = p \<and>
     epollRead 5 (replicate block_size 0) (two_users\<lparr>sock_rx := (sock_rx two_users)(5 := p)\<rparr>) = Inr s1 \<and>
     cmd_route [] 0 s1 = Inr (s2, 40) \<and> io_out 6 (int (length p)) s2 = Inr s3 \<and>
     outbox s3 = outbox two_users @ [(6, d)] \<and>
     cl_readable (replicate block_size 0)
       ((client_init (UserData 7 0 0 0 []) 0 0 0 (\<lambda>_. None))\<lparr>cl_rx := d\<rparr>) = Inr B1 \<and>
     take_message [] CHR ''y'' 0 B1 = Inr B2 \<and> shown B2 = [(1, str_bytes ''hi'')]"
proof -
  let ?A = "client_init (UserData 1 0 0 0 []) 0 0 0 (\<lambda>_. None)"
  let ?B = "client_init (UserData 7 0 0 0 []) 0 0 0 (\<lambda>_. None)"
  have hi: "0 \<notin> set (str_bytes ''hi'')" "length (str_bytes ''hi'') = 2" by (simp_all add: str_bytes_def)
  have ok: "send_ok (m_send (sample_user uid fd))" for uid fd
    by (simp add: two_users_simps send_ok_def)
  from chat_end_to_end [of "replicate block_size 0" "str_bytes ''hi''" ?A 1 "[20, 3]" 5 two_users 1 "sample_user 1 5"
      "replicate block_size 0" 7 2 6 "sample_user 7 6" ?B "replicate block_size 0" "[]" 0 "[]" "CHR ''y''" 0] hi ok
  show ?thesis
    by (simp add: client_init_def UserData_def two_users_simps CCmdRecv_def)
qed

end
