(* ===== verification/FileProps.thy ===== *)
theory FileProps
  imports ClientProps
begin

text \<open>
  Files over datagrams between two clients: what the receiver writes whatever the order and the losses,
  what the sender cuts the file into, and both together.
\<close>

section \<open>Datagrams\<close>

definition dg_data :: "block \<Rightarrow> block" where
  "dg_data p = cells 46 (nat (hdr_length p - 46)) p"

definition dg_cnt :: "block \<Rightarrow> int" where
  "dg_cnt p = sint (dg_count p)"

definition dg_size :: "block \<Rightarrow> int" where
  "dg_size p = sint (bytes_i32 (cells 32 4 p))"

definition dg_ok :: "int \<Rightarrow> block \<Rightarrow> bool" where
  "dg_ok fsz p \<longleftrightarrow> length p = block_size \<and> 46 \<le> hdr_length p \<and> hdr_length p \<le> int block_size \<and>
     1 \<le> dg_cnt p \<and> dg_size p = fsz"

lemma length_dg_data: "dg_ok fsz p \<Longrightarrow> int (length (dg_data p)) = hdr_length p - 46"
  by (auto simp: dg_ok_def dg_data_def block_size_def min_def)

text \<open>The first datagram of every count that is not in \<open>seen\<close>.\<close>

fun firsts :: "int set \<Rightarrow> block list \<Rightarrow> block list" where
  "firsts seen [] = []"
| "firsts seen (p # ps) =
     (if dg_cnt p \<in> seen then firsts seen ps else p # firsts (insert (dg_cnt p) seen) ps)"

definition data_size :: "block list \<Rightarrow> int" where
  "data_size ps = (\<Sum>p \<leftarrow> ps. int (length (dg_data p)))"

lemma data_size_simps [simp]:
  "data_size [] = 0" "data_size (p # ps) = int (length (dg_data p)) + data_size ps"
  by (simp_all add: data_size_def)

lemma data_size_nonneg: "0 \<le> data_size ps"
  by (induction ps) auto

lemma data_size_concat: "data_size ps = int (length (concat (map dg_data ps)))"
  by (induction ps) simp_all

section \<open>The receiver\<close>

lemma set_keys_fold_put:
  "set (keys (fold (\<lambda>i. map_put i v) is m)) = set (keys m) \<union> set is"
  by (induction "is" arbitrary: m) (auto simp del: set_map)

lemma map_ok_fold_put: "map_ok m \<Longrightarrow> map_ok (fold (\<lambda>i. map_put i v) is m)"
  by (induction "is" arbitrary: m) (auto simp: map_ok_map_put)

lemma mark_missing_keys:
  "set (keys (mark_missing lo hi uid m)) = set (keys m) \<union> {lo..hi - 1}"
  by (simp only: mark_missing_def set_keys_fold_put set_upto)

lemma map_ok_mark_missing: "map_ok m \<Longrightarrow> map_ok (mark_missing lo hi uid m)"
  by (simp add: mark_missing_def map_ok_fold_put)

text \<open>An open file, with what it holds.\<close>

definition writing :: "block \<Rightarrow> block \<Rightarrow> client \<Rightarrow> bool" where
  "writing path c cl \<longleftrightarrow> (\<exists>f. ud_pf (cl_user cl) = PfOpen f \<and> fs_append f \<and> fs_path f = path) \<and>
     cl_disk cl path = Some c"

lemma writeFile_effect:
  assumes w: "writing path c cl" and p: "dg_ok fsz p"
  shows "\<exists>cl'. writeFile k p cl = Inr cl' \<and> cl_disk cl' = (cl_disk cl)(path \<mapsto> c @ dg_data p) \<and>
    nowPackNum cl' = nowPackNum cl \<and> m_udpMap cl' = m_udpMap cl \<and>
    (if recvFileSize (cl_user cl) + int (length (dg_data p)) = fsz
     then ud_pf (cl_user cl') = PfClosed \<and> recvFileSize (cl_user cl') = 0
     else writing path (c @ dg_data p) cl' \<and>
       recvFileSize (cl_user cl') = recvFileSize (cl_user cl) + int (length (dg_data p)))"
proof -
  from w obtain f where f: "ud_pf (cl_user cl) = PfOpen f" "fs_append f" "fs_path f = path"
    and d: "cl_disk cl path = Some c"
    by (auto simp: writing_def)
  let ?g = "f_seek (1390 * (k - 1)) f"
  have g: "fs_append ?g" "fs_path ?g = path" using f by (simp_all add: f_seek_def)
  obtain h where h: "f_write (dg_data p) ?g (cl_disk cl) = (h, (cl_disk cl)(path \<mapsto> c @ dg_data p))"
    "fs_append h" "fs_path h = path"
    using f_write_append [OF g(1), of "dg_data p" "cl_disk cl"] g d
    by (cases "f_write (dg_data p) ?g (cl_disk cl)") (auto simp: f_data_def f_write_def Let_def)
  have l: "length p = 1436" "46 \<le> hdr_length p" "hdr_length p \<le> 1436"
    using p by (simp_all add: dg_ok_def block_size_def)
  have n: "int (length (dg_data p)) = hdr_length p - 46" by (rule length_dg_data [OF p])
  have wr: "write_contents 46 (hdr_length p - 46) p ?g (cl_disk cl) = Inr (h, (cl_disk cl)(path \<mapsto> c @ dg_data p))"
    using l h(1) by (simp add: write_contents_def dg_data_def)
  have sz: "sint (bytes_i32 (cells 32 4 p)) = fsz" using p by (simp add: dg_ok_def dg_size_def)
  have "writeFile k p cl = Inr (cl\<lparr>cl_user := count_received (hdr_length p - 46) fsz h
      ((cl_user cl)\<lparr>recvFileCount := recvFileCount (cl_user cl) + 1\<rparr>),
      cl_disk := (cl_disk cl)(path \<mapsto> c @ dg_data p)\<rparr>)"
    using l f(1) wr by (simp add: writeFile_def f_stream_def sz Let_def flip: hdr_length_def)
  then show ?thesis
    using h n by (auto simp: count_received_def writing_def)
qed

text \<open>What the receiver knows: \<open>seen\<close> are the counts written, and the map holds the others below.\<close>

definition tracking :: "int set \<Rightarrow> client \<Rightarrow> bool" where
  "tracking seen cl \<longleftrightarrow> map_ok (m_udpMap cl) \<and> 0 \<le> nowPackNum cl \<and> seen \<subseteq> {1..nowPackNum cl} \<and>
     set (keys (m_udpMap cl)) = {1..nowPackNum cl} - seen"

text \<open>A datagram that is written: the file grows by its data, and what is known of the missing
  datagrams is what the caller left in the map.\<close>

lemma write_tracked:
  assumes w: "writing path c cl" and p: "dg_ok fsz p" and m: "map_ok m" "0 \<le> n"
    and seen: "insert (dg_cnt p) seen \<subseteq> {1..n}" "set (keys m) = {1..n} - insert (dg_cnt p) seen"
  shows "\<exists>cl'. writeFile (dg_cnt p) p (cl\<lparr>m_udpMap := m, nowPackNum := n\<rparr>) = Inr cl' \<and>
    tracking (insert (dg_cnt p) seen) cl' \<and> nowPackNum cl' = n \<and>
    cl_disk cl' = (cl_disk cl)(path \<mapsto> c @ dg_data p) \<and>
    (if recvFileSize (cl_user cl) + int (length (dg_data p)) = fsz
     then ud_pf (cl_user cl') = PfClosed \<and> recvFileSize (cl_user cl') = 0
     else writing path (c @ dg_data p) cl' \<and>
       recvFileSize (cl_user cl') = recvFileSize (cl_user cl) + int (length (dg_data p)))"
proof -
  have "writing path c (cl\<lparr>m_udpMap := m, nowPackNum := n\<rparr>)" using w by (simp add: writing_def)
  from writeFile_effect [OF this p, of "dg_cnt p"] show ?thesis
    using m seen by (auto simp: tracking_def simp del: set_map)
qed

lemma recv_datagram_effect:
  assumes w: "writing path c cl" and p: "dg_ok fsz p" and t: "tracking seen cl"
  shows "\<exists>cl'. recv_datagram p cl = Inr cl' \<and> tracking (insert (dg_cnt p) seen) cl' \<and>
    nowPackNum cl' = max (nowPackNum cl) (dg_cnt p) \<and>
    (if dg_cnt p \<in> seen then cl' = cl
     else cl_disk cl' = (cl_disk cl)(path \<mapsto> c @ dg_data p) \<and>
      (if recvFileSize (cl_user cl) + int (length (dg_data p)) = fsz
       then ud_pf (cl_user cl') = PfClosed \<and> recvFileSize (cl_user cl') = 0
       else writing path (c @ dg_data p) cl' \<and>
         recvFileSize (cl_user cl') = recvFileSize (cl_user cl) + int (length (dg_data p))))"
proof -
  let ?k = "dg_cnt p" and ?now = "nowPackNum cl"
  from t have m: "map_ok (m_udpMap cl)" "0 \<le> ?now" "seen \<subseteq> {1..?now}"
    "set (keys (m_udpMap cl)) = {1..?now} - seen"
    by (simp_all add: tracking_def)
  have k: "1 \<le> ?k" using p by (simp add: dg_ok_def)
  have rd: "rd32 16 p = Inr (dg_count p)" "rd32 4 p = Inr (pk_user p)"
    using p by (simp_all add: dg_ok_def dg_count_def pk_user_def block_size_def)
  have run: "recv_datagram p cl = (if ?k \<le> ?now
     then if map_find ?k (m_udpMap cl) = None then Inr cl
          else writeFile ?k p (cl\<lparr>m_udpMap := map_del ?k (m_udpMap cl)\<rparr>)
     else if ?k = ?now + 1 then writeFile ?k p (cl\<lparr>nowPackNum := ?k\<rparr>)
     else writeFile ?k p (cl\<lparr>m_udpMap := mark_missing (?now + 1) ?k (sint (pk_user p)) (m_udpMap cl),
            nowPackNum := ?k\<rparr>))"
    by (auto simp: recv_datagram_def rd dg_cnt_def Let_def)
  have same: "cl\<lparr>m_udpMap := x\<rparr> = cl\<lparr>m_udpMap := x, nowPackNum := ?now\<rparr>"
    "cl\<lparr>nowPackNum := y\<rparr> = cl\<lparr>m_udpMap := m_udpMap cl, nowPackNum := y\<rparr>" for x y
    by simp_all
  have step: ?thesis
    if "recv_datagram p cl = writeFile ?k p (cl\<lparr>m_udpMap := m', nowPackNum := n'\<rparr>)" "?k \<notin> seen"
      "n' = max ?now ?k" "map_ok m'" "set (keys m') = {1..n'} - insert ?k seen" for m' n'
  proof -
    have "0 \<le> n'" "insert ?k seen \<subseteq> {1..n'}" using m(2,3) k that(3) by (simp, force)
    from write_tracked [OF w p that(4) this that(5)] that(1-3) show ?thesis
      by (simp cong: if_cong split del: if_split)
  qed
  consider "?k \<in> seen" | "?k \<notin> seen" "?k \<le> ?now" | "?k \<notin> seen" "?k = ?now + 1"
    | "?k \<notin> seen" "?now + 1 < ?k"
    using m(3) by fastforce
  then show ?thesis
  proof cases
    case 1
    then have "map_find ?k (m_udpMap cl) = None" "?k \<le> ?now"
      using m by (auto simp: map_find_eq_None_iff simp del: set_map)
    then show ?thesis using run 1 t by (simp add: insert_absorb max_def)
  next
    case 2
    then have "map_find ?k (m_udpMap cl) \<noteq> None"
      using m(4) k by (simp add: map_find_eq_None_iff del: set_map)
    moreover have "set (keys (map_del ?k (m_udpMap cl))) = {1..?now} - insert ?k seen"
      using m set_keys_map_del [OF m(1), of ?k] by auto
    ultimately show ?thesis
      using step [where m' = "map_del ?k (m_udpMap cl)" and n' = ?now] run 2 m(1) same(1) by (auto simp: map_ok_map_del)
  next
    case 3
    have "{1..?now} - seen = {1..?k} - insert ?k seen" using 3 k m(2) by auto
    then show ?thesis
      using step [where m' = "m_udpMap cl" and n' = ?k] run 3 m by (simp del: set_map)
  next
    case 4
    let ?m = "mark_missing (?now + 1) ?k (sint (pk_user p)) (m_udpMap cl)"
    have "set (keys ?m) = ({1..?now} - seen) \<union> {?now + 1..?k - 1}"
      by (simp only: mark_missing_keys m(4))
    also have "\<dots> = {1..?k} - insert ?k seen"
      using m(2,3) 4 by auto
    finally show ?thesis
      using step [where m' = ?m and n' = ?k] run m(1) 4 by (simp add: map_ok_mark_missing del: set_map)
  qed
qed

lemma recv_run:
  assumes "writing path c cl" "tracking seen cl" "\<forall>p \<in> set ps. dg_ok fsz p"
    and "recvFileSize (cl_user cl) + data_size (firsts seen ps) < fsz"
  shows "\<exists>cl'. rfold recv_datagram ps cl = Inr cl' \<and>
    writing path (c @ concat (map dg_data (firsts seen ps))) cl' \<and>
    tracking (seen \<union> dg_cnt ` set ps) cl' \<and>
    recvFileSize (cl_user cl') = recvFileSize (cl_user cl) + data_size (firsts seen ps) \<and>
    nowPackNum cl' = fold max (map dg_cnt ps) (nowPackNum cl)"
  using assms
proof (induction ps arbitrary: c cl seen)
  case Nil
  then show ?case by simp
next
  case (Cons p ps)
  have p: "dg_ok fsz p" and ps: "\<forall>p \<in> set ps. dg_ok fsz p" using Cons.prems(3) by simp_all
  from recv_datagram_effect [OF Cons.prems(1) p Cons.prems(2)] obtain cl1 where
    1: "recv_datagram p cl = Inr cl1" "tracking (insert (dg_cnt p) seen) cl1"
      "nowPackNum cl1 = max (nowPackNum cl) (dg_cnt p)"
      "if dg_cnt p \<in> seen then cl1 = cl
     else cl_disk cl1 = (cl_disk cl)(path \<mapsto> c @ dg_data p) \<and>
      (if recvFileSize (cl_user cl) + int (length (dg_data p)) = fsz
       then ud_pf (cl_user cl1) = PfClosed \<and> recvFileSize (cl_user cl1) = 0
       else writing path (c @ dg_data p) cl1 \<and>
         recvFileSize (cl_user cl1) = recvFileSize (cl_user cl) + int (length (dg_data p)))"
    by blast
  show ?case
  proof (cases "dg_cnt p \<in> seen")
    case True
    with 1 have cl1: "cl1 = cl" by simp
    have "seen \<union> dg_cnt ` set (p # ps) = seen \<union> dg_cnt ` set ps" using True by auto
    moreover have "fold max (map dg_cnt (p # ps)) (nowPackNum cl) = fold max (map dg_cnt ps) (nowPackNum cl)"
      using 1(3) cl1 by (simp add: max.commute)
    moreover have "rfold recv_datagram (p # ps) cl = rfold recv_datagram ps cl"
      using 1(1) cl1 by simp
    ultimately show ?thesis
      using Cons.IH [OF Cons.prems(1,2) ps] Cons.prems(4) True by simp
  next
    case False
    have "recvFileSize (cl_user cl) + int (length (dg_data p)) < fsz"
      using Cons.prems(4) False data_size_nonneg [of "firsts (insert (dg_cnt p) seen) ps"] by simp
    with 1(4) False have w: "writing path (c @ dg_data p) cl1"
      and sz: "recvFileSize (cl_user cl1) = recvFileSize (cl_user cl) + int (length (dg_data p))"
      by simp_all
    have "recvFileSize (cl_user cl1) + data_size (firsts (insert (dg_cnt p) seen) ps) < fsz"
      using Cons.prems(4) False sz by simp
    from Cons.IH [OF w 1(2) ps this] False 1(1,3) sz show ?thesis by (auto simp: max.commute)
  qed
qed

text \<open>C37: Whatever datagrams of a file arrive, in whatever order and however often, until the announced
  size is reached: each count is written exactly once, the first time it arrives, and nothing else is;
  and the map of missing datagrams holds exactly the counts below the highest one seen that have not
  arrived. The contents follow the order of arrival, since the file is open for appending and the seek
  before each write has no effect: the file is right only if the datagrams arrive in order.\<close>

theorem file_received_once:
  assumes "writing path c cl" "nowPackNum cl = 0" "m_udpMap cl = []"
    and "\<forall>p \<in> set ps. dg_ok fsz p"
    and "recvFileSize (cl_user cl) + data_size (firsts {} ps) < fsz"
  shows "\<exists>cl'. rfold recv_datagram ps cl = Inr cl' \<and>
    writing path (c @ concat (map dg_data (firsts {} ps))) cl' \<and>
    nowPackNum cl' = fold max (map dg_cnt ps) 0 \<and>
    set (keys (m_udpMap cl')) = {1..nowPackNum cl'} - dg_cnt ` set ps"
proof -
  have "tracking {} cl" using assms(2,3) by (simp add: tracking_def)
  from recv_run [OF assms(1) this assms(4,5)] assms(2) show ?thesis
    by (auto simp: tracking_def simp del: set_map)
qed

text \<open>A datagram of a file with given contents.\<close>

definition datagram :: "nat \<Rightarrow> block \<Rightarrow> nat \<Rightarrow> block" where
  "datagram count b tot =
     i32_bytes 7 @ i32_bytes 1 @ i32_bytes (word_of_nat (46 + length b)) @ i32_bytes 1 @
     i32_bytes (word_of_nat count) @ replicate 8 0 @ i32_bytes 7 @ i32_bytes (word_of_nat tot) @
     replicate 10 0 @ b @ replicate (1390 - length b) 0"

lemma datagram_facts:
  assumes "length b \<le> 1390" "count < 2 ^ 31" "tot < 2 ^ 31"
  shows "dg_data (datagram count b tot) = b" "dg_cnt (datagram count b tot) = int count"
    "1 \<le> count \<Longrightarrow> dg_ok (int tot) (datagram count b tot)"
proof -
  have h: "hdr_length (datagram count b tot) = int (46 + length b)"
    unfolding datagram_def hdr_length_def
    by (simp add: cells_append_right cells_append_left del: of_nat_add)
      (rule sint_word_of_nat, use assms(1) in simp)
  show d: "dg_data (datagram count b tot) = b"
    unfolding dg_data_def h by (simp add: datagram_def cells_append_right cells_append_left)
  show c: "dg_cnt (datagram count b tot) = int count"
    unfolding dg_cnt_def dg_count_def
    by (simp add: datagram_def cells_append_right cells_append_left sint_word_of_nat [OF assms(2)]
        del: of_nat_add)
  have s: "dg_size (datagram count b tot) = int tot"
    unfolding dg_size_def
    by (simp add: datagram_def cells_append_right cells_append_left sint_word_of_nat [OF assms(3)]
        del: of_nat_add)
  show "1 \<le> count \<Longrightarrow> dg_ok (int tot) (datagram count b tot)"
    using c s h assms(1) by (simp add: dg_ok_def block_size_def) (simp add: datagram_def)
qed

lemma file_received_once_witness:
  "\<exists>cl'. rfold recv_datagram [datagram 2 [5, 6] 9, datagram (Suc 0) [3, 4] 9, datagram 2 [5, 6] 9]
      (client_init ((UserData 0 0 0 0 [])\<lparr>ud_pf := fst (f_open_append [65] (\<lambda>_. None))\<rparr>) 0 0 0
        (snd (f_open_append [65] (\<lambda>_. None)))) = Inr cl' \<and>
     writing [65] [5, 6, 3, 4] cl' \<and> m_udpMap cl' = []"
proof -
  let ?cl = "client_init ((UserData 0 0 0 0 [])\<lparr>ud_pf := fst (f_open_append [65] (\<lambda>_. None))\<rparr>) 0 0 0
        (snd (f_open_append [65] (\<lambda>_. None)))"
  let ?ps = "[datagram 2 [5, 6] 9, datagram (Suc 0) [3, 4] 9, datagram 2 [5, 6] 9]"
  have w: "writing [65] [] ?cl" and z: "nowPackNum ?cl = 0" "m_udpMap ?cl = []" "recvFileSize (cl_user ?cl) = 0"
    by (simp_all add: writing_def client_init_def f_open_append_def UserData_def)
  have d: "dg_data (datagram 2 [5, 6] 9) = [5, 6]" "dg_data (datagram (Suc 0) [3, 4] 9) = [3, 4]"
    "dg_cnt (datagram 2 [5, 6] 9) = 2" "dg_cnt (datagram (Suc 0) [3, 4] 9) = 1"
    "dg_ok 9 (datagram 2 [5, 6] 9)" "dg_ok 9 (datagram (Suc 0) [3, 4] 9)"
    using datagram_facts [of "[5, 6]" 2 9] datagram_facts [of "[3, 4]" "Suc 0" 9] by simp_all
  have f: "firsts {} ?ps = [datagram 2 [5, 6] 9, datagram (Suc 0) [3, 4] 9]" by (simp add: d)
  have ok: "\<forall>p \<in> set ?ps. dg_ok 9 p" by (simp add: d)
  have sz: "recvFileSize (cl_user ?cl) + data_size (firsts {} ?ps) < 9" unfolding f by (simp add: z d)
  from file_received_once [OF w z(1,2) ok sz] obtain cl' where
    c: "rfold recv_datagram ?ps ?cl = Inr cl'" "writing [65] ([] @ concat (map dg_data (firsts {} ?ps))) cl'"
    "nowPackNum cl' = fold max (map dg_cnt ?ps) 0" "set (keys (m_udpMap cl')) = {1..nowPackNum cl'} - dg_cnt ` set ?ps"
    by blast
  have n: "nowPackNum cl' = 2" using c(3) by (simp add: d)
  have "{1..2::int} = {1, 2}" by auto
  then have "set (keys (m_udpMap cl')) = {}" using c(4) unfolding n by (simp add: d del: set_map)
  then have "m_udpMap cl' = []" by simp
  moreover have "[] @ concat (map dg_data (firsts {} ?ps)) = [5, 6, 3, 4]"
    unfolding f by (simp add: d)
  ultimately show ?thesis using c(1,2) by metis
qed

section \<open>The sender\<close>

lemma udp_block_fields:
  assumes j: "length junk = block_size" and b: "1 \<le> length b" "length b \<le> 1390"
    and n: "length name < 10" and k: "1 \<le> sendFileCount u" "sendFileCount u < 2 ^ 31"
      "0 \<le> ud_fileSize u" "ud_fileSize u < 2 ^ 31"
  shows "\<exists>p. udp_block junk b now name u = Inr p \<and> dg_ok (ud_fileSize u) p \<and> dg_data p = b \<and>
    dg_cnt p = sendFileCount u \<and> pk_cmd p = Some UDPSENDFILE"
proof -
  define q where "q = blit 32 (i32_bytes (word_of_int (ud_fileSize u))) (blit 28 (i32_bytes (sendFileToClientId u))
    (blit 20 (i64_bytes (word_of_int now)) (blit 16 (i32_bytes (word_of_int (sendFileCount u)))
    (blit 8 (i32_bytes (word_of_nat (16 + 20 + 10 + length b))) (blit 4 (i32_bytes (word_of_int (ud_userId u)))
    (blit 0 (i32_bytes (word_of_int (cmd_num UDPSENDFILE))) (blit 12 (i32_bytes 1) (blit 46 b junk))))))))"
  have lj: "length junk = 1436" using j by (simp add: block_size_def)
  have lq: "length q = 1436" using lj b by (simp add: q_def)
  let ?p = "blit 36 (name @ [0]) q"
  have run: "udp_block junk b now name u = Inr ?p"
    using lj b n lq by (simp add: udp_block_def c_memcpy_def q_def)
  have hb: "cells 8 4 ?p = i32_bytes (word_of_nat (46 + length b))"
    using lj b n by (simp add: q_def)
  have h: "hdr_length ?p = int (46 + length b)"
    unfolding hdr_length_def hb bytes_i32_bytes by (rule sint_word_of_nat) (use b in simp)
  have d: "dg_data ?p = b"
    unfolding dg_data_def h using lj b n by (simp add: q_def)
  have "cells 16 4 ?p = i32_bytes (word_of_int (sendFileCount u))"
    using lj b n by (simp add: q_def)
  then have c: "dg_cnt ?p = sendFileCount u"
    using k by (simp add: dg_cnt_def dg_count_def sint_word_of_int)
  have "cells 32 4 ?p = i32_bytes (word_of_int (ud_fileSize u))"
    using lj b n by (simp add: q_def)
  then have s: "dg_size ?p = ud_fileSize u"
    using k by (simp add: dg_size_def sint_word_of_int)
  have c0: "cells 0 4 ?p = i32_bytes (word_of_int (cmd_num UDPSENDFILE))"
    using lj b n lq unfolding q_def by (simp add: cells_0 [symmetric] del: cells_0)
  have cmd: "pk_cmd ?p = Some UDPSENDFILE"
    unfolding pk_cmd_def c0 by (simp add: cmd_num_def cmd_of_def all_cmds_def)
  show ?thesis
    using run d c s h cmd lq n b k(1) by (simp add: dg_ok_def block_size_def)
qed

text \<open>A transfer under way: the file \<open>D\<close> read up to \<open>pos\<close>, the list of datagrams ending in \<open>packs\<close>.\<close>

definition sending :: "block \<Rightarrow> block list \<Rightarrow> int \<Rightarrow> block list \<Rightarrow> nat \<Rightarrow> bool \<Rightarrow> client \<Rightarrow> bool" where
  "sending D old base packs pos eof cl \<longleftrightarrow>
     (let u = cl_user cl in startTransfer u \<and>
      (\<exists>path name. ud_pf u = PfOpen \<lparr>fs_path = path, fs_append = False, fs_pos = pos, fs_eof = eof\<rparr> \<and>
         cl_disk cl path = Some D \<and> c_str (ud_filename u) = Inr name \<and> length name < 10) \<and>
      sl_package (m_writeList u) = old @ packs \<and> sendFileCount u = base + int (length packs) \<and>
      ud_fileSize u = int (length D))"

lemma transfer_more:
  assumes s: "sending D old base packs pos False cl" and j: "length junk = block_size"
    and D: "pos < length D" "length D < 2 ^ 31" and base: "0 \<le> base" "base + int (length packs) + 1 < 2 ^ 31"
  shows "\<exists>cl' p. transfer_step junk now cl = Inr cl' \<and>
    sending D old base (packs @ [p]) (pos + length (dg_data p)) (length (dg_data p) < 1390) cl' \<and>
    dg_data p = take 1390 (drop pos D) \<and> dg_cnt p = base + int (length packs) + 1 \<and>
    dg_ok (int (length D)) p"
proof -
  let ?u = "cl_user cl"
  from s obtain path name where
    st: "startTransfer ?u" "sl_package (m_writeList ?u) = old @ packs"
      "sendFileCount ?u = base + int (length packs)" "ud_fileSize ?u = int (length D)"
    and f: "ud_pf ?u = PfOpen \<lparr>fs_path = path, fs_append = False, fs_pos = pos, fs_eof = False\<rparr>"
      "cl_disk cl path = Some D" "c_str (ud_filename ?u) = Inr name" "length name < 10"
    by (auto simp: sending_def Let_def)
  define b where "b = take 1390 (drop pos D)"
  have b: "1 \<le> length b" "length b \<le> 1390" "b \<noteq> []" using D(1) by (auto simp: b_def)
  let ?f = "\<lparr>fs_path = path, fs_append = False, fs_pos = pos + length b, fs_eof = length b < 1390\<rparr>"
  have rd: "f_read 1390 \<lparr>fs_path = path, fs_append = False, fs_pos = pos, fs_eof = False\<rparr> (cl_disk cl) = (b, ?f)"
    by (simp add: f_read_def f_data_def f(2) b_def Let_def)
  let ?v = "?u\<lparr>ud_pf := PfOpen ?f, sendFileCount := sendFileCount ?u + 1\<rparr>"
  have k: "1 \<le> sendFileCount ?v" "sendFileCount ?v < 2 ^ 31" "0 \<le> ud_fileSize ?v" "ud_fileSize ?v < 2 ^ 31"
    using st(3,4) base D(2) by simp_all
  from udp_block_fields [OF j b(1,2) f(4) k, of now] obtain p where
    p: "udp_block junk b now name ?v = Inr p" "dg_ok (ud_fileSize ?v) p" "dg_data p = b"
      "dg_cnt p = sendFileCount ?v"
    by blast
  let ?cl = "cl\<lparr>m_udpSaveMap := map_ins (sendFileCount ?v) p (m_udpSaveMap cl),
      cl_user := ?v\<lparr>m_writeList := pack_push p (m_writeList ?v)\<rparr>\<rparr>"
  have run: "transfer_step junk now cl = Inr ?cl"
    using st(1) f rd b(3) p(1) by (simp add: transfer_step_def f_stream_def udpSendFile_def Let_def)
  have "sending D old base (packs @ [p]) (pos + length (dg_data p)) (length (dg_data p) < 1390) ?cl"
    unfolding sending_def Let_def using st f p(3) by (auto simp: pack_push_def)
  then show ?thesis
    using run p st(3,4) by (intro exI [of _ ?cl] exI [of _ p]) (simp add: b_def)
qed

lemma transfer_done:
  "sending D old base packs pos True cl \<Longrightarrow>
   \<exists>cl'. transfer_step junk now cl = Inr cl' \<and> ud_pf (cl_user cl') = PfClosed \<and>
     \<not> startTransfer (cl_user cl') \<and> sl_package (m_writeList (cl_user cl')) = old @ packs"
  by (auto simp: sending_def Let_def transfer_step_def f_stream_def)

lemma transfer_empty:
  "sending D old base packs pos False cl \<Longrightarrow> length D \<le> pos \<Longrightarrow>
   transfer_step junk now cl = Inl (Exited 0)"
  by (auto simp: sending_def Let_def transfer_step_def f_stream_def udpSendFile_def f_read_def f_data_def)

text \<open>Pieces of a fixed size, one after the other.\<close>

lemma concat_pieces: "concat (map (\<lambda>i. take k (drop (pos + k * i) D)) [0..<n]) = take (k * n) (drop pos D)"
proof (induction n)
  case 0
  then show ?case by simp
next
  case (Suc n)
  then show ?case using take_add [of "k * n" k "drop pos D"] by (simp add: ac_simps)
qed

lemma transfer_full:
  assumes "sending D old base packs pos False cl" "\<forall>j \<in> set js. length j = block_size"
    and "length D < 2 ^ 31" "0 \<le> base" "base + int (length packs) + int (length js) < 2 ^ 31"
    and "pos + 1390 * length js \<le> length D"
  shows "\<exists>cl' new. rfold (\<lambda>j. transfer_step j now) js cl = Inr cl' \<and>
    sending D old base (packs @ new) (pos + 1390 * length js) False cl' \<and>
    map dg_data new = map (\<lambda>i. take 1390 (drop (pos + 1390 * i) D)) [0..<length js] \<and>
    (\<forall>p \<in> set new. dg_ok (int (length D)) p \<and> dg_data p \<noteq> []) \<and>
    map dg_cnt new = map (\<lambda>i. base + int (length packs) + 1 + int i) [0..<length js]"
  using assms
proof (induction js rule: rev_induct)
  case Nil
  then show ?case by (intro exI [of _ cl] exI [of _ "[]"]) simp
next
  case (snoc j js)
  then obtain cl1 new where
    1: "rfold (\<lambda>j. transfer_step j now) js cl = Inr cl1"
      "sending D old base (packs @ new) (pos + 1390 * length js) False cl1"
      "map dg_data new = map (\<lambda>i. take 1390 (drop (pos + 1390 * i) D)) [0..<length js]"
      "\<forall>p \<in> set new. dg_ok (int (length D)) p \<and> dg_data p \<noteq> []"
      "map dg_cnt new = map (\<lambda>i. base + int (length packs) + 1 + int i) [0..<length js]"
    by auto
  let ?pos = "pos + 1390 * length js"
  have n: "length new = length js" using arg_cong [OF 1(5), of length] by simp
  have "length j = block_size" "?pos < length D" "base + int (length (packs @ new)) + 1 < 2 ^ 31"
    using snoc.prems n by simp_all
  from transfer_more [OF 1(2) this(1,2) snoc.prems(3,4) this(3), of now] obtain cl2 p where
    2: "transfer_step j now cl1 = Inr cl2" "dg_data p = take 1390 (drop ?pos D)"
      "sending D old base ((packs @ new) @ [p]) (?pos + length (dg_data p)) (length (dg_data p) < 1390) cl2"
      "dg_cnt p = base + int (length (packs @ new)) + 1" "dg_ok (int (length D)) p"
    by blast
  have lp: "length (dg_data p) = 1390" using 2(2) snoc.prems(6) by simp
  then show ?case
    using 1 2 n lp
    by (intro exI [of _ cl2] exI [of _ "new @ [p]"]) (auto simp: rfold_append ac_simps)
qed

text \<open>A file whose rest is a multiple of the data of a datagram ends in an empty read, which ends the
  process; any other ends in a short datagram.\<close>

lemma transfer_exits:
  assumes "sending D old base packs pos False cl" "\<forall>j \<in> set js. length j = block_size"
    and "length D < 2 ^ 31" "0 \<le> base" "base + int (length packs) + int m + 1 < 2 ^ 31"
    and "length D = pos + 1390 * m" "length js = m + 1"
  shows "rfold (\<lambda>j. transfer_step j now) js cl = Inl (Exited 0)"
proof -
  from assms(7) obtain js1 j where js: "js = js1 @ [j]" "length js1 = m"
    by (auto simp: length_Suc_conv_rev)
  have "\<exists>cl' new. rfold (\<lambda>j. transfer_step j now) js1 cl = Inr cl' \<and>
    sending D old base (packs @ new) (pos + 1390 * m) False cl'"
    using transfer_full [OF assms(1) _ assms(3,4), of js1 now] js assms(2,5,6) by auto
  then obtain cl1 new where
    1: "rfold (\<lambda>j. transfer_step j now) js1 cl = Inr cl1"
      "sending D old base (packs @ new) (pos + 1390 * m) False cl1"
    by blast
  have "length D \<le> pos + 1390 * m" using assms(6) by simp
  from transfer_empty [OF 1(2) this] show "rfold (\<lambda>j. transfer_step j now) js cl = Inl (Exited 0)"
    by (simp add: js 1(1) rfold_append)
qed

lemma transfer_ends:
  assumes "sending D old base packs pos False cl" "\<forall>j \<in> set js. length j = block_size"
    and "length D < 2 ^ 31" "0 \<le> base" "base + int (length packs) + int m + 1 < 2 ^ 31"
    and "length D = pos + 1390 * m + r" "r < 1390" "r \<noteq> 0" "length js = m + 2"
  shows "\<exists>cl' new. rfold (\<lambda>j. transfer_step j now) js cl = Inr cl' \<and>
      ud_pf (cl_user cl') = PfClosed \<and> \<not> startTransfer (cl_user cl') \<and>
      sl_package (m_writeList (cl_user cl')) = old @ packs @ new \<and>
      concat (map dg_data new) = drop pos D \<and>
      map dg_data new = map (\<lambda>i. take 1390 (drop (pos + 1390 * i) D)) [0..<m + 1] \<and> (\<forall>p \<in> set new. dg_ok (int (length D)) p \<and> dg_data p \<noteq> []) \<and>
      map dg_cnt new = map (\<lambda>i. base + int (length packs) + 1 + int i) [0..<m + 1]"
proof -
  from assms(9) obtain js1 j j' where js: "js = js1 @ [j, j']" "length js1 = m"
    by (auto simp: numeral_2_eq_2 length_Suc_conv_rev)
  obtain cl1 new where
    1: "rfold (\<lambda>j. transfer_step j now) js1 cl = Inr cl1"
      "sending D old base (packs @ new) (pos + 1390 * m) False cl1"
      "map dg_data new = map (\<lambda>i. take 1390 (drop (pos + 1390 * i) D)) [0..<m]"
      "\<forall>p \<in> set new. dg_ok (int (length D)) p \<and> dg_data p \<noteq> []"
      "map dg_cnt new = map (\<lambda>i. base + int (length packs) + 1 + int i) [0..<m]"
    using transfer_full [OF assms(1) _ assms(3,4), of js1 now] js assms(2,5,6) by auto
  have n: "length new = m" using arg_cong [OF 1(5), of length] by simp
  have "length j = block_size" "pos + 1390 * m < length D"
    "base + int (length (packs @ new)) + 1 < 2 ^ 31"
    using js assms(2,5,6,8) n by simp_all
  from transfer_more [OF 1(2) this(1,2) assms(3,4) this(3), of now] obtain cl2 p where
    2: "transfer_step j now cl1 = Inr cl2" "dg_data p = take 1390 (drop (pos + 1390 * m) D)"
      "sending D old base ((packs @ new) @ [p]) (pos + 1390 * m + length (dg_data p))
         (length (dg_data p) < 1390) cl2"
      "dg_cnt p = base + int (length (packs @ new)) + 1" "dg_ok (int (length D)) p"
    by blast
  have p: "dg_data p = drop (pos + 1390 * m) D" "length (dg_data p) < 1390" "dg_data p \<noteq> []"
    using 2(2) assms(6-8) by simp_all
  with 2(3) have "sending D old base ((packs @ new) @ [p]) (pos + 1390 * m + length (dg_data p)) True cl2"
    by simp
  from transfer_done [OF this, of j' now] obtain cl3 where
    3: "transfer_step j' now cl2 = Inr cl3" "ud_pf (cl_user cl3) = PfClosed"
      "\<not> startTransfer (cl_user cl3)" "sl_package (m_writeList (cl_user cl3)) = old @ packs @ new @ [p]"
    by auto
  have d: "map dg_data (new @ [p]) = map (\<lambda>i. take 1390 (drop (pos + 1390 * i) D)) [0..<m + 1]"
    using 1(3) 2(2) by simp
  have "concat (map dg_data (new @ [p])) = drop pos D"
    unfolding d concat_pieces using assms(6,7) by simp
  then show ?thesis
    using 1 2 3 n p d
    by (intro exI [of _ cl3] exI [of _ "new @ [p]"]) (auto simp: js rfold_append)
qed

lemma transfer_run:
  assumes "sending D old base packs pos False cl" "\<forall>j \<in> set js. length j = block_size"
    and "length D < 2 ^ 31" "0 \<le> base" "base + int (length packs) + int m + 1 < 2 ^ 31"
    and "length D = pos + 1390 * m + r" "r < 1390"
  shows "if r = 0 then length js = m + 1 \<longrightarrow> rfold (\<lambda>j. transfer_step j now) js cl = Inl (Exited 0)
    else length js = m + 2 \<longrightarrow> (\<exists>cl' new. rfold (\<lambda>j. transfer_step j now) js cl = Inr cl' \<and>
      ud_pf (cl_user cl') = PfClosed \<and> \<not> startTransfer (cl_user cl') \<and>
      sl_package (m_writeList (cl_user cl')) = old @ packs @ new \<and>
      concat (map dg_data new) = drop pos D \<and> (\<forall>p \<in> set new. dg_ok (int (length D)) p \<and> dg_data p \<noteq> []) \<and>
      map dg_cnt new = map (\<lambda>i. base + int (length packs) + 1 + int i) [0..<m + 1])"
proof (cases "r = 0")
  case True
  then show ?thesis using transfer_exits [OF assms(1-5), of now] assms(6) by simp
next
  case False
  with transfer_ends [OF assms(1-7), of now] show ?thesis by (simp only: if_False) blast
qed

text \<open>The sender cuts a file into pieces of 1390 bytes: with a name of fewer than ten bytes and a
  size that is not a multiple of 1390, one step per piece and one more put datagrams with consecutive
  counts into the list whose contents are the file, and close it. When the size is a multiple of 1390
  (or the file is empty), end of file is only noticed by a read that returns nothing, and the client
  exits once everything has been queued.\<close>

theorem file_sent:
  assumes "sending D old base [] 0 False cl" "\<forall>j \<in> set js. length j = block_size"
    and "length D < 2 ^ 31" "0 \<le> base" "base + int (length D div 1390) + 1 < 2 ^ 31"
  shows "if length D mod 1390 = 0
    then length js = length D div 1390 + 1 \<longrightarrow>
      rfold (\<lambda>j. transfer_step j now) js cl = Inl (Exited 0)
    else length js = length D div 1390 + 2 \<longrightarrow>
      (\<exists>cl' new. rfold (\<lambda>j. transfer_step j now) js cl = Inr cl' \<and>
        ud_pf (cl_user cl') = PfClosed \<and> \<not> startTransfer (cl_user cl') \<and>
        sl_package (m_writeList (cl_user cl')) = old @ new \<and> concat (map dg_data new) = D \<and>
        (\<forall>p \<in> set new. dg_ok (int (length D)) p \<and> dg_data p \<noteq> []) \<and>
        map dg_cnt new = map (\<lambda>i. base + 1 + int i) [0..<length D div 1390 + 1])"
proof -
  have "length D = 0 + 1390 * (length D div 1390) + length D mod 1390" by simp
  from transfer_run [OF assms(1-4) _ this, of now] assms(5) show ?thesis by (simp cong: if_cong)
qed

definition sample_sender :: "block \<Rightarrow> client" where
  "sample_sender D = client_init ((UserData 1 0 0 7 [65, 0])\<lparr>startTransfer := True,
     ud_pf := f_open_read [65] [[65] \<mapsto> D], ud_fileSize := int (length D)\<rparr>) 0 0 0 [[65] \<mapsto> D]"

lemma sample_sender_sending: "sending D [] 0 [] 0 False (sample_sender D)"
  by (simp add: sending_def sample_sender_def client_init_def UserData_def f_open_read_def
      SaveList_def c_str_def)

lemma file_sent_witness:
  "rfold (\<lambda>j. transfer_step j 0) [replicate block_size 0] (sample_sender []) = Inl (Exited 0) \<and>
   (\<exists>cl' p. rfold (\<lambda>j. transfer_step j 0) [replicate block_size 0, replicate block_size 0]
       (sample_sender [1, 2, 3]) = Inr cl' \<and> sl_package (m_writeList (cl_user cl')) = [p] \<and>
       dg_data p = [1, 2, 3])"
proof -
  have j: "\<forall>j \<in> set [replicate block_size (0::byte)]. length j = block_size"
    "\<forall>j \<in> set [replicate block_size (0::byte), replicate block_size 0]. length j = block_size"
    by simp_all
  have e: "rfold (\<lambda>j. transfer_step j 0) [replicate block_size 0] (sample_sender []) = Inl (Exited 0)"
    using file_sent [OF sample_sender_sending j(1), of "[]" 0] by simp
  from file_sent [OF sample_sender_sending j(2), of "[1, 2, 3]" 0] obtain cl' new where
    "rfold (\<lambda>j. transfer_step j 0) [replicate block_size 0, replicate block_size 0]
       (sample_sender [1, 2, 3]) = Inr cl'" "sl_package (m_writeList (cl_user cl')) = new"
    "concat (map dg_data new) = [1, 2, 3]" "map dg_cnt new = [1]"
    by auto
  moreover from this(4) obtain p where "new = [p]" by auto
  ultimately show ?thesis using e by auto
qed

section \<open>Both\<close>

lemma firsts_fresh:
  "distinct (map dg_cnt ps) \<Longrightarrow> dg_cnt ` set ps \<inter> seen = {} \<Longrightarrow> firsts seen ps = ps"
  by (induction ps arbitrary: seen) auto

text \<open>C16: A file arrives as it was sent: the datagrams a sender makes of a file (whose size is not a
  multiple of 1390 and whose name has fewer than ten bytes), handed in order to a receiver that has
  accepted it and has seen the counts up to the sender's last, leave the receiver with exactly the
  bytes of the file, appended to what the file held before, and closed.\<close>

theorem file_round_trip:
  assumes s: "sending D old base [] 0 False cl" "\<forall>j \<in> set js. length j = block_size"
      "length D < 2 ^ 31" "0 \<le> base" "base + int (length D div 1390) + 1 < 2 ^ 31"
      "length D mod 1390 \<noteq> 0" "length js = length D div 1390 + 2"
    and r: "writing path c rc" "tracking {1..base} rc" "recvFileSize (cl_user rc) = 0"
  shows "\<exists>cl' new rc'. rfold (\<lambda>j. transfer_step j now) js cl = Inr cl' \<and>
    sl_package (m_writeList (cl_user cl')) = old @ new \<and> rfold recv_datagram new rc = Inr rc' \<and>
    cl_disk rc' path = Some (c @ D) \<and> ud_pf (cl_user rc') = PfClosed"
proof -
  from file_sent [OF s(1-5), of now] s(6,7) obtain cl' new where
    n: "rfold (\<lambda>j. transfer_step j now) js cl = Inr cl'" "sl_package (m_writeList (cl_user cl')) = old @ new"
      "concat (map dg_data new) = D" "\<forall>p \<in> set new. dg_ok (int (length D)) p \<and> dg_data p \<noteq> []"
      "map dg_cnt new = map (\<lambda>i. base + 1 + int i) [0..<length D div 1390 + 1]"
    by auto
  have "D \<noteq> []" using s(6) by auto
  then have "new \<noteq> []" using n(3) by auto
  then obtain qs p where new: "new = qs @ [p]" by (metis rev_exhaust)
  have "distinct (map dg_cnt new)" unfolding n(5) by (auto simp: distinct_map inj_on_def)
  moreover have above: "dg_cnt ` set new \<inter> {1..base} = {}"
  proof -
    have "dg_cnt ` set new = set (map dg_cnt new)" by simp
    then show ?thesis unfolding n(5) by auto
  qed
  ultimately have f: "firsts {1..base} qs = qs" and pq: "dg_cnt p \<notin> {1..base} \<union> dg_cnt ` set qs"
    using firsts_fresh [of qs "{1..base}"] by (auto simp: new)
  have tot: "data_size qs + int (length (dg_data p)) = int (length D)"
    using n(3) by (auto simp: new data_size_concat)
  have ok: "\<forall>p \<in> set qs. dg_ok (int (length D)) p" and okp: "dg_ok (int (length D)) p" "dg_data p \<noteq> []"
    using n(4) by (simp_all add: new)
  have "recvFileSize (cl_user rc) + data_size (firsts {1..base} qs) < int (length D)"
    using tot okp(2) r(3) f by (cases "dg_data p") simp_all
  from recv_run [OF r(1,2) ok this] f r(3) obtain rc1 where
    1: "rfold recv_datagram qs rc = Inr rc1" "writing path (c @ concat (map dg_data qs)) rc1"
      "tracking ({1..base} \<union> dg_cnt ` set qs) rc1" "recvFileSize (cl_user rc1) = data_size qs"
    by auto
  from recv_datagram_effect [OF 1(2) okp(1) 1(3)] pq tot 1(4) obtain rc2 where
    2: "recv_datagram p rc1 = Inr rc2" "ud_pf (cl_user rc2) = PfClosed"
      "cl_disk rc2 path = Some ((c @ concat (map dg_data qs)) @ dg_data p)"
    by auto
  have "(c @ concat (map dg_data qs)) @ dg_data p = c @ D" using n(3) by (simp add: new)
  moreover have "rfold recv_datagram new rc = Inr rc2"
    using 1(1) 2(1) by (simp add: new rfold_append)
  ultimately show ?thesis using n(1,2) 2(2,3) by auto
qed

definition sample_receiver :: client where
  "sample_receiver = client_init ((UserData 7 0 0 0 [])\<lparr>ud_pf := fst (f_open_append [66] (\<lambda>_. None))\<rparr>) 0 0 0
     (snd (f_open_append [66] (\<lambda>_. None)))"

lemma file_round_trip_witness:
  "\<exists>cl' new rc'. rfold (\<lambda>j. transfer_step j 0) [replicate block_size 0, replicate block_size 0]
      (sample_sender [1, 2, 3]) = Inr cl' \<and> sl_package (m_writeList (cl_user cl')) = new \<and>
    rfold recv_datagram new sample_receiver = Inr rc' \<and> cl_disk rc' [66] = Some [1, 2, 3]"
proof -
  have j: "\<forall>j \<in> set [replicate block_size (0::byte), replicate block_size 0]. length j = block_size"
    by simp
  have r: "writing [66] [] sample_receiver" "tracking {1..0} sample_receiver"
    "recvFileSize (cl_user sample_receiver) = 0"
    by (simp_all add: writing_def tracking_def sample_receiver_def client_init_def f_open_append_def
        UserData_def)
  from file_round_trip [OF sample_sender_sending j _ _ _ _ _ r, of "[1, 2, 3]" 0] show ?thesis by auto
qed

end
