(* ===== verification/ReportProps.thy ===== *)
theory ReportProps
  imports FileProps
begin

text \<open>
  Properties of the client around the transfer: the reports of missing datagrams, the thread that sends
  datagrams, file names that are too long, and the menu entry that quits.
\<close>

section \<open>Reports\<close>

text \<open>The number of entries of a report, and the entries.\<close>

definition rep_count :: "block \<Rightarrow> nat" where
  "rep_count b = nat (sint (bytes_i32 (cells 20 4 b)))"

definition rep_nums :: "block \<Rightarrow> i32 list" where
  "rep_nums b = map (lose_num b) [0..<rep_count b]"

definition rep_partial :: "i32 list \<Rightarrow> block \<Rightarrow> bool" where
  "rep_partial ns b \<longleftrightarrow> length b = 220 \<and> pk_cmd b = Some UDPRESEND \<and> map (lose_num b) [0..<length ns] = ns"

definition rep_done :: "block \<Rightarrow> bool" where
  "rep_done b \<longleftrightarrow> length b = 220 \<and> pk_cmd b = Some UDPRESEND \<and> rep_count b \<le> 10"

lemma report_finish:
  assumes "rep_partial ns b" "length ns \<le> 10" "b' = blit 20 (i32_bytes (word_of_nat (length ns))) b"
  shows "rep_done b'" "rep_nums b' = ns"
proof -
  have l: "length b = 220" using assms(1) by (simp add: rep_partial_def)
  have "cells 20 4 b' = i32_bytes (word_of_nat (length ns))" using l by (simp add: assms(3))
  then have c: "rep_count b' = length ns"
    using assms(2) by (simp add: rep_count_def sint_word_of_nat)
  have "take 4 b' = take 4 b" using l by (simp add: assms(3))
  then have "pk_cmd b' = pk_cmd b" by (simp add: pk_cmd_def)
  then show "rep_done b'" using assms(1,2) l c by (simp add: rep_done_def rep_partial_def assms(3))
  have "lose_num b' i = lose_num b i" if "i < length ns" for i
    using that l assms(2) by (simp add: lose_num_def assms(3))
  then have "map (lose_num b') [0..<length ns] = map (lose_num b) [0..<length ns]" by simp
  moreover have "map (lose_num b) [0..<length ns] = ns" using assms(1) by (simp add: rep_partial_def)
  ultimately show "rep_nums b' = ns" unfolding rep_nums_def c by (rule trans)
qed

lemma report_entry:
  assumes "rep_partial ns tmp \<or> ns = [] \<and> length tmp = 220" "length ns < 10"
    and "b = blit (24 + 4 * length ns) (i32_bytes (word_of_int k)) (blit 16 (i32_bytes v)
       (blit 8 (i32_bytes 220) (blit 4 (i32_bytes uid)
       (blit 0 (i32_bytes (word_of_int (cmd_num UDPRESEND))) (blit 12 (i32_bytes 1) tmp)))))"
  shows "rep_partial (ns @ [word_of_int k]) b"
proof -
  have l: "length tmp = 220" using assms(1) by (auto simp: rep_partial_def)
  then have lb: "length b = 220" using assms(2) by (simp add: assms(3))
  have "cells 0 4 b = i32_bytes (word_of_int (cmd_num UDPRESEND))"
    using l assms(2) by (simp add: assms(3) cells_0 [symmetric] del: cells_0)
  then have cmd: "pk_cmd b = Some UDPRESEND"
    by (simp only: pk_cmd_def bytes_i32_bytes) (simp add: cmd_num_def cmd_of_def all_cmds_def)
  have last: "lose_num b (length ns) = word_of_int k"
    using l assms(2) by (simp add: lose_num_def assms(3))
  have "lose_num b i = lose_num tmp i" if "i < length ns" for i
    using that l assms(2) by (simp add: lose_num_def assms(3))
  then have "map (lose_num b) [0..<length ns] = map (lose_num tmp) [0..<length ns]" by simp
  also have "\<dots> = ns" using assms(1) by (auto simp: rep_partial_def)
  finally show ?thesis using lb cmd last by (simp add: rep_partial_def)
qed

lemma reports_loop:
  assumes "\<forall>j. length (junk j) = 220" "i < 10" "i = length ns"
    and "i \<noteq> 0 \<longrightarrow> rep_partial ns tmp" "\<forall>b \<in> set out. rep_done b"
  shows "\<exists>i' tmp' out' ns'. rfold (report_one junk uid) m (i, tmp, out) = Inr (i', tmp', out') \<and>
    i' < 10 \<and> i' = length ns' \<and> (i' \<noteq> 0 \<longrightarrow> rep_partial ns' tmp') \<and> (\<forall>b \<in> set out'. rep_done b) \<and>
    concat (map rep_nums out') @ ns' = concat (map rep_nums out) @ ns @ map (word_of_int \<circ> fst) m"
  using assms
proof (induction m arbitrary: i tmp out ns)
  case Nil
  then show ?case by auto
next
  case (Cons e m)
  obtain k v where e: "e = (k, v)" by (cases e)
  define t0 where "t0 = (if i = 0 then junk (length out) else tmp)"
  define b where "b = blit (24 + 4 * i) (i32_bytes (word_of_int k)) (blit 16 (i32_bytes (word_of_int v))
       (blit 8 (i32_bytes 220) (blit 4 (i32_bytes (word_of_int uid))
       (blit 0 (i32_bytes (word_of_int (cmd_num UDPRESEND))) (blit 12 (i32_bytes 1) t0)))))"
  have t0: "rep_partial ns t0 \<or> ns = [] \<and> length t0 = 220"
    using Cons.prems(1,3,4) by (auto simp: t0_def)
  then have l0: "length t0 = 220" by (auto simp: rep_partial_def)
  have part: "rep_partial (ns @ [word_of_int k]) b"
    by (rule report_entry [OF t0]) (use Cons.prems(2,3) in \<open>simp_all add: b_def\<close>)
  then have lb: "length b = 220" by (simp add: rep_partial_def)
  have lt: "length (if i = 0 then junk (length out) else tmp) = 220" using l0 by (simp add: t0_def)
  have one: "report_one junk uid e (i, tmp, out) =
      (if i + 1 = 10 then Inr (0, blit 20 (i32_bytes 10) b, out @ [blit 20 (i32_bytes 10) b])
       else Inr (i + 1, b, out))"
    using Cons.prems(2) l0 lb
    by (simp add: report_one_def e Let_def flip: t0_def b_def)
  show ?case
  proof (cases "i + 1 = 10")
    case True
    let ?b = "blit 20 (i32_bytes 10) b"
    have len: "length (ns @ [word_of_int k]) \<le> 10" "10 = length (ns @ [word_of_int k :: i32])"
      using True Cons.prems(3) by simp_all
    have eq: "?b = blit 20 (i32_bytes (word_of_nat (length (ns @ [word_of_int k :: i32])))) b"
      unfolding len(2) [symmetric] by simp
    note fin = report_finish [OF part len(1) eq]
    have "\<forall>b \<in> set (out @ [?b]). rep_done b" using Cons.prems(5) fin(1) by simp
    from Cons.IH [OF Cons.prems(1) _ _ _ this, of 0 "[]" ?b] one True fin(2) e show ?thesis
      by auto
  next
    case False
    have "i + 1 < 10" "i + 1 = length (ns @ [word_of_int k :: i32])" using False Cons.prems(2,3) by simp_all
    from Cons.IH [OF Cons.prems(1) this _ Cons.prems(5), of b] part one False e show ?thesis
      by auto
  qed
qed

lemma build_reports_cover:
  assumes "\<forall>j. length (junk j) = 220"
  shows "\<exists>bs. build_reports junk uid m = Inr bs \<and>
    concat (map rep_nums bs) = map (word_of_int \<circ> fst) m \<and>
    (\<forall>b \<in> set bs. rep_done b)"
proof -
  from reports_loop [OF assms, of 0 "[]" "[]" "[]" uid m] obtain i tmp out ns where
    r: "rfold (report_one junk uid) m (0, [], []) = Inr (i, tmp, out)" "i < 10" "i = length ns"
      "i \<noteq> 0 \<longrightarrow> rep_partial ns tmp" "\<forall>b \<in> set out. rep_done b"
      "concat (map rep_nums out) @ ns = map (word_of_int \<circ> fst) m"
    by auto
  show ?thesis
  proof (cases "i = 0")
    case True
    then show ?thesis using r by (auto simp: build_reports_def)
  next
    case False
    let ?b = "blit 20 (i32_bytes (word_of_nat i)) tmp"
    have part: "rep_partial ns tmp" using False r(4) by simp
    then have "length tmp = 220" by (simp add: rep_partial_def)
    then have "build_reports junk uid m = Inr (out @ [?b])"
      using r(1) False by (simp add: build_reports_def)
    moreover have "rep_done ?b" "rep_nums ?b = ns"
      using report_finish [OF part _ refl] r(2,3) by simp_all
    ultimately show ?thesis using r(5,6) by auto
  qed
qed

text \<open>C38: The reports of a pass list every missing count exactly once, in order, at most ten to a
  block, each block a report of lost datagrams.\<close>

theorem reports_cover_missing:
  assumes "\<forall>j. length (junk j) = 220"
  shows "\<exists>bs. build_reports junk uid m = Inr bs \<and>
    concat (map rep_nums bs) = map (word_of_int \<circ> fst) m \<and>
    (\<forall>b \<in> set bs. length b = 220 \<and> pk_cmd b = Some UDPRESEND \<and> rep_count b \<le> 10)"
  using build_reports_cover [OF assms] by (auto simp: rep_done_def)

lemma reports_cover_missing_witness:
  "\<exists>bs. build_reports (\<lambda>_. replicate 220 0) 3 [(4, 1), (6, 1)] = Inr bs \<and>
     concat (map rep_nums bs) = [4, 6]"
  using reports_cover_missing [of "\<lambda>_. replicate 220 0" 3 "[(4, 1), (6, 1)]"] by auto

section \<open>The thread that sends datagrams\<close>

text \<open>A report is a block of 220 bytes, and the thread that sends datagrams sends 1436 bytes of
  whatever it takes from the list: sending a report reads past its end.\<close>

theorem report_overread:
  assumes "sl_package (m_writeList (cl_user cl)) = b # bs" "length b = 220"
    and "0 < sl_getPackSize (m_writeList (cl_user cl))" "udpSendNum cl mod 3 = 1"
  shows "Startudpsend_iter cl = Inl OutOfBounds"
  using assms
  by (simp add: Startudpsend_iter_def pack_pop_def udp_goes_out_def block_size_def Let_def)

lemma report_overread_witness:
  "Startudpsend_iter ((client_init (UserData 0 0 0 0 []) 0 0 0 (\<lambda>_. None))\<lparr>cl_user :=
     (UserData 0 0 0 0 [])\<lparr>m_writeList := pack_push (replicate 220 0) (SaveList 0)\<rparr>\<rparr>) = Inl OutOfBounds"
  by (rule report_overread [where b = "replicate 220 0" and bs = "[]"])
    (simp_all add: client_init_def UserData_def pack_push_def SaveList_def sl_getPackSize_def)

text \<open>What the thread lets through of a list, from running number \<open>n\<close> on.\<close>

fun let_through :: "int \<Rightarrow> block list \<Rightarrow> block list" where
  "let_through n [] = []"
| "let_through n (b # bs) =
     (if n mod 3 = 1 \<or> dg_cnt b = dg_size b sdiv 1390 + 1 then b # let_through (n + 1) bs
      else let_through (n + 1) bs)"

lemma udp_run:
  assumes "sl_package (m_writeList (cl_user cl)) = bs @ rest"
    and "sl_packcount (m_writeList (cl_user cl)) = word_of_nat (length (bs @ rest))"
    and "length (bs @ rest) < 2 ^ 31" "\<forall>b \<in> set bs. length b = block_size"
  shows "\<exists>cl'. rfold (\<lambda>_. Startudpsend_iter) bs cl = Inr cl' \<and>
    cl_udp cl' = cl_udp cl @ let_through (udpSendNum cl) bs \<and>
    sl_package (m_writeList (cl_user cl')) = rest"
  using assms
proof (induction bs arbitrary: cl)
  case Nil
  then show ?case by simp
next
  case (Cons b bs)
  let ?u = "cl_user cl" and ?q = "m_writeList (cl_user cl)"
  let ?l = "?q\<lparr>sl_package := bs @ rest, sl_packcount := sl_packcount ?q - 1\<rparr>"
  have b: "length b = 1436" using Cons.prems(4) by (simp add: block_size_def)
  have size: "0 < sl_getPackSize ?q"
    using savelist.size_exact [of ?q] Cons.prems(1-3) by simp
  have pop: "pack_pop ?q = Inr (b, ?l)" using Cons.prems(1) by (simp add: pack_pop_def)
  define out where "out = (if udpSendNum cl mod 3 = 1 \<or> dg_cnt b = dg_size b sdiv 1390 + 1 then [b] else [])"
  let ?cl = "cl\<lparr>cl_user := ?u\<lparr>m_writeList := ?l\<rparr>, cl_udp := cl_udp cl @ out, udpSendNum := udpSendNum cl + 1\<rparr>"
  have step: "Startudpsend_iter cl = Inr ?cl"
    using size pop b
    by (simp add: Startudpsend_iter_def Let_def udp_goes_out_def dg_cnt_def dg_count_def dg_size_def
        out_def block_size_def)
  have "sl_packcount ?l = word_of_nat (length (bs @ rest))" using Cons.prems(2) by simp
  with Cons.IH [of ?cl] Cons.prems(3,4) obtain cl' where
    "rfold (\<lambda>_. Startudpsend_iter) bs ?cl = Inr cl'"
    "cl_udp cl' = cl_udp ?cl @ let_through (udpSendNum ?cl) bs"
    "sl_package (m_writeList (cl_user cl')) = rest"
    by auto
  then show ?case using step by (auto simp: out_def)
qed

text \<open>Of the datagrams in its list the thread sends every third and those whose count is the last of
  their file, in order, and throws the others away: two thirds of a file reach the network only when
  the receiver reports them missing.\<close>

theorem udp_sends_every_third:
  assumes "sl_package (m_writeList (cl_user cl)) = bs"
    and "sl_packcount (m_writeList (cl_user cl)) = word_of_nat (length bs)"
    and "length bs < 2 ^ 31" "\<forall>b \<in> set bs. length b = block_size" "udpSendNum cl = 1" "cl_udp cl = []"
  shows "\<exists>cl'. rfold (\<lambda>_. Startudpsend_iter) bs cl = Inr cl' \<and> cl_udp cl' = let_through 1 bs \<and>
    sl_package (m_writeList (cl_user cl')) = []"
  using udp_run [of cl bs "[]"] assms by simp

lemma udp_sends_every_third_witness:
  "\<exists>cl'. rfold (\<lambda>_. Startudpsend_iter) [datagram 1 [1] 9000, datagram 2 [2] 9000]
      ((client_init (UserData 0 0 0 0 []) 0 0 0 (\<lambda>_. None))\<lparr>cl_user := (UserData 0 0 0 0 [])\<lparr>m_writeList :=
        \<lparr>sl_packcount = 2, sl_package = [datagram 1 [1] 9000, datagram 2 [2] 9000]\<rparr>\<rparr>\<rparr>) = Inr cl' \<and>
    cl_udp cl' = [datagram 1 [1] 9000]"
proof -
  let ?a = "datagram 1 [1] 9000" and ?b = "datagram 2 [2] 9000"
  have a: "dg_ok 9000 ?a" "dg_cnt ?a = 1" and b: "dg_ok 9000 ?b" "dg_cnt ?b = 2"
    using datagram_facts [of "[1]" 1 9000] datagram_facts [of "[2]" 2 9000] by simp_all
  then have lb: "length ?a = block_size" "length ?b = block_size" "dg_size ?b = 9000"
    by (simp_all add: dg_ok_def)
  have lt: "let_through 1 [?a, ?b] = [?a]" using b lb by (simp add: signed_divide_int_def del: One_nat_def)
  let ?cl = "(client_init (UserData 0 0 0 0 []) 0 0 0 (\<lambda>_. None))\<lparr>cl_user := (UserData 0 0 0 0 [])\<lparr>m_writeList :=
        \<lparr>sl_packcount = 2, sl_package = [?a, ?b]\<rparr>\<rparr>\<rparr>"
  have "sl_package (m_writeList (cl_user ?cl)) = [?a, ?b]"
    "sl_packcount (m_writeList (cl_user ?cl)) = word_of_nat (length [?a, ?b])"
    "length [?a, ?b] < 2 ^ 31" "\<forall>b \<in> set [?a, ?b]. length b = block_size" "udpSendNum ?cl = 1" "cl_udp ?cl = []"
    using lb(1,2) by (simp_all add: client_init_def)
  from udp_sends_every_third [OF this] show ?thesis unfolding lt by blast
qed

section \<open>File names and quitting\<close>

text \<open>The name of a file goes with \<open>strcpy\<close> into a field of ten bytes that lies before the contents:
  a name of ten bytes or more overwrites the beginning of every piece of the file.\<close>

theorem long_name_overwrites:
  assumes "length junk = block_size" "length b \<le> 1390"
    and "10 \<le> length name" "length name \<le> 9 + length b"
  shows "\<exists>p. udp_block junk b now name u = Inr p \<and>
    dg_data p = blit 0 (drop 10 (name @ [0])) b"
proof -
  define q where "q = blit 32 (i32_bytes (word_of_int (ud_fileSize u))) (blit 28 (i32_bytes (sendFileToClientId u))
    (blit 20 (i64_bytes (word_of_int now)) (blit 16 (i32_bytes (word_of_int (sendFileCount u)))
    (blit 8 (i32_bytes (word_of_nat (16 + 20 + 10 + length b))) (blit 4 (i32_bytes (word_of_int (ud_userId u)))
    (blit 0 (i32_bytes (word_of_int (cmd_num UDPSENDFILE))) (blit 12 (i32_bytes 1) (blit 46 b junk))))))))"
  let ?s = "name @ [0]"
  have lj: "length junk = 1436" using assms(1) by (simp add: block_size_def)
  have lq: "length q = 1436" using lj assms(2) by (simp add: q_def)
  have run: "udp_block junk b now name u = Inr (blit 36 ?s q)"
    using lj assms lq by (simp add: udp_block_def c_memcpy_def q_def)
  have q46: "cells 46 (length b) q = b" using lj assms(2) by (simp add: q_def)
  have h8: "cells 8 4 (blit 36 ?s q) = i32_bytes (word_of_nat (46 + length b))"
    using lj assms by (simp add: q_def)
  have h: "hdr_length (blit 36 ?s q) = int (46 + length b)"
    unfolding hdr_length_def h8 bytes_i32_bytes by (rule sint_word_of_nat) (use assms in simp)
  have dl: "length (drop 10 ?s) \<le> length b" using assms(4) by simp
  have "blit 36 ?s q = take 36 q @ ?s @ drop (36 + length ?s) q" by (simp add: blit_def)
  moreover have "length (take 36 q) = 36" using lq by simp
  moreover have "drop (36 + length ?s) q = drop (length (drop 10 ?s)) (drop 46 q)"
    using assms(3) by simp
  ultimately have "drop 46 (blit 36 ?s q) = drop 10 ?s @ drop (length (drop 10 ?s)) (drop 46 q)"
    using assms(3) by simp
  then have "cells 46 (length b) (blit 36 ?s q) = take (length b) (drop 10 ?s @ drop (length (drop 10 ?s)) (drop 46 q))"
    by (simp add: cells_def)
  also have "\<dots> = drop 10 ?s @ drop (length (drop 10 ?s)) (take (length b) (drop 46 q))"
    using dl by (simp add: drop_take del: drop_append)
  also have "\<dots> = blit 0 (drop 10 ?s) b"
    using q46 by (simp add: cells_def blit_def [of 0] del: drop_append)
  finally show ?thesis using run by (simp add: dg_data_def h)
qed

lemma long_name_overwrites_witness:
  "\<exists>p. udp_block (replicate block_size 0) [1, 2, 3] 0 (replicate 10 65) (UserData 0 0 0 0 []) = Inr p \<and>
     dg_data p = [0, 2, 3]"
  using long_name_overwrites [of "replicate block_size 0" "[1, 2, 3]" "replicate 10 65" 0 "UserData 0 0 0 0 []"]
  by (simp add: blit_def)

text \<open>The menu entry that quits writes its command into the last block that was allocated for
  sending: it works only while such a block is still waiting to be sent. Before anything was allocated
  it goes through an uninitialised pointer, and after the registration at the start, or once the block
  has been sent, into freed memory; and the send flag that is set afterwards makes the I/O thread free
  that block again.\<close>

theorem quit_needs_pending_block:
  assumes "udpSendRegister junk u = Inr u1" "printCmdIdList junk2 CHR ''1'' txt to u1 = Inr u2"
    and "cl_writable rs (cl\<lparr>cl_user := u2\<rparr>) = Inr (Some cl3)"
  shows "printCmdIdList junk3 CHR ''4'' txt3 to3 u1 = Inl UseAfterFree \<and>
    (\<exists>b. ud_sendbuff u2 = BufLive b \<and> (4 \<le> length b \<longrightarrow> printCmdIdList junk3 CHR ''4'' txt3 to3 u2 =
       Inr (u2\<lparr>ud_sendbuff := BufLive (blit 0 (i32_bytes 11) b)\<rparr>))) \<and>
    printCmdIdList junk3 CHR ''4'' txt3 to3 (cl_user cl3) = Inl UseAfterFree \<and>
    cl_writable rs cl3 = Inl UseAfterFree"
proof -
  have 1: "ud_sendbuff u1 = BufGone" "ud_MsgSend u1 = MsgIsSendbuff"
    using assms(1) by (auto simp: udpSendRegister_def res_simps)
  obtain b where 2: "ud_sendbuff u2 = BufLive b" "ud_MsgSend u2 = MsgIsSendbuff"
    using assms(2) by (auto simp: printCmdIdList_def res_simps put_send_def)
  have 3: "ud_sendbuff (cl_user cl3) = BufGone" "ud_MsgSend (cl_user cl3) = MsgIsSendbuff"
    using assms(3) 2 by (auto simp: cl_writable_def Let_def res_simps)
  show ?thesis
    using 1 2 3 by (simp add: printCmdIdList_def cl_writable_def Let_def cmd_num_def)
qed

lemma quit_needs_pending_block_witness:
  "\<exists>u1. udpSendRegister (replicate block_size 0) (UserData 0 0 0 0 []) = Inr u1 \<and>
     printCmdIdList [] CHR ''4'' [] 0 u1 = Inl UseAfterFree"
proof -
  let ?j = "replicate block_size (0::byte)"
  obtain u1 where 1: "udpSendRegister ?j (UserData 0 0 0 0 []) = Inr u1"
    by (simp add: udpSendRegister_def block_size_def)
  have "fill_chat ?j [] (ud_userId u1) (Some 0) SENDtoONE =
      Inr (chat_block ?j [] (ud_userId u1) (Some 0) SENDtoONE, int (21 + length ([]::block)))"
    by (rule fill_chat_eq) simp_all
  then obtain u2 where 2: "printCmdIdList ?j CHR ''1'' [] 0 u1 = Inr u2" and
    u2: "ud_sendbuff u2 = BufLive (chat_block ?j [] (ud_userId u1) (Some 0) SENDtoONE)"
      "remainLengthofSend u2 = 21" "lengthHasSend u2 = lengthHasSend u1"
    by (simp add: printCmdIdList_def put_send_def get_send_def)
  have l0: "lengthHasSend u1 = 0"
    using 1 by (auto simp: udpSendRegister_def res_simps UserData_def)
  have lb: "length (chat_block ?j [] (ud_userId u1) (Some 0) SENDtoONE) = block_size"
    by (rule chat_block_fields(1)) simp_all
  let ?cl = "client_init u2 0 0 0 (\<lambda>_. None)"
  have c: "?cl\<lparr>cl_user := u2\<rparr> = ?cl" by (simp add: client_init_def)
  obtain cl3 where 3: "cl_writable [21] (?cl\<lparr>cl_user := u2\<rparr>) = Inr (Some cl3)"
    unfolding c using u2 l0 lb
    by (simp add: cl_writable_def client_init_def Let_def cl_send_loop.simps block_size_def)
  from quit_needs_pending_block [OF 1 2 3] 1 show ?thesis by blast
qed

end
