(* ===== verification/FileRelay.thy ===== *)
theory FileRelay
  imports ReportProps
begin

text \<open>
  A file all the way: cut up by one client, sent by its datagram thread, received, routed and sent on by
  the threads of the server, and put together by another client.
\<close>

section \<open>Datagrams with a receiver\<close>





section \<open>The server\<close>








section \<open>The receiver\<close>







section \<open>The datagrams that leave the sender\<close>








section \<open>From disk to disk\<close>









section \<open>The missing pieces are never asked for\<close>







end
