(* ===== verification/LoginProps.thy ===== *)
theory LoginProps
  imports RouterProps
begin

text \<open>
  Logins from the accepted connection to the registered user, through the steps of the three threads
  that take part, and how they go wrong; users that disconnect.
\<close>

section \<open>The steps of a login, one connection at a time\<close>

text \<open>
  The state in which only the connection \<open>fd\<close> is logging in: the two maps of the login phase hold it
  and nothing else, the object at \<open>a\<close> is \<open>u\<close>.
\<close>

definition only_login :: "int \<Rightarrow> nat \<Rightarrow> cunloginuser \<Rightarrow> server \<Rightarrow> bool" where
  "only_login fd a u s \<longleftrightarrow> acc_loginMap s = [(fd, a)] \<and> cmd_loginMap s = [(fd, a)] \<and>
     unlogins s a = Some u \<and> ul_socket u = fd"

text \<open>No login is under way and the two lists between the threads are empty.\<close>

definition no_login :: "server \<Rightarrow> bool" where
  "no_login s \<longleftrightarrow> acc_loginMap s = [] \<and> cmd_loginMap s = [] \<and> m_unloginuser (vcdLoginList s) = [] \<and>
     m_unLoginCount (vcdLoginList s) = 0 \<and> m_user (userListToIO s) = [] \<and> m_count (userListToIO s) = 0"

text \<open>A login message of \<open>length p\<close> bytes.\<close>

definition login_message :: "block \<Rightarrow> bool" where
  "login_message p \<longleftrightarrow> 72 \<le> length p \<and> length p \<le> 1500 \<and> hdr_length p = int (length p) \<and>
     pk_cmd p = Some LOGIN"

definition admin_login :: "block \<Rightarrow> bool" where
  "admin_login p \<longleftrightarrow> c_streq 16 ''admin'' p \<and> c_streq 66 ''admin'' p"

lemma admin_login_blit: "72 \<le> length p \<Longrightarrow> admin_login (blit 0 p b) = admin_login p"
  by (simp add: admin_login_def c_streq_def cells_blit_inside)

lemma sint_cmd_LOGIN: "pk_cmd p = Some LOGIN \<Longrightarrow> sint (bytes_i32 (take 4 p)) = cmd_num LOGIN"
  by (simp add: pk_cmd_def cmd_of_Some_iff)

text \<open>The connection is accepted and taken over by the command thread.\<close>

definition new_login :: "int \<Rightarrow> int \<Rightarrow> int \<Rightarrow> block \<Rightarrow> block \<Rightarrow> server \<Rightarrow> cunloginuser" where
  "new_login fd now jrem jsend jrecv s =
     (CUnloginuser fd (acc_userId s) jrem jsend jrecv)\<lparr>loginTime := now\<rparr>"

lemma accepted_and_taken:
  assumes "no_login s" "0 \<le> fd"
  shows "\<exists>s'. cmd_take (accept_conn fd now jrem jsend jrecv s) = Inr s' \<and>
    only_login fd (fresh s) (new_login fd now jrem jsend jrecv s) s' \<and>
    acc_userId s' = acc_userId s \<and> fresh s' = fresh s + 1 \<and> cmd_map s' = cmd_map s \<and>
    io_map s' = io_map s \<and> users s' = users s \<and> outbox s' = outbox s \<and>
    userListToIO s' = userListToIO s \<and> sock_rx s' = sock_rx s \<and> sock_eof s' = sock_eof s"
  using assms
  by (simp add: accept_conn_def cmd_take_def no_login_def unloginUserPush_def unloginUserPop_def
      getUnloginSize_def deref_unlogin_def put_unlogin_def only_login_def new_login_def CUnloginuser_def
      Let_def)

text \<open>The whole message is there when the connection is read.\<close>

lemma login_message_read:
  assumes o: "only_login fd a u s" and u: "recvHeadFlag u" "length (recvbuff u) = 1500"
    and p: "login_message p" "sock_rx s fd = p" and fd: "0 \<le> fd"
  shows "\<exists>s'. accept_in fd now s = Inr s' \<and>
    only_login fd a (u\<lparr>recvbuff := blit 0 p (recvbuff u), totalLengthOfData := int (length p),
      remainLengthofRecv := 0\<rparr>) s' \<and>
    acc_userId s' = acc_userId s \<and> fresh s' = fresh s \<and> cmd_map s' = cmd_map s \<and>
    io_map s' = io_map s \<and> users s' = users s \<and> outbox s' = outbox s \<and>
    userListToIO s' = userListToIO s"
proof -
  let ?b = "blit 0 (take 16 p) (recvbuff u)"
  from p have lp: "72 \<le> length p" "length p \<le> 1500" and h: "hdr_length p = int (length p)"
    and c: "sint (bytes_i32 (take 4 p)) = cmd_num LOGIN"
    using sint_cmd_LOGIN by (auto simp: login_message_def)
  have lb: "length ?b = 1500" using u lp by simp
  have lt: "length (take 16 p) = 16" using lp by simp
  have k1: "k_recv header_size p (sock_eof s fd) = (16, take 16 p, drop 16 p)"
    using lp by (subst k_recv_take) (auto simp: header_size_def min_absorb1)
  have c1: "c_memcpy 0 (take 16 p) (recvbuff u) (int (length (take 16 p))) = Inr ?b"
    using lt u by (simp add: c_memcpy_def)
  have r0: "rd32 0 ?b = Inr (bytes_i32 (take 4 p))"
    using lb lp by (simp add: take_blit_0 min_absorb1)
  have r8: "rd32 8 ?b = Inr (bytes_i32 (cells 8 4 p))"
    using lb lp by (simp add: cells_blit_inside cells_take)
  have l: "sint (bytes_i32 (cells 8 4 p)) = int (length p)" using h by (simp add: hdr_length_def)
  define u1 where "u1 = u\<lparr>recvbuff := ?b, totalLengthOfData := int (length p),
      remainLengthofRecv := int (length p) - 16, recvHeadFlag := False\<rparr>"
  let ?s = "s\<lparr>m_connfd := fd\<rparr>"
  define s1 where "s1 = put_unlogin a u1 (?s\<lparr>sock_rx := (sock_rx s)(fd := drop 16 p)\<rparr>)"
  have hd: "accept_head fd ?s = Inr (s1, False)"
    using o p(2) k1 c1 r0 r8 l c
    by (simp add: accept_head_def only_login_def header_size_def Let_def put_unlogin_def s1_def u1_def)
  have k2: "k_recv (int (length p) - 16) (drop 16 p) e = (int (length p) - 16, drop 16 p, [])" for e
    using lp by (subst k_recv_take) auto
  have bb: "blit 16 (drop 16 p) ?b = blit 0 p (recvbuff u)"
    using blit_blit_adjacent [of 16 0 "take 16 p" "drop 16 p" "recvbuff u"] lt lp u
    by (simp flip: append_assoc)
  have c2: "c_memcpy header_size (drop 16 p) ?b (int (length p - 16)) = Inr (blit 0 p (recvbuff u))"
    using lp lb by (simp add: c_memcpy_def header_size_def bb [symmetric])
  define u2 where "u2 = u\<lparr>totalLengthOfData := int (length p), recvbuff := blit 0 p (recvbuff u),
      remainLengthofRecv := 0, recvHeadFlag := True\<rparr>"
  have u2: "u2 = u\<lparr>recvbuff := blit 0 p (recvbuff u), totalLengthOfData := int (length p),
      remainLengthofRecv := 0\<rparr>"
    using u(1) by (cases u) (simp add: u2_def)
  have bd: "accept_body fd s1 = Inr (put_unlogin a u2 (s1\<lparr>sock_rx := (sock_rx s1)(fd := [])\<rparr>))"
    using o u(1) lp k2 c2
    by (simp add: accept_body_def only_login_def s1_def u1_def u2_def put_unlogin_def Let_def)
  have rd: "accept_read fd ?s = Inr (put_unlogin a u2 (s1\<lparr>sock_rx := (sock_rx s1)(fd := [])\<rparr>))"
    using o u(1) hd bd
    by (simp add: accept_read_def only_login_def) (simp add: s1_def u1_def put_unlogin_def only_login_def)
  have "accept_in fd now s = accept_read fd ?s"
    using lp p(2) fd by (auto simp: accept_in_def Let_def k_fionread_def header_size_def)
  then show ?thesis
    using rd o unfolding u2 by (simp add: only_login_def s1_def put_unlogin_def)
qed

text \<open>The decision, the reply, and the registration.\<close>

definition reply_of :: "bool \<Rightarrow> int \<Rightarrow> block \<Rightarrow> block" where
  "reply_of ok uid jsend =
     blit 4 (i32_bytes (word_of_int uid)) (blit 16 ((if ok then str_bytes ''Y'' else str_bytes ''N'') @ [0]) jsend)"

lemma login_decided:
  assumes o: "only_login fd a u s" and u: "\<not> authFlag u" "length (m_loginMsgSend u) = 18"
    "\<not> loginReturnFlag u" "\<not> (ul_deleteFlag1 u \<and> ul_deleteFlag2 u)"
  shows "\<exists>s'. cmd_logins resume now jcount jsend s = Inr s' \<and>
    only_login fd a (u\<lparr>loginState := (if admin_login (recvbuff u) then LOGINSUCCESS else LOGINFAILED),
      m_loginMsgSend := reply_of (admin_login (recvbuff u)) (ul_userId u) (m_loginMsgSend u),
      authFlag := True\<rparr>) s' \<and>
    acc_userId s' = acc_userId s \<and> fresh s' = fresh s \<and> cmd_map s' = cmd_map s \<and>
    io_map s' = io_map s \<and> users s' = users s \<and> outbox s' = outbox s \<and>
    userListToIO s' = userListToIO s \<and> sock_rx s' = sock_rx s \<and> sock_eof s' = sock_eof s"
  using assms
  by (simp add: cmd_logins_def each_key_def only_login_def login_one_def authenticate_def Let_def
      put_unlogin_def login_accepted_def admin_login_def reply_of_def)

lemma login_undecided_again:
  assumes o: "only_login fd a u s" and u: "authFlag u" "\<not> loginReturnFlag u"
    "\<not> (ul_deleteFlag1 u \<and> ul_deleteFlag2 u)"
  shows "cmd_logins resume now jcount jsend s = Inr s"
  using assms
  by (simp add: cmd_logins_def each_key_def only_login_def login_one_def authenticate_def
      put_unlogin_def fun_upd_idem)

lemma login_replied:
  assumes o: "only_login fd a u s" and u: "loginState u \<noteq> NOLOGIN" "remainSend u = 18"
    "length (m_loginMsgSend u) = 18"
  shows "\<exists>s' s''. accept_arm s = Inr s' \<and> accept_out fd 18 s' = Inr s'' \<and>
    outbox s'' = outbox s @ [(fd, m_loginMsgSend u)] \<and>
    acc_loginMap s'' = [] \<and> cmd_loginMap s'' = [(fd, a)] \<and>
    unlogins s'' a = Some (u\<lparr>remainSend := 0, loginReturnFlag := True\<rparr>) \<and>
    acc_userId s'' = (if loginState u = LOGINSUCCESS then acc_userId s + 1 else acc_userId s) \<and>
    fresh s'' = fresh s \<and> cmd_map s'' = cmd_map s \<and> io_map s'' = io_map s \<and> users s'' = users s \<and>
    userListToIO s'' = userListToIO s"
  using assms
  by (simp add: accept_arm_def each_key_def only_login_def accept_out_def Let_def put_unlogin_def)

lemma login_registered:
  assumes s: "cmd_loginMap s = [(fd, a)]" "unlogins s a = Some u" "authFlag u" "loginReturnFlag u"
    "\<not> (ul_deleteFlag1 u \<and> ul_deleteFlag2 u)"
    and l: "m_user (userListToIO s) = []" "m_count (userListToIO s) = 0"
  shows "\<exists>s' s''. cmd_logins True now jcount jsend s = Inr s' \<and> io_take s' = Inr s'' \<and>
    cmd_loginMap s'' = [] \<and> unlogins s'' a = None \<and>
    (if loginState u = LOGINSUCCESS
     then cmd_map s'' = map_ins (ul_userId u) (fresh s) (cmd_map s) \<and>
          io_map s'' = map_ins fd (fresh s) (io_map s) \<and>
          users s'' = (users s)(fresh s := Some (setUserId (ul_userId u) (setSocket fd (CUser now jcount jsend))))
     else cmd_map s'' = cmd_map s \<and> io_map s'' = io_map s \<and> users s'' = users s)"
  using assms
  by (simp add: cmd_logins_def each_key_def login_one_def authenticate_def Let_def put_unlogin_def
      put_user_def io_take_def vcdPush_def vcdPop_def getSize_def deref_user_def getSocket_def
      setSocket_def setUserId_def)

section \<open>A login that works\<close>

text \<open>A login as it is taken over.\<close>

lemma new_login_fields:
  fixes fd now jrem jsend jrecv s
  defines "u \<equiv> new_login fd now jrem jsend jrecv s"
  shows "recvHeadFlag u" "\<not> authFlag u" "ul_userId u = acc_userId s" "\<not> loginReturnFlag u"
    "\<not> ul_deleteFlag1 u" "remainSend u = 18" "m_loginMsgSend u = jsend" "recvbuff u = jrecv"
  by (simp_all add: u_def new_login_def CUnloginuser_def loginMessageSend_size_def)

text \<open>A login from the first byte to the registered user: when the connection \<open>fd\<close> is accepted, the
  whole login message arrives before the command thread looks at it, and then every thread makes its
  step, the connection is answered once, with "Y" and its id if name and password are admin and with
  "N" otherwise; exactly in the first case a user with that id and that socket is registered with the
  command thread and the I/O thread, and the next id is one higher.\<close>

theorem login_end_to_end:
  assumes "no_login s" "0 \<le> fd" "login_message p" "sock_rx s fd = p"
    and "length jsend = 18" "length jrecv = 1500"
  shows "\<exists>s1 s2 s3 s4 s5 s6 s7. cmd_take (accept_conn fd now jrem jsend jrecv s) = Inr s1 \<and>
    accept_in fd now s1 = Inr s2 \<and> cmd_logins True now jc js s2 = Inr s3 \<and> accept_arm s3 = Inr s4 \<and>
    accept_out fd 18 s4 = Inr s5 \<and> cmd_logins True now jc js s5 = Inr s6 \<and> io_take s6 = Inr s7 \<and>
    outbox s5 = outbox s @ [(fd, reply_of (admin_login p) (acc_userId s) jsend)] \<and>
    acc_loginMap s5 = [] \<and> cmd_loginMap s7 = [] \<and>
    (if admin_login p
     then acc_userId s5 = acc_userId s + 1 \<and>
       (\<exists>b. cmd_map s7 = map_ins (acc_userId s) b (cmd_map s) \<and> io_map s7 = map_ins fd b (io_map s) \<and>
            users s7 = (users s)(b := Some (setUserId (acc_userId s) (setSocket fd (CUser now jc js)))))
     else acc_userId s5 = acc_userId s \<and> cmd_map s7 = cmd_map s \<and> io_map s7 = io_map s \<and>
       users s7 = users s)"
proof -
  let ?u = "new_login fd now jrem jsend jrecv s"
  from accepted_and_taken [OF assms(1,2), of now jrem jsend jrecv] obtain s1 where
    1: "cmd_take (accept_conn fd now jrem jsend jrecv s) = Inr s1" "only_login fd (fresh s) ?u s1"
      "acc_userId s1 = acc_userId s" "cmd_map s1 = cmd_map s" "io_map s1 = io_map s"
      "users s1 = users s" "outbox s1 = outbox s" "userListToIO s1 = userListToIO s" "sock_rx s1 = sock_rx s"
    by blast
  note f = new_login_fields [of fd now jrem jsend jrecv s]
  have len: "length (recvbuff ?u) = 1500" using assms(6) f by simp
  have rx: "sock_rx s1 fd = p" using 1 assms(4) by simp
  from login_message_read [OF 1(2) f(1) len assms(3) rx assms(2), of now] obtain s2 where
    2: "accept_in fd now s1 = Inr s2"
      "only_login fd (fresh s) (?u\<lparr>recvbuff := blit 0 p jrecv, totalLengthOfData := int (length p),
         remainLengthofRecv := 0\<rparr>) s2"
      "acc_userId s2 = acc_userId s1" "cmd_map s2 = cmd_map s1" "io_map s2 = io_map s1"
      "users s2 = users s1" "outbox s2 = outbox s1" "userListToIO s2 = userListToIO s1"
    using f by auto
  have ad: "admin_login (blit 0 p jrecv) = admin_login p"
    using assms(3) by (intro admin_login_blit) (simp add: login_message_def)
  let ?v = "?u\<lparr>recvbuff := blit 0 p jrecv, totalLengthOfData := int (length p),
         remainLengthofRecv := 0, loginState := (if admin_login p then LOGINSUCCESS else LOGINFAILED),
         m_loginMsgSend := reply_of (admin_login p) (acc_userId s) jsend, authFlag := True\<rparr>"
  from login_decided [OF 2(2), of True now jc js] f ad assms(5) obtain s3 where
    3: "cmd_logins True now jc js s2 = Inr s3" "only_login fd (fresh s) ?v s3"
      "acc_userId s3 = acc_userId s2" "cmd_map s3 = cmd_map s2" "io_map s3 = io_map s2"
      "users s3 = users s2" "outbox s3 = outbox s2" "userListToIO s3 = userListToIO s2"
    by auto
  have v: "loginState ?v \<noteq> NOLOGIN" "remainSend ?v = 18" "length (m_loginMsgSend ?v) = 18"
    using f assms(5) by (simp_all add: reply_of_def)
  from login_replied [OF 3(2) v] obtain s4 s5 where
    4: "accept_arm s3 = Inr s4" "accept_out fd 18 s4 = Inr s5"
      "outbox s5 = outbox s3 @ [(fd, m_loginMsgSend ?v)]" "acc_loginMap s5 = []"
      "cmd_loginMap s5 = [(fd, fresh s)]"
      "unlogins s5 (fresh s) = Some (?v\<lparr>remainSend := 0, loginReturnFlag := True\<rparr>)"
      "acc_userId s5 = (if loginState ?v = LOGINSUCCESS then acc_userId s3 + 1 else acc_userId s3)"
      "cmd_map s5 = cmd_map s3" "io_map s5 = io_map s3" "users s5 = users s3"
      "userListToIO s5 = userListToIO s3"
    by blast
  have e: "m_user (userListToIO s5) = []" "m_count (userListToIO s5) = 0"
    using 1 2 3 4 assms(1) by (simp_all add: no_login_def)
  have w: "authFlag (?v\<lparr>remainSend := 0, loginReturnFlag := True\<rparr>)"
    "loginReturnFlag (?v\<lparr>remainSend := 0, loginReturnFlag := True\<rparr>)"
    "\<not> (ul_deleteFlag1 (?v\<lparr>remainSend := 0, loginReturnFlag := True\<rparr>) \<and>
        ul_deleteFlag2 (?v\<lparr>remainSend := 0, loginReturnFlag := True\<rparr>))"
    using f by simp_all
  from login_registered [OF 4(5,6) w e, of now jc js] obtain s6 s7 where
    6: "cmd_logins True now jc js s5 = Inr s6" "io_take s6 = Inr s7" "cmd_loginMap s7 = []"
      "if admin_login p
       then cmd_map s7 = map_ins (acc_userId s) (fresh s5) (cmd_map s5) \<and>
          io_map s7 = map_ins fd (fresh s5) (io_map s5) \<and>
          users s7 = (users s5)(fresh s5 := Some (setUserId (acc_userId s) (setSocket fd (CUser now jc js))))
       else cmd_map s7 = cmd_map s5 \<and> io_map s7 = io_map s5 \<and> users s7 = users s5"
    using f by (auto split: if_splits)
  have out: "outbox s5 = outbox s @ [(fd, reply_of (admin_login p) (acc_userId s) jsend)]"
    by (simp add: 1(7) 2(7) 3(7) 4(3))
  have same: "acc_userId s3 = acc_userId s" "cmd_map s5 = cmd_map s" "io_map s5 = io_map s" "users s5 = users s"
    by (simp_all add: 1(3-6) 2(3-6) 3(3-6) 4(8-10))
  have id: "acc_userId s5 = (if admin_login p then acc_userId s + 1 else acc_userId s)"
    by (simp add: 4(7) same(1))
  show ?thesis
    using 1(1) 2(1) 3(1) 4(1,2,4) 6(1-3) out 6(4) [unfolded same(2-4)] id
    by (cases "admin_login p") (simp_all only: if_True if_False, blast+)
qed

text \<open>A login message.\<close>

definition admin_message :: block where
  "admin_message = i32_bytes 1 @ i32_bytes 0 @ i32_bytes 86 @ i32_bytes 0 @
     str_bytes ''admin'' @ replicate 45 0 @ str_bytes ''admin'' @ replicate 15 0"

lemma admin_message_facts:
  "login_message admin_message" "admin_login admin_message"
proof -
  have b: "admin_message = [1,0,0,0, 0,0,0,0, 86,0,0,0, 0,0,0,0] @ str_bytes ''admin'' @ replicate 45 0 @
      str_bytes ''admin'' @ replicate 15 0"
    by (simp add: admin_message_def i32_bytes_def le_enc_numeral)
  have l: "length admin_message = 86" by (simp add: b)
  show "login_message admin_message"
    by (simp add: login_message_def l) (simp add: b hdr_length_def pk_cmd_def cells_def bytes_i32_def
        cmd_of_def all_cmds_def cmd_num_def)
  show "admin_login admin_message"
    by (simp add: admin_login_def c_streq_def b cells_append_right cells_append_left)
      (simp add: cells_def str_bytes_def)
qed

lemma no_login_init: "no_login (server_init 0 0 0 0)"
  by (simp add: no_login_def server_init_def CUserList_def)

lemma no_login_rx: "no_login (s\<lparr>sock_rx := r\<rparr>) = no_login s"
  by (simp add: no_login_def)

lemma login_end_to_end_witness:
  "\<exists>s1 s2 s3 s4 s5 s6 s7. cmd_take (accept_conn 5 0 0 (replicate 18 0) (replicate 1500 0)
      ((server_init 0 0 0 0)\<lparr>sock_rx := \<lambda>_. admin_message\<rparr>)) = Inr s1 \<and>
    accept_in 5 0 s1 = Inr s2 \<and> cmd_logins True 0 0 (replicate send_cap 0) s2 = Inr s3 \<and>
    accept_arm s3 = Inr s4 \<and> accept_out 5 18 s4 = Inr s5 \<and>
    cmd_logins True 0 0 (replicate send_cap 0) s5 = Inr s6 \<and> io_take s6 = Inr s7 \<and>
    outbox s5 = [(5, reply_of True 1 (replicate 18 0))] \<and> acc_userId s5 = 2 \<and> keys (cmd_map s7) = [1]"
proof -
  have i: "acc_userId (server_init 0 0 0 0) = 1" "outbox (server_init 0 0 0 0) = []"
    "cmd_map (server_init 0 0 0 0) = []" by (simp_all add: server_init_def)
  from login_end_to_end [of "(server_init 0 0 0 0)\<lparr>sock_rx := \<lambda>_. admin_message\<rparr>" 5 admin_message
      "replicate 18 0" "replicate 1500 0" 0 0 0 "replicate send_cap 0"]
  show ?thesis
    using admin_message_facts no_login_init by (auto simp: no_login_rx i)
qed

section \<open>Logins that go wrong\<close>

text \<open>C24: The decision is taken as soon as the command thread has the connection, not when the message
  has arrived: if the command thread makes its pass between the accept and the arrival, a client that
  then sends the right name and password is answered "N" (unless the uninitialised buffer happened to
  hold them), and neither the message nor a later pass changes that.\<close>

theorem login_race:
  assumes "no_login s" "0 \<le> fd" "login_message p" "length jsend = 18" "length jrecv = 1500"
    and "\<not> admin_login jrecv"
  shows "\<exists>s1 s2 s3 s4 s5. cmd_take (accept_conn fd now jrem jsend jrecv s) = Inr s1 \<and>
    cmd_logins True now jc js s1 = Inr s2 \<and>
    accept_in fd now (s2\<lparr>sock_rx := (sock_rx s2)(fd := p)\<rparr>) = Inr s3 \<and>
    cmd_logins True now jc js s3 = Inr s3 \<and> accept_arm s3 = Inr s4 \<and> accept_out fd 18 s4 = Inr s5 \<and>
    outbox s5 = outbox s @ [(fd, reply_of False (acc_userId s) jsend)] \<and>
    acc_userId s5 = acc_userId s \<and> cmd_map s5 = cmd_map s"
proof -
  let ?u = "new_login fd now jrem jsend jrecv s"
  from accepted_and_taken [OF assms(1,2), of now jrem jsend jrecv] obtain s1 where
    1: "cmd_take (accept_conn fd now jrem jsend jrecv s) = Inr s1" "only_login fd (fresh s) ?u s1"
      "acc_userId s1 = acc_userId s" "cmd_map s1 = cmd_map s" "outbox s1 = outbox s"
    by blast
  note f = new_login_fields [of fd now jrem jsend jrecv s]
  let ?v = "?u\<lparr>loginState := LOGINFAILED, m_loginMsgSend := reply_of False (acc_userId s) jsend,
      authFlag := True\<rparr>"
  from login_decided [OF 1(2), of True now jc js] f assms(4,6) obtain s2 where
    2: "cmd_logins True now jc js s1 = Inr s2" "only_login fd (fresh s) ?v s2"
      "acc_userId s2 = acc_userId s1" "cmd_map s2 = cmd_map s1" "outbox s2 = outbox s1"
    by auto
  let ?s2 = "s2\<lparr>sock_rx := (sock_rx s2)(fd := p)\<rparr>"
  have o2: "only_login fd (fresh s) ?v ?s2" using 2(2) by (simp add: only_login_def)
  have v: "recvHeadFlag ?v" "length (recvbuff ?v) = 1500" using f assms(5) by simp_all
  let ?w = "?v\<lparr>recvbuff := blit 0 p (recvbuff ?v), totalLengthOfData := int (length p),
      remainLengthofRecv := 0\<rparr>"
  from login_message_read [OF o2 v assms(3) _ assms(2), of now] obtain s3 where
    3: "accept_in fd now ?s2 = Inr s3" "only_login fd (fresh s) ?w s3"
      "acc_userId s3 = acc_userId s2" "cmd_map s3 = cmd_map s2" "outbox s3 = outbox s2"
    by auto
  have w: "authFlag ?w" "\<not> loginReturnFlag ?w" "\<not> (ul_deleteFlag1 ?w \<and> ul_deleteFlag2 ?w)"
    "loginState ?w \<noteq> NOLOGIN" "remainSend ?w = 18" "length (m_loginMsgSend ?w) = 18"
    using f assms(4) by (simp_all add: reply_of_def)
  from login_replied [OF 3(2) w(4-6)] obtain s4 s5 where
    4: "accept_arm s3 = Inr s4" "accept_out fd 18 s4 = Inr s5"
      "outbox s5 = outbox s3 @ [(fd, m_loginMsgSend ?w)]"
      "acc_userId s5 = (if loginState ?w = LOGINSUCCESS then acc_userId s3 + 1 else acc_userId s3)"
      "cmd_map s5 = cmd_map s3"
    by blast
  have "cmd_logins True now jc js s3 = Inr s3"
    by (rule login_undecided_again [OF 3(2) w(1-3)])
  moreover have "outbox s5 = outbox s @ [(fd, reply_of False (acc_userId s) jsend)]"
    "acc_userId s5 = acc_userId s" "cmd_map s5 = cmd_map s"
    by (simp_all add: 1(3-5) 2(3-5) 3(3-5) 4(3-5))
  ultimately show ?thesis
    using 1(1) 2(1) 3(1) 4(1,2) by blast
qed

lemma admin_login_zero: "\<not> admin_login (replicate 1500 0)"
  by (simp add: admin_login_def c_streq_def cells_def str_bytes_def)

lemma login_race_witness:
  "\<exists>s1 s2 s3 s4 s5. cmd_take (accept_conn 5 0 0 (replicate 18 0) (replicate 1500 0)
      (server_init 0 0 0 0)) = Inr s1 \<and>
    cmd_logins True 0 0 [] s1 = Inr s2 \<and>
    accept_in 5 0 (s2\<lparr>sock_rx := (sock_rx s2)(5 := admin_message)\<rparr>) = Inr s3 \<and>
    accept_arm s3 = Inr s4 \<and> accept_out 5 18 s4 = Inr s5 \<and>
    outbox s5 = [(5, reply_of False 1 (replicate 18 0))]"
proof -
  have i: "acc_userId (server_init 0 0 0 0) = 1" "outbox (server_init 0 0 0 0) = []"
    by (simp_all add: server_init_def)
  from login_race [OF no_login_init, of 5 admin_message "replicate 18 0" "replicate 1500 0" 0 0 0 "[]"]
  show ?thesis
    using admin_message_facts admin_login_zero by (auto simp: i)
qed

text \<open>C33: A connection that has not sent its message stops the server when it closes, and so does one
  whose first message is not a login: the connection is removed from the map and then looked up in it
  again.\<close>

theorem login_disconnect_crash:
  assumes "map_ok (acc_loginMap s)" "map_find fd (acc_loginMap s) = Some a" "unlogins s a = Some u"
    and "0 \<le> fd"
    and "sock_rx s fd = [] \<or> recvHeadFlag u \<and> length (recvbuff u) = 1500 \<and> 16 \<le> length (sock_rx s fd) \<and>
      pk_cmd (sock_rx s fd) \<noteq> Some LOGIN"
  shows "accept_in fd now s = Inl NullDeref"
proof -
  have gone: "map_find fd (map_del fd (acc_loginMap s)) = None"
    using assms(1) by (simp add: map_find_map_del)
  from assms(5) show ?thesis
  proof
    assume "sock_rx s fd = []"
    then show ?thesis
      using assms(2-4) gone
      by (simp add: accept_in_def Let_def k_fionread_def header_size_def deleteOneUnloginUser_def
          put_unlogin_def)
  next
    assume h: "recvHeadFlag u \<and> length (recvbuff u) = 1500 \<and> 16 \<le> length (sock_rx s fd) \<and>
      pk_cmd (sock_rx s fd) \<noteq> Some LOGIN"
    let ?p = "sock_rx s fd"
    let ?b = "blit 0 (take 16 ?p) (recvbuff u)"
    have lt: "length (take 16 ?p) = 16" using h by simp
    have k1: "k_recv header_size ?p e = (16, take 16 ?p, drop 16 ?p)" for e
      using h by (subst k_recv_take) (auto simp: header_size_def min_absorb1)
    have c1: "c_memcpy 0 (take 16 ?p) (recvbuff u) 16 = Inr ?b"
      using lt h by (simp add: c_memcpy_def min_absorb1)
    have r0: "rd32 0 ?b = Inr (bytes_i32 (take 4 ?p))"
      using h by (simp add: take_blit_0 min_absorb1)
    have c: "sint (bytes_i32 (take 4 ?p)) \<noteq> cmd_num LOGIN"
      using h cmd_of_num [of LOGIN] by (auto simp: pk_cmd_def)
    have ne: "?p \<noteq> []" using h by auto
    let ?s = "s\<lparr>m_connfd := fd\<rparr>"
    have "accept_head fd ?s = rbind (deleteOneUnloginUser fd (put_unlogin a (u\<lparr>recvbuff := ?b\<rparr>)
        (?s\<lparr>sock_rx := (sock_rx s)(fd := drop 16 ?p)\<rparr>))) (\<lambda>s. Inr (s, False))"
      using assms(2,3) k1 c1 r0 c lt by (simp add: accept_head_def Let_def)
    then have "accept_read fd ?s = Inl NullDeref"
      using assms(2,3) h gone
      by (simp add: accept_read_def deleteOneUnloginUser_def put_unlogin_def)
    then show ?thesis
      using assms(4) h ne by (simp add: accept_in_def Let_def k_fionread_def header_size_def)
  qed
qed

lemma login_disconnect_crash_witness:
  "accept_in 5 0 (accept_conn 5 0 0 [] [] (server_init 0 0 0 0)) = Inl NullDeref"
  by (rule login_disconnect_crash [where a = 1 and u = "(CUnloginuser 5 1 0 [] [])\<lparr>loginTime := 0\<rparr>"])
    (simp_all add: accept_conn_def server_init_def put_unlogin_def Let_def)

text \<open>A login message that arrives in two pieces is stored wrongly: the second piece goes to offset
  16, over the first, and then the message counts as complete.\<close>

theorem split_login_overwritten:
  assumes o: "only_login fd a u s" and u: "recvHeadFlag u" "length (recvbuff u) = 1500"
    and d: "sock_rx s fd = d1" "login_message (d1 @ d2)" "16 < length d1" "d2 \<noteq> []" and fd: "0 \<le> fd"
  shows "\<exists>s1 s2 v. accept_in fd now s = Inr s1 \<and>
    accept_in fd now (s1\<lparr>sock_rx := (sock_rx s1)(fd := d2)\<rparr>) = Inr s2 \<and> unlogins s2 a = Some v \<and>
    recvHeadFlag v \<and> remainLengthofRecv v = 0 \<and>
    recvbuff v = blit 16 d2 (blit 0 d1 (recvbuff u))"
proof -
  let ?p = "d1 @ d2" and ?b = "blit 0 (take 16 d1) (recvbuff u)"
  from d have lp: "72 \<le> length ?p" "length ?p \<le> 1500" and h: "hdr_length ?p = int (length ?p)"
    and c: "sint (bytes_i32 (take 4 ?p)) = cmd_num LOGIN"
    using sint_cmd_LOGIN [of ?p] by (simp_all add: login_message_def)
  have lt: "length (take 16 d1) = 16" using d(3) by simp
  have lb: "length ?b = 1500" using u d(3) by simp
  have k1: "k_recv header_size d1 (sock_eof s fd) = (16, take 16 d1, drop 16 d1)"
    using d(3) by (subst k_recv_take) (auto simp: header_size_def min_absorb1)
  have c1: "c_memcpy 0 (take 16 d1) (recvbuff u) 16 = Inr ?b"
    using lt u by (simp add: c_memcpy_def min_absorb1)
  have r0: "rd32 0 ?b = Inr (bytes_i32 (take 4 ?p))"
    using lb d(3) by (simp add: take_blit_0 min_absorb1)
  have r8: "rd32 8 ?b = Inr (bytes_i32 (cells 8 4 ?p))"
    using lb d(3) by (simp add: cells_blit_inside cells_take cells_append_left)
  have l: "sint (bytes_i32 (cells 8 4 ?p)) = int (length ?p)" using h by (simp add: hdr_length_def)
  have n1: "d1 \<noteq> []" using d(3) by auto
  define b1 where "b1 = blit 0 d1 (recvbuff u)"
  have bb: "blit 16 (drop 16 d1) ?b = b1"
    using blit_blit_adjacent [of 16 0 "take 16 d1" "drop 16 d1" "recvbuff u"] lt lp u d(3)
    by (simp add: b1_def flip: append_assoc)
  have lb1: "length b1 = 1500" using u lp by (simp add: b1_def)
  have k2: "k_recv (int (length ?p) - 16) (drop 16 d1) e = (int (length d1) - 16, drop 16 d1, [])" for e
    using lp d(3) by (subst k_recv_take) auto
  have c2: "c_memcpy header_size (drop 16 d1) ?b (int (length d1 - 16)) = Inr b1"
    using lp lb d(3) by (simp add: c_memcpy_def header_size_def bb)
  define u1 where "u1 = u\<lparr>recvbuff := ?b, totalLengthOfData := int (length ?p),
      remainLengthofRecv := int (length ?p) - 16, recvHeadFlag := False\<rparr>"
  define u2 where "u2 = u1\<lparr>recvbuff := b1, remainLengthofRecv := int (length d2)\<rparr>"
  let ?s = "s\<lparr>m_connfd := fd\<rparr>"
  define s1 where "s1 = put_unlogin a u2 (?s\<lparr>sock_rx := (sock_rx s)(fd := [])\<rparr>)"
  have hd: "accept_head fd ?s = Inr (put_unlogin a u1 (?s\<lparr>sock_rx := (sock_rx s)(fd := drop 16 d1)\<rparr>), False)"
    using o d(1) k1 c1 r0 r8 l c lt
    by (simp add: accept_head_def only_login_def header_size_def Let_def put_unlogin_def u1_def)
  have bd: "accept_body fd (put_unlogin a u1 (?s\<lparr>sock_rx := (sock_rx s)(fd := drop 16 d1)\<rparr>)) = Inr s1"
    using o d(3,4) k2 c2
    by (simp add: accept_body_def only_login_def u1_def u2_def put_unlogin_def s1_def Let_def)
  have e1: "accept_in fd now s = Inr s1"
    using o u(1) d(1,3) fd n1 hd bd
    by (simp add: accept_in_def accept_read_def only_login_def k_fionread_def header_size_def Let_def)
      (simp add: u1_def put_unlogin_def)
  let ?t = "s1\<lparr>sock_rx := (sock_rx s1)(fd := d2)\<rparr>"
  have k3: "k_recv (int (length d2)) d2 e = (int (length d2), d2, [])" for e
    using d(4) by (subst k_recv_take) auto
  have c3: "c_memcpy header_size d2 b1 (int (length d2)) = Inr (blit 16 d2 b1)"
    using lb1 lp d(3) by (simp add: c_memcpy_def header_size_def)
  let ?v = "u2\<lparr>recvbuff := blit 16 d2 b1, remainLengthofRecv := 0, recvHeadFlag := True\<rparr>"
  have bd2: "accept_body fd (?t\<lparr>m_connfd := fd\<rparr>) =
      Inr (put_unlogin a ?v (?t\<lparr>m_connfd := fd, sock_rx := (sock_rx ?t)(fd := [])\<rparr>))"
    using o d(4) k3 c3
    by (simp add: accept_body_def only_login_def s1_def u2_def u1_def put_unlogin_def Let_def)
  have "accept_in fd now ?t = accept_read fd (?t\<lparr>m_connfd := fd\<rparr>)"
    using o fd d(4) by (simp add: accept_in_def Let_def k_fionread_def header_size_def
        s1_def put_unlogin_def u2_def u1_def only_login_def)
  also have "\<dots> = accept_body fd (?t\<lparr>m_connfd := fd\<rparr>)"
    using o by (simp add: accept_read_def s1_def put_unlogin_def u2_def u1_def only_login_def)
  finally have e2: "accept_in fd now ?t =
      Inr (put_unlogin a ?v (?t\<lparr>m_connfd := fd, sock_rx := (sock_rx ?t)(fd := [])\<rparr>))"
    using bd2 by simp
  show ?thesis
    by (intro exI [of _ s1] exI [of _ "put_unlogin a ?v (?t\<lparr>m_connfd := fd, sock_rx := (sock_rx ?t)(fd := [])\<rparr>)"]
        exI [of _ ?v]) (simp add: e1 e2 b1_def put_unlogin_def)
qed

lemma split_login_overwritten_witness:
  "\<exists>s1 s2 v. accept_in 5 0 ((server_init 0 0 0 0)\<lparr>acc_loginMap := [(5, 1)], cmd_loginMap := [(5, 1)],
      unlogins := [1 \<mapsto> CUnloginuser 5 1 0 [] (replicate 1500 0)],
      sock_rx := \<lambda>_. take 40 admin_message\<rparr>) = Inr s1 \<and>
    accept_in 5 0 (s1\<lparr>sock_rx := (sock_rx s1)(5 := drop 40 admin_message)\<rparr>) = Inr s2 \<and>
    unlogins s2 1 = Some v \<and>
    recvbuff v = blit 16 (drop 40 admin_message) (blit 0 (take 40 admin_message) (replicate 1500 0))"
proof -
  let ?s = "(server_init 0 0 0 0)\<lparr>acc_loginMap := [(5, 1)], cmd_loginMap := [(5, 1)],
      unlogins := [1 \<mapsto> CUnloginuser 5 1 0 [] (replicate 1500 0)],
      sock_rx := \<lambda>_. take 40 admin_message\<rparr>"
  have l: "length admin_message = 86" by (simp add: admin_message_def)
  have "only_login 5 1 (CUnloginuser 5 1 0 [] (replicate 1500 0)) ?s"
    by (simp add: only_login_def CUnloginuser_def)
  from split_login_overwritten [OF this, of "take 40 admin_message" "drop 40 admin_message" 0] show ?thesis
    using admin_message_facts(1) l by (auto simp: CUnloginuser_def)
qed

section \<open>The ids\<close>

text \<open>The id is read when a connection is accepted and incremented when a login completes, so two
  connections accepted before either completes get the same one. The second of them to complete is not
  entered in the command thread's map, which keeps the first user under that id, while the I/O thread
  serves both: what is sent to the id goes to the first.\<close>

theorem same_id_shadowed:
  assumes "0 \<le> fd1" "0 \<le> fd2" "server_inv s"
    and s': "s' = accept_conn fd2 now jr2 js2 jb2 (accept_conn fd1 now jr1 js1 jb1 s)"
    and t: "server_inv t" "map_find fd (cmd_loginMap t) = Some a" "unlogins t a = Some u"
      "authFlag u" "loginReturnFlag u" "loginState u = LOGINSUCCESS" "\<not> ul_deleteFlag1 u"
      "map_find (ul_userId u) (cmd_map t) = Some first"
  shows "(\<exists>u1 u2. unlogins s' (fresh s) = Some u1 \<and> unlogins s' (fresh s + 1) = Some u2 \<and>
      ul_socket u1 = fd1 \<and> ul_socket u2 = fd2 \<and> ul_userId u1 = ul_userId u2) \<and>
    (\<exists>t'. login_one now jc js fd t = Inr t' \<and> map_find (ul_userId u) (cmd_map t') = Some first \<and>
      m_user (userListToIO t') = m_user (userListToIO t) @ [fresh t])"
proof -
  have "\<exists>u1 u2. unlogins s' (fresh s) = Some u1 \<and> unlogins s' (fresh s + 1) = Some u2 \<and>
      ul_socket u1 = fd1 \<and> ul_socket u2 = fd2 \<and> ul_userId u1 = ul_userId u2"
    using assms(1,2) by (simp add: s' accept_conn_def Let_def put_unlogin_def CUnloginuser_def)
  moreover have "map_ok (cmd_map t)" using t(1) by (simp add: server_inv_def maps_ok_def)
  then have "\<exists>t'. login_one now jc js fd t = Inr t' \<and> map_find (ul_userId u) (cmd_map t') = Some first \<and>
      m_user (userListToIO t') = m_user (userListToIO t) @ [fresh t]"
    using t(2-8) by (simp add: login_one_def authenticate_def Let_def put_unlogin_def put_user_def
        vcdPush_def map_find_map_ins)
  ultimately show ?thesis by blast
qed

lemma same_id_shadowed_witness:
  "\<exists>t'. login_one 0 0 [] 9 (two_users\<lparr>cmd_loginMap := [(9, 1)],
      unlogins := [1 \<mapsto> (CUnloginuser 9 7 0 [] [])\<lparr>authFlag := True, loginReturnFlag := True,
        loginState := LOGINSUCCESS\<rparr>]\<rparr>) = Inr t' \<and> map_find 7 (cmd_map t') = Some 2"
proof -
  let ?u = "(CUnloginuser 9 7 0 [] [])\<lparr>authFlag := True, loginReturnFlag := True,
        loginState := LOGINSUCCESS\<rparr>"
  let ?t = "two_users\<lparr>cmd_loginMap := [(9, 1)], unlogins := [1 \<mapsto> ?u]\<rparr>"
  have inv: "server_inv ?t"
    by (auto simp: two_users_simps server_inv_def maps_ok_def login_heap_ok_def user_heap_ok_def vals_def)
  have t: "map_find 9 (cmd_loginMap ?t) = Some 1" "unlogins ?t 1 = Some ?u" "authFlag ?u"
    "loginReturnFlag ?u" "loginState ?u = LOGINSUCCESS" "\<not> ul_deleteFlag1 ?u"
    "map_find (ul_userId ?u) (cmd_map ?t) = Some 2"
    by (simp_all add: CUnloginuser_def two_users_def)
  have fds: "0 \<le> (3::int)" "0 \<le> (4::int)" by simp_all
  from same_id_shadowed [OF fds two_users_inv refl inv t] obtain t' where
    "login_one 0 0 [] 9 ?t = Inr t'" "map_find (ul_userId ?u) (cmd_map t') = Some 2" by blast
  moreover have "ul_userId ?u = 7" by (simp add: CUnloginuser_def)
  ultimately show ?thesis by metis
qed

section \<open>Users that leave\<close>

text \<open>The fields of the users that the command thread's pass looks at.\<close>

definition marked :: "server \<Rightarrow> int \<times> nat \<Rightarrow> bool" where
  "marked s = (\<lambda>(uid, a). case users s a of None \<Rightarrow> False
     | Some u \<Rightarrow> deleteFlag1 u \<and> deleteFlag2 u)"

lemma sweep_loop:
  assumes "cmd_map t = xs @ ys" "distinct (keys (xs @ ys))" "distinct (map snd ys)"
    and "\<forall>(k, a) \<in> set ys. users t a \<noteq> None"
  shows "\<exists>t'. rfold (\<lambda>k s. rbind (sweep_one k s) (\<lambda>s'.
      if True \<or> k \<in> set (keys (cmd_map s')) then Inr s' else Inl DanglingIter)) (keys ys) t = Inr t' \<and>
    cmd_map t' = xs @ filter (\<lambda>x. \<not> marked t x) ys \<and>
    closed t' = closed t @ map (\<lambda>(k, a). getSocket (the (users t a))) (filter (marked t) ys) \<and>
    (\<forall>a. users t' a = (if a \<in> snd ` set (filter (marked t) ys) then None else users t a)) \<and>
    io_map t' = io_map t \<and> unlogins t' = unlogins t"
  using assms
proof (induction ys arbitrary: xs t)
  case Nil
  then show ?case by simp
next
  case (Cons y ys)
  obtain k a where y: "y = (k, a)" by (cases y)
  have find: "map_find k (xs @ (k, a) # ys) = Some a" and del: "map_del k (xs @ (k, a) # ys) = xs @ ys"
    using Cons.prems(2) y by (induction xs) auto
  obtain u where u: "users t a = Some u" using Cons.prems(4) y by auto
  show ?case
  proof (cases "marked t y")
    case False
    then have "sweep_one k t = Inr t"
      using Cons.prems(1) y u find by (auto simp: sweep_one_def marked_def)
    with Cons.IH [of t "xs @ [y]"] Cons.prems False y show ?thesis by simp
  next
    case True
    let ?t = "t\<lparr>closed := closed t @ [getSocket u], users := (users t)(a := None), cmd_map := xs @ ys\<rparr>"
    have step: "sweep_one k t = Inr ?t"
      using True Cons.prems(1) y u find del by (simp add: sweep_one_def marked_def)
    have na: "a \<notin> snd ` set ys" using Cons.prems(3) y by simp
    then have same: "x \<in> set ys \<Longrightarrow> marked ?t x = marked t x" for x
      by (cases x) (auto simp: marked_def image_iff)
    have f: "filter (marked ?t) ys = filter (marked t) ys"
      "filter (\<lambda>x. \<not> marked ?t x) ys = filter (\<lambda>x. \<not> marked t x) ys"
      using same by (auto intro: filter_cong)
    have m: "map (\<lambda>(k, b). getSocket (the (users ?t b))) (filter (marked t) ys) =
        map (\<lambda>(k, b). getSocket (the (users t b))) (filter (marked t) ys)"
      using na by (auto simp: image_iff)
    have pre: "distinct (keys (xs @ ys))" "distinct (map snd ys)" "\<forall>(k, b) \<in> set ys. users ?t b \<noteq> None"
      using Cons.prems na y by (auto simp: image_iff)
    from Cons.IH [of ?t xs, OF _ pre] obtain t' where
      t': "rfold (\<lambda>k s. rbind (sweep_one k s) (\<lambda>s'.
        if True \<or> k \<in> set (keys (cmd_map s')) then Inr s' else Inl DanglingIter)) (keys ys) ?t = Inr t'"
      "cmd_map t' = xs @ filter (\<lambda>x. \<not> marked t x) ys"
      "closed t' = closed ?t @ map (\<lambda>(k, a). getSocket (the (users ?t a))) (filter (marked t) ys)"
      "\<forall>b. users t' b = (if b \<in> snd ` set (filter (marked t) ys) then None else users ?t b)"
      "io_map t' = io_map t" "unlogins t' = unlogins t"
      by (auto simp: f)
    have "closed t' = closed t @ map (\<lambda>(k, a). getSocket (the (users t a))) (filter (marked t) (y # ys))"
      using True y u m t'(3) by simp
    moreover have "\<forall>b. users t' b = (if b \<in> snd ` set (filter (marked t) (y # ys)) then None else users t b)"
      using t'(4) True y by auto
    ultimately show ?thesis
      using t' step True y by simp
  qed
qed

text \<open>C27: At most every two seconds the command thread closes the sockets of exactly the users whose two
  flags are set, in the order of their ids, deletes them and takes them out of its map, and leaves every
  other user alone, provided its loop goes on to the next entry after it erased one.\<close>

theorem sweep_exact:
  assumes "server_inv s" "1 < now - lastLoopTime s"
  shows "\<exists>s'. cmd_sweep True now s = Inr s' \<and> lastLoopTime s' = now \<and>
    cmd_map s' = filter (\<lambda>x. \<not> marked s x) (cmd_map s) \<and>
    closed s' = closed s @ map (\<lambda>(k, a). getSocket (the (users s a))) (filter (marked s) (cmd_map s)) \<and>
    (\<forall>a. users s' a = (if a \<in> snd ` set (filter (marked s) (cmd_map s)) then None else users s a)) \<and>
    io_map s' = io_map s"
proof -
  have m: "map_ok (cmd_map s)" and d: "distinct (map snd (cmd_map s))"
    and alive: "\<forall>a \<in> vals (cmd_map s). users s a \<noteq> None"
    using assms(1) by (auto simp: server_inv_def maps_ok_def user_heap_ok_def)
  have "distinct (keys ([] @ cmd_map s))" using map_ok_distinct [OF m] by simp
  moreover have "\<forall>(k, a) \<in> set (cmd_map s). users s a \<noteq> None"
    using alive by (force simp: vals_def)
  moreover note d
  ultimately show ?thesis
    using sweep_loop [of s "[]" "cmd_map s"] assms(2) by (auto simp: cmd_sweep_def each_key_def)
qed

lemma sweep_exact_witness:
  "\<exists>s'. cmd_sweep True 5 (two_users\<lparr>users := [1 \<mapsto> (sample_user 1 5)\<lparr>deleteFlag1 := True, deleteFlag2 := True\<rparr>,
      2 \<mapsto> sample_user 7 6], io_map := [(6, 2)]\<rparr>) = Inr s' \<and> closed s' = [5] \<and> cmd_map s' = [(7, 2)]"
proof -
  let ?s = "two_users\<lparr>users := [1 \<mapsto> (sample_user 1 5)\<lparr>deleteFlag1 := True, deleteFlag2 := True\<rparr>,
      2 \<mapsto> sample_user 7 6], io_map := [(6, 2)]\<rparr>"
  have "server_inv ?s"
    by (auto simp: two_users_simps server_inv_def maps_ok_def login_heap_ok_def user_heap_ok_def vals_def)
  from sweep_exact [OF this, of 5] show ?thesis
    by (auto simp: marked_def two_users_simps getSocket_def simp del: One_nat_def)
qed

end
