(* ===== verification/ClientLogin.thy ===== *)
theory ClientLogin
  imports ClientProps LoginProps
begin

text \<open>A login with both programs: what is typed at the client, the threads of the server, the client's answer.\<close>

section \<open>The client's login message\<close>



section \<open>The answer\<close>


section \<open>From the name typed to the registered user\<close>



end
