(* ===== verification/SafetyProps.thy ===== *)
theory SafetyProps
  imports LoginProps UdpProps
begin

text \<open>The property of the server as a whole: no thread touches an object another one has deleted.\<close>

text \<open>C2: Whatever the order in which the threads run, what the clients send and what the kernel
  returns, no step of a reachable server state follows a pointer to a deleted connection or user: the
  flags that one thread sets before another deletes the object, and the lists through which the objects
  move, are enough, with either reading of the loops that erase. (The steps may still stop the server
  in other ways, as the other properties show.)\<close>

theorem server_no_use_after_free:
  assumes "server_reach resume s" "server_step resume s m"
  shows "m \<noteq> Inl UseAfterFree"
  using safe_step [OF assms(2) reach_inv [OF assms(1)]] by (auto dest: ensures_InlD)

lemma server_no_use_after_free_witness:
  "\<exists>s. server_reach True s \<and> m_unloginuser (vcdLoginList s) = [1] \<and> cmd_take s \<noteq> Inl UseAfterFree"
proof -
  let ?init = "server_init 0 0 0 0"
  let ?s = "accept_conn 5 0 0 (replicate 18 0) (replicate 1500 0) ?init"
  have "server_step True ?init (Inr ?s)"
    using acc_conn [of "replicate 18 0" "replicate 1500 0" True ?init 5 0 0]
    by (simp add: loginMessageSend_size_def)
  then have r: "server_reach True ?s" by (rule server_reach.step [OF server_reach.start])
  have "m_unloginuser (vcdLoginList ?s) = [1]"
    by (simp add: accept_conn_def server_init_def CUserList_def unloginUserPush_def put_unlogin_def Let_def)
  with r server_no_use_after_free [OF r cmd_step_take] show ?thesis by blast
qed

end
