(* ===== verification/RaceProps.thy ===== *)
theory RaceProps
  imports ServerSystem
begin

text \<open>
  Two places where threads of the I/O module get in each other's way. The variable \<open>nread\<close> is a member
  of \<open>CIo\<close>, and the thread on the TCP connections and the one that receives datagrams both store into it;
  and a datagram and its sender's address are two elements of a list to which the other thread adds too.
  The theorems of the other theories hold when these accesses do not meet; here is what happens when they do.
\<close>

section \<open>The shared variable nread\<close>

text \<open>
  The rest of a packet as \<open>recv_body\<close>, with the datagram thread storing \<open>w\<close> into \<open>nread\<close> (if it stores
  anything) after \<open>recv\<close> has returned and before the TCP thread reads the variable again.
\<close>

definition nread_after :: "int \<Rightarrow> int option \<Rightarrow> int" where
  "nread_after n w = (case w of None \<Rightarrow> n | Some m \<Rightarrow> m)"

definition recv_body_raced :: "int option \<Rightarrow> ccmdrecv \<Rightarrow> block \<Rightarrow> bool \<Rightarrow> (ccmdrecv \<times> block \<times> block list) res" where
  "recv_body_raced w r rx eof =
     (let nres = m_totalLengthOfData r - m_lengthHasRecv r in
      case k_recv nres rx eof of (n, d, rx') \<Rightarrow>
        rbind (recv_block r) (\<lambda>b.
          rbind (c_memcpy (m_lengthHasRecv r) d b (int (length d))) (\<lambda>b'.
            let nread = nread_after n w in
            if nread < 0 then Inl NullDeref
            else let r' = r\<lparr>m_recvBuff := Some b', m_lengthHasRecv := m_lengthHasRecv r + nread\<rparr> in
              if m_lengthHasRecv r' = m_totalLengthOfData r'
              then Inr (r'\<lparr>m_lengthHasRecv := 0, m_recvHeadFlag := False\<rparr>, rx', [b'])
              else Inr (r', rx', []))))"

text \<open>Without interference this is the receiver of the model, for a receiver inside a packet.\<close>

lemma recv_body_raced_None:
  assumes "m_recvBuff r = Some b" "0 \<le> m_lengthHasRecv r" "m_lengthHasRecv r \<le> int (length b)"
  shows "recv_body_raced None r rx eof = recv_body r rx eof"
proof (cases "k_recv (m_totalLengthOfData r - m_lengthHasRecv r) rx eof")
  case (fields n d rx')
  have "n < 0 \<Longrightarrow> d = []"
    using fields by (auto simp: k_recv_def Let_def split: if_splits)
  then show ?thesis
    using assms fields
    by (auto simp: recv_body_raced_def recv_body_def nread_after_def recv_block_def c_memcpy_def Let_def)
qed

text \<open>
  A receiver that counts more bytes than the packet has never gets out of the packet again: what it asks
  \<open>recv\<close> for is negative, so each event takes all that has arrived and counts it too.
\<close>

definition overrun :: "ccmdrecv \<Rightarrow> bool" where
  "overrun r \<longleftrightarrow> m_recvHeadFlag r \<and> m_totalLengthOfData r < m_lengthHasRecv r"

lemma overrun_body:
  "overrun r \<Longrightarrow> ensures (\<lambda>e. e \<in> {OutOfBounds, NullDeref, UninitRead})
     (\<lambda>(r', rx', out). overrun r' \<and> rx' = [] \<and> out = []) (recv_body r rx eof)"
  by (auto simp: recv_body_def recv_block_def c_memcpy_def k_recv_def overrun_def Let_def split: option.splits)

lemma rbind_Inr_right [simp]: "rbind m Inr = m"
  by (cases m) simp_all

lemma overrun_run:
  "overrun r \<Longrightarrow> ensures (\<lambda>e. e \<in> {OutOfBounds, NullDeref, UninitRead})
     (\<lambda>(outs, r', rx'). overrun r' \<and> outs = []) (frun server_read es r rx)"
proof (induction es arbitrary: r rx)
  case Nil
  then show ?case by simp
next
  case (Cons e es)
  show ?case
  proof (cases e)
    case (Arrive d)
    then show ?thesis using Cons by simp
  next
    case (Readable junk)
    have "server_read junk r rx = recv_body r rx False"
      using Cons.prems
      by (cases "recv_body r rx False") (auto simp: server_read_def recv_step_def overrun_def)
    then have "ensures (\<lambda>e. e \<in> {OutOfBounds, NullDeref, UninitRead})
        (\<lambda>(r', rx', out). overrun r' \<and> rx' = [] \<and> out = []) (server_read junk r rx)"
      using overrun_body [OF Cons.prems] by simp
    then show ?thesis
      unfolding Readable frun.simps
      by (rule ensures_rbind) (use Cons.IH in auto)
  qed
qed

text \<open>C21: One datagram at the wrong moment ends a TCP connection. A packet has arrived completely; if the
  datagram thread stores the size of a longer datagram into \<open>nread\<close> before the TCP thread has added up
  what it received, the packet is not handed on, and nor is any later one of that connection, whatever
  arrives and whenever: every later event either adds all that has arrived to the same block or stops the
  server.\<close>

theorem nread_race_breaks_connection:
  assumes r: "m_recvBuff r = Some b" "length b = block_size" "m_recvHeadFlag r"
      "16 \<le> m_lengthHasRecv r" "m_lengthHasRecv r < m_totalLengthOfData r" "m_totalLengthOfData r \<le> int block_size"
    and rest: "int (length d) = m_totalLengthOfData r - m_lengthHasRecv r"
    and datagram: "int (length d) < m"
  shows "\<exists>r'. recv_body_raced (Some m) r (d @ rx) eof = Inr (r', rx, []) \<and>
     ensures (\<lambda>e. e \<in> {OutOfBounds, NullDeref, UninitRead}) (\<lambda>(outs, _, _). outs = [])
       (frun server_read es r' rx)"
proof -
  let ?h = "m_lengthHasRecv r"
  have k: "k_recv (m_totalLengthOfData r - ?h) (d @ rx) eof = (int (length d), d, rx)"
    using rest r(5) by (subst k_recv_take) (auto simp: nat_eq_iff)
  have mc: "c_memcpy ?h d b (int (length d)) = Inr (blit (nat ?h) d b)"
    using r rest by (simp add: c_memcpy_def)
  let ?r = "r\<lparr>m_recvBuff := Some (blit (nat ?h) d b), m_lengthHasRecv := ?h + m\<rparr>"
  have raced: "recv_body_raced (Some m) r (d @ rx) eof = Inr (?r, rx, [])"
    using k mc r(1,5) rest datagram
    by (simp add: recv_body_raced_def recv_block_def nread_after_def Let_def)
  have "overrun ?r" using r(3) rest datagram by (simp add: overrun_def)
  from overrun_run [OF this, of es rx] show ?thesis
    using raced by (intro exI [of _ ?r]) (auto simp: ensures_def split: sum.splits prod.splits)
qed

text \<open>A packet of 20 bytes of which the header is in, its last four bytes, and a datagram of 30.\<close>

theorem nread_race_breaks_connection_witness:
  "\<exists>r'. recv_body_raced (Some 30)
       \<lparr>m_recvBuff = Some (replicate block_size 0), m_recvHeadFlag = True, m_totalLengthOfData = 20,
        m_lengthHasRecv = 16\<rparr> ([1, 2, 3, 4] @ [5, 6]) False = Inr (r', [5, 6], []) \<and>
     ensures (\<lambda>e. e \<in> {OutOfBounds, NullDeref, UninitRead}) (\<lambda>(outs, _, _). outs = [])
       (frun server_read [Readable [], Arrive [7], Readable []] r' [5, 6])"
  by (rule nread_race_breaks_connection [where b = "replicate block_size 0"])
    (simp_all add: block_size_def)

section \<open>A datagram and its address\<close>

text \<open>
  The datagram that registers a client is in the packet list, a TCP packet has been added behind it and
  then the datagram's address. The command thread takes the TCP packet for the address, and the address is
  the next thing it will route.
\<close>

lemma register_takes_packet:
  assumes reg: "rd32 0 reg = Inr (word_of_int (cmd_num UDPREGISTER))" "rd32 4 reg = Inr from"
    and list: "m_packcount (packList s) = 0" "m_package (packList s) = []"
    and user: "map_find (sint from) (cmd_map s) = Some a" "users s a = Some u"
    and size: "length reg \<le> block_size" "length junk = block_size"
      "blit 0 reg junk = reg'" "rd32 0 reg' = rd32 0 reg" "rd32 4 reg' = rd32 4 reg"
  shows "\<exists>s'. cmd_route jk now (udp_push_addr addr ((udp_push_pack junk reg s)
       \<lparr>packList := packPush p (packList (udp_push_pack junk reg s))\<rparr>)) = Inr (s', 40) \<and>
     users s' a = Some (u\<lparr>clientaddrUdp := Some p\<rparr>) \<and> m_package (packList s') = [addr]"
proof -
  have cmd: "cmd_of (sint (word_of_int (cmd_num UDPREGISTER) :: i32)) = Some UDPREGISTER"
    by (simp add: cmd_num_def cmd_of_def all_cmds_def)
  have t: "take block_size reg = reg" using size(1) by simp
  show ?thesis
    using assms cmd t
    by (simp add: cmd_route_def udp_push_addr_def udp_push_pack_def packPush_def packPop_def getPackSize_def
        setWriteSocketFdFlag_def route_register_def put_user_def Let_def user_at_def deref_user_def map_at_def)
qed

end
