(* ===== verification/Sync.thy ===== *)
theory Sync
  imports PackQueue
begin

text \<open>
  The mutex wrappers (\<open>CMutex\<close> of the server, \<open>SaveMutex\<close> of the client and of the load generator,
  \<open>MutexLock\<close>, \<open>MutexLockGuard\<close> and \<open>Condition\<close> of histroy/version-0.0.1) and what they are for: the
  methods of the shared lists, statement by statement, run by threads that interleave in any order. The
  theorems justify that the other theories take a method under a guard as one step.
\<close>

section \<open>Mutexes\<close>

text \<open>
  A mutex is the thread that holds it. Locking one that is held waits, which is \<open>None\<close>.
\<close>

type_synonym mutex = "nat option"

definition pthread_mutex_lock :: "nat \<Rightarrow> mutex \<Rightarrow> mutex option" where
  "pthread_mutex_lock t m = (case m of None \<Rightarrow> Some (Some t) | Some _ \<Rightarrow> None)"

definition pthread_mutex_unlock :: "mutex \<Rightarrow> mutex" where
  "pthread_mutex_unlock m = None"

text \<open>The guards: the constructor locks, the destructor at the end of the block unlocks.\<close>

definition CMutex :: "nat \<Rightarrow> mutex \<Rightarrow> mutex option" where
  "CMutex t m = pthread_mutex_lock t m"

definition CMutex_end :: "mutex \<Rightarrow> mutex" where
  "CMutex_end m = pthread_mutex_unlock m"

definition SaveMutex :: "nat \<Rightarrow> mutex \<Rightarrow> mutex option" where
  "SaveMutex t m = pthread_mutex_lock t m"

definition SaveMutex_end :: "mutex \<Rightarrow> mutex" where
  "SaveMutex_end m = pthread_mutex_unlock m"

definition st_SaveMutex :: "nat \<Rightarrow> mutex \<Rightarrow> mutex option" where
  "st_SaveMutex t m = pthread_mutex_lock t m"

definition st_SaveMutex_end :: "mutex \<Rightarrow> mutex" where
  "st_SaveMutex_end m = pthread_mutex_unlock m"

definition MutexLock :: mutex where
  "MutexLock = None"

definition ml_lock :: "nat \<Rightarrow> mutex \<Rightarrow> mutex option" where
  "ml_lock t m = pthread_mutex_lock t m"

definition ml_unlock :: "mutex \<Rightarrow> mutex" where
  "ml_unlock m = pthread_mutex_unlock m"

definition MutexLockGuard :: "nat \<Rightarrow> mutex \<Rightarrow> mutex option" where
  "MutexLockGuard t m = ml_lock t m"

definition MutexLockGuard_end :: "mutex \<Rightarrow> mutex" where
  "MutexLockGuard_end m = ml_unlock m"

text \<open>
  Destroying a mutex is defined for one that nobody holds; the destructor of \<open>MutexLock\<close> locks it first.
\<close>

definition mutex_destroy_ok :: "mutex \<Rightarrow> bool" where
  "mutex_destroy_ok m \<longleftrightarrow> m = None"

definition MutexLock_end :: "nat \<Rightarrow> mutex \<Rightarrow> bool option" where
  "MutexLock_end t m = map_option mutex_destroy_ok (pthread_mutex_lock t m)"

lemma MutexLock_end_never_ok: "MutexLock_end t m \<noteq> Some True"
  by (simp add: MutexLock_end_def mutex_destroy_ok_def pthread_mutex_lock_def split: option.split)

lemma guards_agree:
  "SaveMutex = CMutex" "st_SaveMutex = CMutex" "MutexLockGuard = CMutex"
  "SaveMutex_end = CMutex_end" "st_SaveMutex_end = CMutex_end" "MutexLockGuard_end = CMutex_end"
  by (simp_all add: fun_eq_iff SaveMutex_def st_SaveMutex_def MutexLockGuard_def ml_lock_def CMutex_def
      SaveMutex_end_def st_SaveMutex_end_def MutexLockGuard_end_def ml_unlock_def CMutex_end_def)

lemma CMutex_simps [simp]:
  "CMutex t None = Some (Some t)" "CMutex t (Some h) = None" "CMutex_end m = None"
  by (simp_all add: CMutex_def pthread_mutex_lock_def CMutex_end_def pthread_mutex_unlock_def)

section \<open>Condition variables\<close>

text \<open>
  A condition variable is the list of the threads that sleep on it. \<open>wait\<close> gives up the mutex and sleeps
  in one step; a thread that is woken has to take the mutex before its call returns. \<open>waitForSeconds\<close>
  tells whether the time ran out, in which case the thread leaves the sleepers by itself.
\<close>

record condition =
  cv_mutex :: mutex
  cv_sleepers :: "nat list"

definition Condition :: "mutex \<Rightarrow> condition" where
  "Condition m = \<lparr>cv_mutex = m, cv_sleepers = []\<rparr>"

definition cv_wait :: "nat \<Rightarrow> condition \<Rightarrow> condition" where
  "cv_wait t c = c\<lparr>cv_mutex := pthread_mutex_unlock (cv_mutex c), cv_sleepers := cv_sleepers c @ [t]\<rparr>"

definition cv_notify :: "condition \<Rightarrow> condition" where
  "cv_notify c = c\<lparr>cv_sleepers := tl (cv_sleepers c)\<rparr>"

definition cv_notifyAll :: "condition \<Rightarrow> condition" where
  "cv_notifyAll c = c\<lparr>cv_sleepers := []\<rparr>"

definition cv_return :: "nat \<Rightarrow> condition \<Rightarrow> condition option" where
  "cv_return t c =
     (if t \<in> set (cv_sleepers c) then None
      else map_option (\<lambda>m. c\<lparr>cv_mutex := m\<rparr>) (pthread_mutex_lock t (cv_mutex c)))"

text \<open>The deadline is absolute: the time of the call and the seconds asked for.\<close>

definition cv_deadline :: "int \<Rightarrow> int \<Rightarrow> int" where
  "cv_deadline now seconds = now + seconds"

definition cv_timedwait_return :: "int \<Rightarrow> int \<Rightarrow> nat \<Rightarrow> condition \<Rightarrow> (bool \<times> condition) option" where
  "cv_timedwait_return deadline now t c =
     (if t \<in> set (cv_sleepers c)
      then if now \<ge> deadline
           then map_option (\<lambda>m. (True, c\<lparr>cv_mutex := m, cv_sleepers := remove1 t (cv_sleepers c)\<rparr>))
                  (pthread_mutex_lock t (cv_mutex c))
           else None
      else map_option (\<lambda>c. (False, c)) (cv_return t c))"

text \<open>
  Between \<open>wait\<close> and its return another thread can hold the mutex, and a waiter returns holding it: what
  it tested before the call has to be tested again.
\<close>

lemma cv_wait_return:
  assumes "cv_return t c = Some c'"
  shows "cv_mutex c = None" and "cv_mutex c' = Some t" and "t \<notin> set (cv_sleepers c')"
  using assms by (auto simp: cv_return_def pthread_mutex_lock_def split: if_splits option.splits)

lemma cv_wait_sleeps: "cv_return t (cv_wait t c) = None"
  by (simp add: cv_return_def cv_wait_def)

lemma cv_notifyAll_wakes:
  "cv_mutex c = None \<Longrightarrow> cv_return t (cv_notifyAll c) = Some (cv_notifyAll c\<lparr>cv_mutex := Some t\<rparr>)"
  by (simp add: cv_return_def cv_notifyAll_def pthread_mutex_lock_def)

lemma cv_timeout_ends_wait:
  "cv_mutex c = None \<Longrightarrow> t \<in> set (cv_sleepers c) \<Longrightarrow>
   \<exists>c'. cv_timedwait_return (cv_deadline now n) (now + n) t c = Some (True, c') \<and> cv_mutex c' = Some t"
  by (simp add: cv_timedwait_return_def cv_deadline_def pthread_mutex_lock_def)

section \<open>Threads that share an object\<close>

text \<open>
  The statements of a thread: entering and leaving a guarded block, a statement on the shared object and
  the thread's local variables, and a test of the shared object that guards more statements.
\<close>

datatype ('q, 'l) instr =
    Enter
  | Leave
  | Act "'q \<times> 'l \<Rightarrow> ('q \<times> 'l) res"
  | Test "'q \<Rightarrow> bool" "('q, 'l) instr list"

record ('q, 'l) system =
  lock :: mutex
  obj :: 'q
  loc :: "nat \<Rightarrow> 'l"
  code :: "nat \<Rightarrow> ('q, 'l) instr list"

text \<open>One statement of thread \<open>t\<close>; \<open>None\<close> if it has none left or has to wait.\<close>

definition sys_step :: "nat \<Rightarrow> ('q, 'l) system \<Rightarrow> ('q, 'l) system res option" where
  "sys_step t s = (case code s t of
       [] \<Rightarrow> None
     | Enter # r \<Rightarrow> map_option (\<lambda>m. Inr (s\<lparr>lock := m, code := (code s)(t := r)\<rparr>)) (CMutex t (lock s))
     | Leave # r \<Rightarrow> Some (Inr (s\<lparr>lock := CMutex_end (lock s), code := (code s)(t := r)\<rparr>))
     | Act f # r \<Rightarrow> Some (rbind (f (obj s, loc s t)) (\<lambda>(q, l).
         Inr (s\<lparr>obj := q, loc := (loc s)(t := l), code := (code s)(t := r)\<rparr>)))
     | Test b is # r \<Rightarrow> Some (Inr (s\<lparr>code := (code s)(t := (if b (obj s) then is else []) @ r)\<rparr>)))"

text \<open>A schedule names the thread to run next; one that cannot run is passed over.\<close>

fun sys_run :: "nat list \<Rightarrow> ('q, 'l) system \<Rightarrow> ('q, 'l) system res" where
  "sys_run [] s = Inr s"
| "sys_run (t # ts) s = (case sys_step t s of None \<Rightarrow> sys_run ts s | Some r \<Rightarrow> rbind r (sys_run ts))"

text \<open>An invariant of the steps is one of the runs.\<close>

lemma sys_run_ensures:
  assumes step: "\<And>t s r. I s \<Longrightarrow> sys_step t s = Some r \<Longrightarrow> ensures E I r" and "I s"
  shows "ensures E I (sys_run sched s)"
  using assms(2)
proof (induction sched arbitrary: s)
  case Nil
  then show ?case by simp
next
  case (Cons t ts)
  then show ?case
    by (auto split: option.split intro: ensures_rbind [OF step])
qed

section \<open>Methods under a guard are atomic\<close>

type_synonym ('q, 'l) body = "('q \<times> 'l \<Rightarrow> ('q \<times> 'l) res) list"

definition guarded :: "('q, 'l) body \<Rightarrow> ('q, 'l) instr list" where
  "guarded fs = Enter # map Act fs @ [Leave]"

fun acts :: "('q, 'l) body \<Rightarrow> 'q \<times> 'l \<Rightarrow> ('q \<times> 'l) res" where
  "acts [] x = Inr x"
| "acts (f # fs) x = rbind (f x) (acts fs)"

text \<open>Whole calls, one after the other.\<close>

fun atomic :: "('c \<Rightarrow> ('q, 'l) body) \<Rightarrow> (nat \<times> 'c) list \<Rightarrow> 'q \<times> (nat \<Rightarrow> 'l) \<Rightarrow> ('q \<times> (nat \<Rightarrow> 'l)) res" where
  "atomic body [] x = Inr x"
| "atomic body ((t, c) # log) (q, l) =
     rbind (acts (body c) (q, l t)) (\<lambda>(q, lt). atomic body log (q, l(t := lt)))"

definition by_thread :: "nat \<Rightarrow> (nat \<times> 'c) list \<Rightarrow> 'c list" where
  "by_thread t log = map snd (filter (\<lambda>(t', _). t' = t) log)"

definition calls_code :: "('c \<Rightarrow> ('q, 'l) body) \<Rightarrow> 'c list \<Rightarrow> ('q, 'l) instr list" where
  "calls_code body cs = concat (map (\<lambda>c. guarded (body c)) cs)"

lemma by_thread_simps [simp]:
  "by_thread t [] = []"
  "by_thread t (log @ [(t', c)]) = by_thread t log @ (if t' = t then [c] else [])"
  by (simp_all add: by_thread_def)

lemma calls_code_simps [simp]:
  "calls_code body [] = []"
  "calls_code body (c # cs) = Enter # map Act (body c) @ Leave # calls_code body cs"
  by (simp_all add: calls_code_def guarded_def)

lemma acts_append: "acts (fs @ gs) x = rbind (acts fs x) (acts gs)"
  by (induction fs arbitrary: x) (simp, simp add: rbind_assoc cong: rbind_cong)

lemma atomic_append:
  "atomic body (log @ log') x = rbind (atomic body log x) (atomic body log')"
  by (induction body log x rule: atomic.induct)
    (simp, auto simp: rbind_assoc split_def intro!: rbind_cong)

text \<open>
  The state of a run of guarded calls: \<open>log\<close> are the calls whose guard has been left, in the order in
  which they took the mutex; the thread that holds it is inside the next call.
\<close>

definition inside ::
  "('c \<Rightarrow> ('q, 'l) body) \<Rightarrow> (nat \<Rightarrow> 'c list) \<Rightarrow> nat \<Rightarrow> 'q \<times> (nat \<Rightarrow> 'l) \<Rightarrow> ('q, 'l) system \<Rightarrow> bool" where
  "inside body rest h x s \<longleftrightarrow> (\<exists>c cs pre post.
     rest h = c # cs \<and> body c = pre @ post \<and>
     acts pre (fst x, snd x h) = Inr (obj s, loc s h) \<and>
     code s h = map Act post @ Leave # calls_code body cs \<and>
     (\<forall>t. t \<noteq> h \<longrightarrow> loc s t = snd x t \<and> code s t = calls_code body (rest t)))"

definition atom_inv ::
  "('c \<Rightarrow> ('q, 'l) body) \<Rightarrow> (nat \<Rightarrow> 'c list) \<Rightarrow> 'q \<times> (nat \<Rightarrow> 'l) \<Rightarrow> ('q, 'l) system \<Rightarrow> bool" where
  "atom_inv body todo x0 s \<longleftrightarrow> (\<exists>log rest x.
     (\<forall>t. todo t = by_thread t log @ rest t) \<and> atomic body log x0 = Inr x \<and>
     (case lock s of
        None \<Rightarrow> x = (obj s, loc s) \<and> (\<forall>t. code s t = calls_code body (rest t))
      | Some h \<Rightarrow> inside body rest h x s))"

definition atom_stop ::
  "('c \<Rightarrow> ('q, 'l) body) \<Rightarrow> (nat \<Rightarrow> 'c list) \<Rightarrow> 'q \<times> (nat \<Rightarrow> 'l) \<Rightarrow> stop \<Rightarrow> bool" where
  "atom_stop body todo x0 e \<longleftrightarrow> (\<exists>log rest.
     (\<forall>t. todo t = by_thread t log @ rest t) \<and> atomic body log x0 = Inl e)"

text \<open>A thread that does not hold the mutex can only take it, and only if it is free.\<close>

lemma atom_inv_enter:
  assumes "atom_inv body todo x0 s" "lock s = None" "sys_step t s = Some r"
  shows "ensures (atom_stop body todo x0) (atom_inv body todo x0) r"
proof -
  obtain log rest where todo: "\<And>t. todo t = by_thread t log @ rest t"
    and at: "atomic body log x0 = Inr (obj s, loc s)"
    and code: "\<And>t. code s t = calls_code body (rest t)"
    using assms(1,2) by (auto simp: atom_inv_def)
  obtain c cs where rest: "rest t = c # cs"
    using assms(3) code [of t] by (cases "rest t") (auto simp: sys_step_def)
  let ?s = "s\<lparr>lock := Some t, code := (code s)(t := map Act (body c) @ Leave # calls_code body cs)\<rparr>"
  have r: "r = Inr ?s"
    using assms(2,3) code [of t] rest by (simp add: sys_step_def)
  have "inside body rest t (obj s, loc s) ?s"
    unfolding inside_def using rest code by (intro exI [of _ c] exI [of _ cs] exI [of _ "[]"] exI [of _ "body c"]) simp
  then have "atom_inv body todo x0 ?s"
    unfolding atom_inv_def using todo at by (intro exI [of _ log] exI [of _ rest] exI [of _ "(obj s, loc s)"]) simp
  then show ?thesis by (simp add: r)
qed

text \<open>The thread inside takes its next statement or leaves.\<close>

lemma atom_inv_inside:
  assumes inv: "atom_inv body todo x0 s" "lock s = Some h" "sys_step h s = Some r"
  shows "ensures (atom_stop body todo x0) (atom_inv body todo x0) r"
proof -
  obtain log rest q l where todo: "\<And>t. todo t = by_thread t log @ rest t"
    and at: "atomic body log x0 = Inr (q, l)" and ins: "inside body rest h (q, l) s"
    using inv(1,2) unfolding atom_inv_def by fastforce
  obtain c cs pre post where rest: "rest h = c # cs" and b: "body c = pre @ post"
    and run: "acts pre (q, l h) = Inr (obj s, loc s h)"
    and code: "code s h = map Act post @ Leave # calls_code body cs"
    and other: "\<And>t. t \<noteq> h \<Longrightarrow> loc s t = l t \<and> code s t = calls_code body (rest t)"
    using ins by (auto simp: inside_def)
  let ?log = "log @ [(h, c)]" and ?rest = "rest(h := cs)"
  have todo': "todo t = by_thread t ?log @ ?rest t" for t
    using todo [of t] rest by simp
  have log': "atomic body ?log x0 =
      rbind (acts post (obj s, loc s h)) (\<lambda>(q, lt). Inr (q, l(h := lt)))"
    by (simp add: atomic_append at b acts_append run)
  show ?thesis
  proof (cases post)
    case Nil
    let ?s = "s\<lparr>lock := None, code := (code s)(h := calls_code body cs)\<rparr>"
    have r: "r = Inr ?s" using inv(3) code Nil by (simp add: sys_step_def)
    have "l(h := loc s h) = loc s" using other by (auto simp: fun_eq_iff)
    then have "atomic body ?log x0 = Inr (obj s, loc s)" using log' Nil by simp
    then have "atom_inv body todo x0 ?s"
      unfolding atom_inv_def using todo' other
      by (intro exI [of _ ?log] exI [of _ ?rest] exI [of _ "(obj s, loc s)"]) simp
    then show ?thesis by (simp add: r)
  next
    case (Cons f fs)
    show ?thesis
    proof (cases "f (obj s, loc s h)")
      case (Inl e)
      have "atom_stop body todo x0 e"
        unfolding atom_stop_def using todo' log' Inl Cons by (intro exI [of _ ?log] exI [of _ ?rest]) simp
      then show ?thesis using inv(3) code Cons Inl by (auto simp: sys_step_def)
    next
      case (Inr y)
      obtain q' l' where y: "y = (q', l')" by force
      let ?s = "s\<lparr>obj := q', loc := (loc s)(h := l'),
        code := (code s)(h := map Act fs @ Leave # calls_code body cs)\<rparr>"
      have r: "r = Inr ?s" using inv(3) code Cons Inr y by (simp add: sys_step_def)
      have "acts (pre @ [f]) (q, l h) = Inr (q', l')" using run Inr y by (simp add: acts_append)
      then have "inside body rest h (q, l) ?s"
        unfolding inside_def using rest b Cons other
        by (intro exI [of _ c] exI [of _ cs] exI [of _ "pre @ [f]"] exI [of _ fs]) simp
      then have "atom_inv body todo x0 ?s"
        unfolding atom_inv_def using todo at inv(2)
        by (intro exI [of _ log] exI [of _ rest] exI [of _ "(q, l)"]) simp
      then show ?thesis by (simp add: r)
    qed
  qed
qed

lemma atom_inv_blocked:
  assumes "atom_inv body todo x0 s" "lock s = Some h" "t \<noteq> h"
  shows "sys_step t s = None"
proof -
  obtain rest x where "inside body rest h x s"
    using assms(1,2) unfolding atom_inv_def by auto
  then have "code s t = calls_code body (rest t)" using assms(3) by (auto simp: inside_def)
  then show ?thesis using assms(2) by (cases "rest t") (simp_all add: sys_step_def)
qed

lemma atom_inv_step:
  assumes "atom_inv body todo x0 s" "sys_step t s = Some r"
  shows "ensures (atom_stop body todo x0) (atom_inv body todo x0) r"
proof (cases "lock s")
  case None
  with assms show ?thesis by (intro atom_inv_enter)
next
  case (Some h)
  have "t = h" using atom_inv_blocked [OF assms(1) Some] assms(2) by fastforce
  with assms Some show ?thesis by (intro atom_inv_inside) auto
qed

text \<open>
  Every run of guarded calls, in whatever order the threads are scheduled, has the effect of the calls
  taken whole, in the order in which they took the mutex; it stops only where those would.
\<close>

lemma guarded_calls_atomic:
  assumes "lock s = None" "\<And>t. code s t = calls_code body (todo t)"
  shows "ensures (atom_stop body todo (obj s, loc s)) (atom_inv body todo (obj s, loc s)) (sys_run sched s)"
proof (rule sys_run_ensures)
  show "atom_inv body todo (obj s, loc s) s"
    unfolding atom_inv_def using assms by (intro exI [of _ "[]"] exI [of _ todo]) simp
qed (rule atom_inv_step)

lemma atom_inv_finished:
  assumes "atom_inv body todo x0 s" "\<And>t. code s t = []"
  obtains log where "\<And>t. by_thread t log = todo t" "atomic body log x0 = Inr (obj s, loc s)"
proof -
  obtain log rest x where todo: "\<And>t. todo t = by_thread t log @ rest t"
    and at: "atomic body log x0 = Inr x"
    and l: "case lock s of None \<Rightarrow> x = (obj s, loc s) \<and> (\<forall>t. code s t = calls_code body (rest t))
      | Some h \<Rightarrow> inside body rest h x s"
    using assms(1) unfolding atom_inv_def by blast
  have free: "lock s = None" using l assms(2) by (cases "lock s") (auto simp: inside_def)
  have "rest t = []" for t
    using l free assms(2) [of t] by (cases "rest t") (auto dest: spec [of _ t])
  then show thesis using that [of log] todo at l free by simp
qed

end
