(* ===== verification/StressTest.thy ===== *)
theory StressTest
  imports ServerState
begin

text \<open>
  The load generator in chat/stress-test: it logs in many users (\<open>LoginModel\<close>), sends messages over
  their connections (\<open>Cmdmodel\<close>) and reads what comes back (\<open>Iomodel\<close>). Its send buffer and its
  receiver are the server's in other classes; they are defined here as they are written, and two
  projections show that they refine the server's.
\<close>

section \<open>CmdSend\<close>

record cmdsend =
  cs_position :: int
  cs_sendbuff :: block

definition CmdSend :: "block \<Rightarrow> cmdsend" where
  "CmdSend junk = \<lparr>cs_position = 0, cs_sendbuff = junk\<rparr>"

definition cs_setPosition :: "int \<Rightarrow> cmdsend \<Rightarrow> cmdsend" where
  "cs_setPosition pos s = s\<lparr>cs_position := cs_position s + pos\<rparr>"

definition cs_getPosition :: "cmdsend \<Rightarrow> int" where
  "cs_getPosition s = cs_position s"

definition cs_m_copy :: "block \<Rightarrow> int \<Rightarrow> cmdsend \<Rightarrow> (int \<times> cmdsend) res" where
  "cs_m_copy p len s =
     rbind (c_memcpy (cs_position s) p (cs_sendbuff s) len) (\<lambda>b.
       Inr (cs_position s, s\<lparr>cs_sendbuff := b\<rparr>))"

definition cs_startSend :: "int \<Rightarrow> cmdsend \<Rightarrow> (int \<times> cmdsend \<times> block) res" where
  "cs_startSend nread s =
     (if nread < 0 then Inr (- 1, s, [])
      else rbind (c_memcpy 0 (drop (nat nread) (cs_sendbuff s)) (cs_sendbuff s) nread) (\<lambda>b.
             Inr (nread, s\<lparr>cs_position := cs_position s - nread, cs_sendbuff := b\<rparr>,
                  take (nat nread) (cs_sendbuff s))))"

text \<open>One packet appended, as every caller does it.\<close>

definition cs_append :: "block \<Rightarrow> int \<Rightarrow> cmdsend \<Rightarrow> cmdsend res" where
  "cs_append p len s = rbind (cs_m_copy p len s) (\<lambda>(_, s'). Inr (cs_setPosition len s'))"

definition as_ccmdsend :: "cmdsend \<Rightarrow> ccmdsend" where
  "as_ccmdsend s = \<lparr>m_position = cs_position s, m_sendBuff = cs_sendbuff s, m_udpSendFlag = 0,
     m_udpSendBuff = None\<rparr>"

lemma cs_append_refines:
  "append_packet p len (as_ccmdsend s) = map_sum id as_ccmdsend (cs_append p len s)"
  by (simp add: cs_append_def append_packet_def cs_m_copy_def m_copy_def as_ccmdsend_def c_memcpy_def
      cs_setPosition_def setPosition_def)

lemma cs_startSend_refines:
  "startSend n (as_ccmdsend s) = map_sum id (\<lambda>(r, s', out). (r, as_ccmdsend s', out)) (cs_startSend n s)"
  by (simp add: cs_startSend_def startSend_def as_ccmdsend_def c_memcpy_def)

interpretation stress_send: out_stream cs_append cs_startSend "\<lambda>s. pending (as_ccmdsend s)"
  "\<lambda>s. send_ok (as_ccmdsend s)"
proof unfold_locales
  fix s p len s'
  assume "send_ok (as_ccmdsend s)" "cs_append p len s = Inr s'"
  then show "pending (as_ccmdsend s') = pending (as_ccmdsend s) @ take (nat len) p \<and> send_ok (as_ccmdsend s')"
    using cmdsend.app_pend [of "as_ccmdsend s" p len "as_ccmdsend s'"] by (simp add: cs_append_refines)
next
  fix s n r s' out
  assume "send_ok (as_ccmdsend s)" "cs_startSend n s = Inr (r, s', out)" "0 \<le> n"
    "n \<le> int (length (pending (as_ccmdsend s)))" "int (length (pending (as_ccmdsend s))) \<le> 2 * n"
  then show "out @ pending (as_ccmdsend s') = pending (as_ccmdsend s) \<and> send_ok (as_ccmdsend s')"
    using cmdsend.snd_pend [of "as_ccmdsend s" n r "as_ccmdsend s'" out] by (simp add: cs_startSend_refines)
qed

section \<open>CmdRecv and the reading part of Iomodel::epollRead\<close>

record cmdrecv =
  cr_recvbuff :: "block option"
  cr_recvHeadFlag :: bool
  cr_totalLengthOfData :: int
  cr_lengthHasRecv :: int

definition CmdRecv :: cmdrecv where
  "CmdRecv = \<lparr>cr_recvbuff = None, cr_recvHeadFlag = False, cr_totalLengthOfData = 0,
     cr_lengthHasRecv = 0\<rparr>"

definition get_recvbuff :: "block \<Rightarrow> cmdrecv \<Rightarrow> cmdrecv" where
  "get_recvbuff junk r = r\<lparr>cr_recvbuff := Some junk\<rparr>"

text \<open>The boolean tells that \<open>recv\<close> of the header returned 0 and \<open>epollRead\<close> returns.\<close>

definition st_head :: "block \<Rightarrow> cmdrecv \<Rightarrow> block \<Rightarrow> bool \<Rightarrow> (cmdrecv \<times> block \<times> bool) res" where
  "st_head junk r rx eof =
     (case k_recv header_size rx eof of (n, d, rx') \<Rightarrow>
        rbind (c_memcpy 0 d junk (int (length d))) (\<lambda>b.
          if n = 0 then Inr (get_recvbuff b r, rx', True)
          else rbind (rd32 8 b) (\<lambda>len.
            Inr ((get_recvbuff b r)\<lparr>cr_totalLengthOfData := sint len,
                   cr_lengthHasRecv := header_size, cr_recvHeadFlag := True\<rparr>, rx', False))))"

text \<open>The rest of the packet; the -1 of a \<open>recv\<close> that finds nothing is added like any count.\<close>

definition st_body :: "cmdrecv \<Rightarrow> block \<Rightarrow> bool \<Rightarrow> (cmdrecv \<times> block \<times> block list) res" where
  "st_body r rx eof =
     (let nres = cr_totalLengthOfData r - cr_lengthHasRecv r in
      case k_recv nres rx eof of (n, d, rx') \<Rightarrow>
        rbind (case cr_recvbuff r of None \<Rightarrow> Inl UninitRead | Some b \<Rightarrow> Inr b) (\<lambda>b.
          rbind (if n < 0 then Inr b else c_memcpy (cr_lengthHasRecv r) d b (int (length d))) (\<lambda>b'.
            let r' = r\<lparr>cr_recvbuff := Some b', cr_lengthHasRecv := cr_lengthHasRecv r + n\<rparr> in
            if cr_lengthHasRecv r' = cr_totalLengthOfData r'
            then Inr (r'\<lparr>cr_lengthHasRecv := 0, cr_recvHeadFlag := False\<rparr>, rx', [b'])
            else Inr (r', rx', []))))"

definition st_step :: "block \<Rightarrow> cmdrecv \<Rightarrow> block \<Rightarrow> bool \<Rightarrow> (cmdrecv \<times> block \<times> block list) res" where
  "st_step junk r rx eof =
     (if header_size \<le> k_fionread rx \<or> cr_recvHeadFlag r then
        rbind (if \<not> cr_recvHeadFlag r then st_head junk r rx eof else Inr (r, rx, False))
          (\<lambda>(r1, rx1, gone).
             if gone then Inr (r1, rx1, [])
             else if cr_recvHeadFlag r1 then st_body r1 rx1 eof else Inr (r1, rx1, []))
      else Inr (r, rx, []))"

definition as_ccmdrecv :: "cmdrecv \<Rightarrow> ccmdrecv" where
  "as_ccmdrecv r = \<lparr>m_recvBuff = cr_recvbuff r, m_recvHeadFlag = cr_recvHeadFlag r,
     m_totalLengthOfData = cr_totalLengthOfData r, m_lengthHasRecv = cr_lengthHasRecv r\<rparr>"

text \<open>Wherever the server's receiver goes on, this one does the same.\<close>

lemma st_head_refines:
  "recv_head junk (as_ccmdrecv r) rx eof = map_sum id (\<lambda>(r', x). (as_ccmdrecv r', x)) (st_head junk r rx eof)"
  by (simp add: recv_head_def st_head_def as_ccmdrecv_def getRecvBuff_def get_recvbuff_def c_memcpy_def
      rd32_def split: prod.split)

lemma st_body_refines:
  assumes "recv_body (as_ccmdrecv r) rx eof = Inr (r', rx', out)"
  shows "\<exists>r2. st_body r rx eof = Inr (r2, rx', out) \<and> as_ccmdrecv r2 = r'"
  using assms
  by (auto simp: recv_body_def st_body_def as_ccmdrecv_def recv_block_def Let_def res_simps
      split: prod.splits if_splits option.splits)

lemma st_step_refines:
  assumes "server_read junk (as_ccmdrecv r) rx = Inr (r', rx', out)"
  shows "\<exists>r2. st_step junk r rx False = Inr (r2, rx', out) \<and> as_ccmdrecv r2 = r'"
proof (cases "header_size \<le> k_fionread rx \<or> cr_recvHeadFlag r")
  case False
  then show ?thesis using assms by (simp add: server_read_def recv_step_def st_step_def) (simp add: as_ccmdrecv_def)
next
  case True
  show ?thesis
  proof (cases "cr_recvHeadFlag r")
    case h: True
    then have "m_recvHeadFlag (as_ccmdrecv r)" by (simp add: as_ccmdrecv_def)
    then have "recv_body (as_ccmdrecv r) rx False = Inr (r', rx', out)"
      using assms by (auto simp: server_read_def recv_step_def res_simps)
    from st_body_refines [OF this] show ?thesis using h by (simp add: st_step_def)
  next
    case h: False
    then have nh: "\<not> m_recvHeadFlag (as_ccmdrecv r)" by (simp add: as_ccmdrecv_def)
    show ?thesis
    proof (cases "st_head junk r rx False")
      case (Inl e)
      then show ?thesis using assms True h nh by (simp add: server_read_def recv_step_def st_head_refines)
    next
      case (Inr y)
      then obtain r1 rx1 gone where y: "st_head junk r rx False = Inr (r1, rx1, gone)" by (cases y) auto
      have fl: "m_recvHeadFlag (as_ccmdrecv r1) = cr_recvHeadFlag r1" by (simp add: as_ccmdrecv_def)
      show ?thesis
        using assms True h nh y fl st_body_refines [of r1 rx1 False r' rx' out]
        by (auto simp: server_read_def recv_step_def st_step_def st_head_refines res_simps split: if_splits)
    qed
  qed
qed

definition stress_read :: "block \<Rightarrow> cmdrecv \<Rightarrow> block \<Rightarrow> (cmdrecv \<times> block \<times> block list) res" where
  "stress_read junk r rx = st_step junk r rx False"

interpretation stress_framer: framer stress_read "\<lambda>r. recv_partial (as_ccmdrecv r)"
  "\<lambda>r. recv_framed (as_ccmdrecv r)" "\<lambda>r. recv_ready (as_ccmdrecv r)" 16
proof
  fix r :: cmdrecv and junk rx :: block and ps :: "block list"
  assume a: "recv_framed (as_ccmdrecv r)" "length junk = block_size" "recv_ready (as_ccmdrecv r) rx"
    "\<forall>p \<in> set ps. valid_packet 16 p" "prefix (recv_partial (as_ccmdrecv r) @ rx) (concat ps)"
  from server_step_frames [OF a] obtain r' rx' out where
    s: "server_read junk (as_ccmdrecv r) rx = Inr (r', rx', out)" "recv_framed r'"
      "if out = [] then recv_partial r' @ rx' = recv_partial (as_ccmdrecv r) @ rx
       else \<exists>b p ps'. out = [b] \<and> ps = p # ps' \<and> payload b = p \<and>
              p @ recv_partial r' @ rx' = recv_partial (as_ccmdrecv r) @ rx"
    by blast
  from st_step_refines [OF s(1)] obtain r2 where
    "st_step junk r rx False = Inr (r2, rx', out)" "as_ccmdrecv r2 = r'" by blast
  with s(2,3) show "\<exists>s' rx' out. stress_read junk r rx = Inr (s', rx', out) \<and> recv_framed (as_ccmdrecv s') \<and>
       (if out = [] then recv_partial (as_ccmdrecv s') @ rx' = recv_partial (as_ccmdrecv r) @ rx
        else \<exists>b p ps'. out = [b] \<and> ps = p # ps' \<and> payload b = p \<and>
               p @ recv_partial (as_ccmdrecv s') @ rx' = recv_partial (as_ccmdrecv r) @ rx)"
    unfolding stress_read_def by blast
qed

end
