(* ===== verification/StressModel.thy ===== *)
theory StressModel
  imports StressTest
begin

text \<open>
  The three modules of the load generator: \<open>LoginModel\<close>, \<open>Cmdmodel\<close> and \<open>Iomodel\<close>. A user object is
  never deleted, so its address is its place in the list of all user objects; the modules share the
  objects by address.
\<close>

section \<open>Users and their lists\<close>

record suser =
  su_sockfd :: int
  su_userId :: int
  su_send :: cmdsend
  su_recv :: cmdrecv
  su_lasttime :: int
  su_sendLastTime :: int

text \<open>The constructor sets neither the descriptor nor the id: \<open>jfd\<close> and \<open>jid\<close>.\<close>

definition st_UserData :: "int \<Rightarrow> int \<Rightarrow> block \<Rightarrow> int \<Rightarrow> suser" where
  "st_UserData jfd jid jbuf now =
     \<lparr>su_sockfd = jfd, su_userId = jid, su_send = CmdSend jbuf, su_recv = CmdRecv,
      su_lasttime = now, su_sendLastTime = now\<rparr>"

definition st_getSockFd :: "suser \<Rightarrow> int" where
  "st_getSockFd u = su_sockfd u"

definition st_setSockFd :: "int \<Rightarrow> suser \<Rightarrow> suser" where
  "st_setSockFd fd u = u\<lparr>su_sockfd := fd\<rparr>"

definition st_getUserId :: "suser \<Rightarrow> int" where
  "st_getUserId u = su_userId u"

definition st_setUserId :: "int \<Rightarrow> suser \<Rightarrow> suser" where
  "st_setUserId i u = u\<lparr>su_userId := i\<rparr>"

record 'a userlist =
  m_usercount :: "32 word"
  m_userlist :: "'a list"

definition UserList :: "32 word \<Rightarrow> 'a userlist" where
  "UserList junk = \<lparr>m_usercount = junk, m_userlist = []\<rparr>"

definition user_pop :: "'a userlist \<Rightarrow> ('a \<times> 'a userlist) res" where
  "user_pop l = (case m_userlist l of
       [] \<Rightarrow> Inl PopEmpty
     | p # ps \<Rightarrow> Inr (p, l\<lparr>m_userlist := ps, m_usercount := m_usercount l - 1\<rparr>))"

definition getUserSize :: "'a userlist \<Rightarrow> int" where
  "getUserSize l = sint (m_usercount l)"

definition user_push :: "'a \<Rightarrow> 'a userlist \<Rightarrow> 'a userlist" where
  "user_push p l = l\<lparr>m_userlist := m_userlist l @ [p], m_usercount := m_usercount l + 1\<rparr>"

interpretation userlist: counted_queue user_push user_pop getUserSize m_usercount m_userlist
  by unfold_locales (auto simp: user_push_def user_pop_def getUserSize_def)

section \<open>The state\<close>

text \<open>
  \<^item> \<open>objs\<close>: the user objects; \<open>lo_fds\<close>: the descriptors in the array \<open>unloginuser\<close>; \<open>t_closed\<close>: the
    descriptors closed so far; \<open>lo_sendmsg\<close>, \<open>lo_recvmsg\<close>: the two message buffers of \<open>LoginModel\<close>;
  \<^item> \<open>m_loginuserList\<close>, \<open>m_userMap\<close>, \<open>m_userList\<close> of \<open>Cmdmodel\<close>, \<open>io_users\<close> and \<open>t_packList\<close> of
    \<open>Iomodel\<close>, \<open>t_epoll\<close> its interest masks;
  \<^item> \<open>t_rx\<close>, \<open>t_eof\<close>: the sockets; \<open>t_out\<close>: what was sent; \<open>t_shown\<close>: what was displayed.
\<close>

record tester =
  objs :: "suser list"
  lo_fds :: "int list"
  t_closed :: "int list"
  lo_sendmsg :: block
  lo_recvmsg :: block
  loginedNum :: int
  m_loginuserList :: "nat userlist"
  m_userMap :: "(int, nat) smap"
  m_userList :: "nat userlist"
  io_users :: "(int, nat) smap"
  t_packList :: "block savelist"
  t_epoll :: "(int, 32 word) smap"
  t_rx :: "int \<Rightarrow> block"
  t_eof :: "int \<Rightarrow> bool"
  t_out :: "(int \<times> block) list"
  t_shown :: "(int \<times> block) list"

definition USERNUM :: nat where
  "USERNUM = 10000"

definition tester_init :: "int list \<Rightarrow> block \<Rightarrow> block \<Rightarrow> 32 word \<Rightarrow> 32 word \<Rightarrow> 32 word \<Rightarrow> tester" where
  "tester_init jfds jsend jrecv j1 j2 j3 =
     \<lparr>objs = [], lo_fds = jfds, t_closed = [], lo_sendmsg = jsend, lo_recvmsg = jrecv, loginedNum = 0,
      m_loginuserList = UserList j1, m_userMap = [], m_userList = UserList j2, io_users = [],
      t_packList = SaveList j3, t_epoll = [], t_rx = (\<lambda>_. []), t_eof = (\<lambda>_. False), t_out = [],
      t_shown = []\<rparr>"

definition obj_at :: "(int, nat) smap \<Rightarrow> int \<Rightarrow> tester \<Rightarrow> (nat \<times> suser) res" where
  "obj_at m k t = rbind (map_at k m) (\<lambda>a. if a < length (objs t) then Inr (a, objs t ! a) else Inl UseAfterFree)"

definition put_obj :: "nat \<Rightarrow> suser \<Rightarrow> tester \<Rightarrow> tester" where
  "put_obj a u t = t\<lparr>objs := (objs t)[a := u]\<rparr>"

section \<open>LoginModel\<close>

text \<open>
  One round of the loop in \<open>funcConnect\<close>: the descriptor that \<open>socket\<close> returned, what \<open>send\<close>
  returned, the bytes \<open>recv\<close> stored (none if it failed), and the indeterminate contents of the
  buffer of a new user. What \<open>connect\<close> returned is not used.
\<close>

record attempt =
  at_fd :: int
  at_sent :: int
  at_reply :: block
  at_junk :: block
  at_now :: int

definition st_login_message :: "block \<Rightarrow> block res" where
  "st_login_message b =
     rbind (c_strcpy 16 (str_bytes ''aa'') b) (\<lambda>b. rbind (c_strcpy 66 (str_bytes ''aa'') b) (\<lambda>b.
     rbind (wr32 0 1 b) (\<lambda>b. rbind (wr32 12 1 b) (\<lambda>b. wr32 8 86 b))))"

text \<open>\<open>unloginuser[i].deleteUser()\<close>, with the index as the code computes it.\<close>

definition st_deleteUser :: "int \<Rightarrow> tester \<Rightarrow> tester res" where
  "st_deleteUser i t =
     (if 0 \<le> i \<and> i < int (length (lo_fds t)) then Inr (t\<lparr>t_closed := t_closed t @ [lo_fds t ! nat i]\<rparr>)
      else Inl OutOfBounds)"

text \<open>
  The result is the index of the next round. A failed \<open>send\<close> counts the index down before the
  descriptor is closed, a failed \<open>recv\<close> after it.
\<close>

definition login_attempt :: "attempt \<Rightarrow> int \<times> tester \<Rightarrow> (int \<times> tester) res" where
  "login_attempt a st =
     (case st of (i, t) \<Rightarrow>
        rbind (if 0 \<le> i \<and> i < int (length (lo_fds t))
               then Inr (t\<lparr>lo_fds := (lo_fds t)[nat i := at_fd a]\<rparr>) else Inl OutOfBounds) (\<lambda>t.
        rbind (st_login_message (lo_sendmsg t)) (\<lambda>msg.
          let t = t\<lparr>lo_sendmsg := msg\<rparr> in
          if at_sent a \<le> 0 then rbind (st_deleteUser (i - 1) t) (\<lambda>t. Inr (i, t))
          else let t = t\<lparr>t_out := t_out t @ [(at_fd a, take (nat (at_sent a)) msg)]\<rparr> in
            if at_reply a = [] then rbind (st_deleteUser i t) (\<lambda>t. Inr (i, t))
            else let b = blit 0 (take 18 (at_reply a)) (lo_recvmsg t); t = t\<lparr>lo_recvmsg := b\<rparr> in
              if c_streq 16 ''Y'' b
              then rbind (rd32 4 b) (\<lambda>uid.
                     let u = st_setUserId (sint uid) (st_setSockFd (at_fd a)
                               (st_UserData 0 0 (at_junk a) (at_now a)))
                     in Inr (i + 1, t\<lparr>objs := objs t @ [u],
                               m_loginuserList := user_push (length (objs t)) (m_loginuserList t),
                               loginedNum := loginedNum t + 1\<rparr>))
              else rbind (st_deleteUser i t) (\<lambda>t. Inr (i, t)))))"

text \<open>The loop, with whether it has ended when the rounds given have.\<close>

fun funcConnect :: "attempt list \<Rightarrow> int \<times> tester \<Rightarrow> (bool \<times> int \<times> tester) res" where
  "funcConnect [] (i, t) = Inr (int USERNUM \<le> i, i, t)"
| "funcConnect (a # as) (i, t) =
     (if i < int USERNUM then rbind (login_attempt a (i, t)) (funcConnect as) else Inr (True, i, t))"

section \<open>Cmdmodel\<close>

definition st_dealWithMessage :: "block \<Rightarrow> tester \<Rightarrow> tester res" where
  "st_dealWithMessage pack t =
     rbind (rd32 0 pack) (\<lambda>cmd.
       case cmd_of (sint cmd) of
         Some SENDtoONE \<Rightarrow> rbind (rd32 16 pack) (\<lambda>sender. rbind (c_str (drop 20 pack)) (\<lambda>txt.
           Inr (t\<lparr>t_shown := t_shown t @ [(sint sender, txt)]\<rparr>)))
       | Some SENDtoOTHERS \<Rightarrow> rbind (rd32 16 pack) (\<lambda>sender. rbind (c_str (drop 20 pack)) (\<lambda>txt.
           Inr (t\<lparr>t_shown := t_shown t @ [(sint sender, txt)]\<rparr>)))
       | _ \<Rightarrow> Inr t)"

text \<open>\<open>setListHasLogined\<close>: a user for the key 0 at first, then one pass of the loop.\<close>

definition setListHasLogined_start :: "int \<Rightarrow> int \<Rightarrow> block \<Rightarrow> int \<Rightarrow> tester \<Rightarrow> tester" where
  "setListHasLogined_start jfd jid jbuf now t =
     t\<lparr>objs := objs t @ [st_UserData jfd jid jbuf now],
       m_userMap := map_ins 0 (length (objs t)) (m_userMap t)\<rparr>"

definition take_logined :: "tester \<Rightarrow> tester res" where
  "take_logined t =
     (if getUserSize (m_loginuserList t) \<noteq> 0
      then rbind (user_pop (m_loginuserList t)) (\<lambda>(a, l).
             if a < length (objs t)
             then Inr (t\<lparr>m_loginuserList := l,
                    m_userMap := map_ins (st_getUserId (objs t ! a)) a (m_userMap t),
                    m_userList := user_push a (m_userList t)\<rparr>)
             else Inl UseAfterFree)
      else Inr t)"

definition setListHasLogined_iter :: "tester \<Rightarrow> tester res" where
  "setListHasLogined_iter t =
     rbind (take_logined t) (\<lambda>t.
       if sl_getPackSize (t_packList t) > 0
       then rbind (pack_pop (t_packList t)) (\<lambda>(pack, l). st_dealWithMessage pack (t\<lparr>t_packList := l\<rparr>))
       else Inr t)"

text \<open>A packet of 26 bytes with a text of five.\<close>

definition st_packet :: "string \<Rightarrow> int \<Rightarrow> int \<Rightarrow> cmdId \<Rightarrow> block \<Rightarrow> block res" where
  "st_packet txt uid to c junk =
     rbind (c_strcpy 20 (str_bytes txt) junk) (\<lambda>b. rbind (wr32 12 1 b) (\<lambda>b.
     rbind (wr32 4 (word_of_int uid) b) (\<lambda>b. rbind (wr32 8 26 b) (\<lambda>b.
     rbind (wr32 16 (word_of_int to) b) (\<lambda>b. wr32 0 (word_of_int (cmd_num c)) b)))))"

text \<open>\<open>m_userMap[k]->m_send->m_copy(p, len)\<close> and \<open>setPosition(len)\<close>.\<close>

definition st_send_to :: "int \<Rightarrow> block \<Rightarrow> int \<Rightarrow> tester \<Rightarrow> tester res" where
  "st_send_to k p len t =
     rbind (obj_at (m_userMap t) k t) (\<lambda>(a, u). rbind (cs_append p len (su_send u)) (\<lambda>s.
       Inr (put_obj a (u\<lparr>su_send := s\<rparr>) t)))"

text \<open>\<open>sendHeartBeat\<close> puts the packet into the buffer of the user with key 0.\<close>

definition st_sendHeartBeat :: "block \<Rightarrow> int \<Rightarrow> int \<Rightarrow> tester \<Rightarrow> tester res" where
  "st_sendHeartBeat junk now k t =
     rbind (obj_at (m_userMap t) k t) (\<lambda>(a, u).
     rbind (st_packet ''heart'' (st_getUserId u) 0 HEARTBEAT junk) (\<lambda>b.
     rbind (st_send_to 0 b 26 t) (\<lambda>t. rbind (obj_at (m_userMap t) k t) (\<lambda>(a, u).
       Inr (put_obj a (u\<lparr>su_sendLastTime := now\<rparr>) t)))))"

definition st_talk :: "cmdId \<Rightarrow> block \<Rightarrow> nat \<Rightarrow> tester \<Rightarrow> tester res" where
  "st_talk c junk i t =
     rbind (st_packet ''hello'' (int i) (int (i + 1)) c junk) (\<lambda>b. st_send_to (int (i + 1)) b 26 t)"

definition cmd333 :: "block \<Rightarrow> tester \<Rightarrow> tester res" where
  "cmd333 junk = rfold (st_talk SENDtoONE junk) [1..<333]"

definition cmd1000 :: "block \<Rightarrow> tester \<Rightarrow> tester res" where
  "cmd1000 junk = rfold (st_talk SENDtoONE junk) [1..<1000]"

definition cmd3000 :: "block \<Rightarrow> tester \<Rightarrow> tester res" where
  "cmd3000 junk = rfold (st_talk SENDtoONE junk) [1..<3000]"

definition cmd100qun :: "block \<Rightarrow> tester \<Rightarrow> tester res" where
  "cmd100qun junk = rfold (st_talk SENDtoOTHERS junk) [1..<100]"

definition funcCmd_choice :: "block \<Rightarrow> char \<Rightarrow> tester \<Rightarrow> tester res" where
  "funcCmd_choice junk c =
     (if c = CHR ''1'' then cmd333 junk else if c = CHR ''2'' then cmd1000 junk
      else if c = CHR ''3'' then cmd3000 junk else if c = CHR ''4'' then cmd100qun junk else Inr)"

section \<open>Iomodel\<close>

definition st_epollRead :: "int \<Rightarrow> block \<Rightarrow> tester \<Rightarrow> tester res" where
  "st_epollRead sockfd junk t =
     (if k_fionread (t_rx t sockfd) = 0 then Inr t
      else rbind (obj_at (io_users t) sockfd t) (\<lambda>(a, u).
        rbind (st_step junk (su_recv u) (t_rx t sockfd) (t_eof t sockfd)) (\<lambda>(r, rx, packs).
          Inr ((put_obj a (u\<lparr>su_recv := r\<rparr>) t)\<lparr>t_rx := (t_rx t)(sockfd := rx),
                 t_packList := fold pack_push packs (t_packList t)\<rparr>))))"

definition st_io_take :: "tester \<Rightarrow> tester res" where
  "st_io_take t =
     (if getUserSize (m_userList t) > 0
      then rbind (user_pop (m_userList t)) (\<lambda>(a, l).
             if a < length (objs t)
             then let fd = st_getSockFd (objs t ! a) in
               Inr (t\<lparr>m_userList := l, io_users := map_ins fd a (io_users t),
                      t_epoll := map_ins fd EPOLLIN (t_epoll t)\<rparr>)
             else Inl UseAfterFree)
      else Inr t)"

text \<open>The loop over the users sets the interest of each: reading, or writing if bytes are pending.\<close>

definition st_epoll_mod :: "int \<Rightarrow> 32 word \<Rightarrow> (int, 32 word) smap \<Rightarrow> (int, 32 word) smap" where
  "st_epoll_mod fd ev ep = (if map_find fd ep = None then ep else map_put fd ev ep)"

definition st_visit :: "int \<Rightarrow> tester \<Rightarrow> tester res" where
  "st_visit fd t =
     (let t = t\<lparr>t_epoll := st_epoll_mod fd EPOLLIN (t_epoll t)\<rparr> in
      rbind (obj_at (io_users t) fd t) (\<lambda>(_, u).
        Inr (if cs_getPosition (su_send u) > 0
             then t\<lparr>t_epoll := st_epoll_mod fd EPOLLOUT (t_epoll t)\<rparr> else t)))"

datatype st_event = StReadable int block | StWritable int int

fun st_handle :: "st_event \<Rightarrow> tester \<Rightarrow> tester res" where
  "st_handle (StReadable fd junk) t = (if fd < 0 then Inr t else st_epollRead fd junk t)"
| "st_handle (StWritable fd nread) t =
     (if fd < 0 then Inr t
      else rbind (obj_at (io_users t) fd t) (\<lambda>(a, u).
        rbind (cs_startSend nread (su_send u)) (\<lambda>(r, s, out).
          Inr ((put_obj a (u\<lparr>su_send := s\<rparr>) t)\<lparr>t_out :=
                 (if out = [] then t_out t else t_out t @ [(fd, out)])\<rparr>))))"

definition funcIo_iter :: "st_event list \<Rightarrow> tester \<Rightarrow> tester res" where
  "funcIo_iter evs t =
     rbind (st_io_take t) (\<lambda>t. rbind (rfold st_visit (keys (io_users t)) t) (rfold st_handle evs))"

end
