(* ===== verification/SyncProps.thy ===== *)
theory SyncProps
  imports Sync StressModel
begin

text \<open>
  The methods of the shared lists statement by statement, run by threads under their mutex: \<open>CList\<close> and
  \<open>CUserList\<close> of the server, \<open>SaveList\<close> of the client, \<open>UserList\<close> of the load generator. The interface
  \<open>guarded_list\<close> has the list and the counter of such an object as fields; inside it the calls of any
  number of threads are shown to be atomic, and the test of the counter without the mutex to be safe for
  one consumer.
\<close>

section \<open>The statements of push and pop\<close>

record ('q, 'a) list_fields =
  f_items :: "'q \<Rightarrow> 'a list"
  f_put_items :: "'a list \<Rightarrow> 'q \<Rightarrow> 'q"
  f_count :: "'q \<Rightarrow> 32 word"
  f_put_count :: "32 word \<Rightarrow> 'q \<Rightarrow> 'q"

text \<open>A thread's variables: the local \<open>p\<close> of a pop, and the elements its calls have returned.\<close>

type_synonym 'a locals = "'a option \<times> 'a list"

definition st_push_back :: "('q, 'a) list_fields \<Rightarrow> 'a \<Rightarrow> 'q \<times> 'a locals \<Rightarrow> ('q \<times> 'a locals) res" where
  "st_push_back F x = (\<lambda>(q, l). Inr (f_put_items F (f_items F q @ [x]) q, l))"

definition st_count_up :: "('q, 'a) list_fields \<Rightarrow> 'q \<times> 'a locals \<Rightarrow> ('q \<times> 'a locals) res" where
  "st_count_up F = (\<lambda>(q, l). Inr (f_put_count F (f_count F q + 1) q, l))"

definition st_front :: "('q, 'a) list_fields \<Rightarrow> 'q \<times> 'a locals \<Rightarrow> ('q \<times> 'a locals) res" where
  "st_front F = (\<lambda>(q, p, out). case f_items F q of [] \<Rightarrow> Inl PopEmpty | x # _ \<Rightarrow> Inr (q, Some x, out))"

definition st_pop_front :: "('q, 'a) list_fields \<Rightarrow> 'q \<times> 'a locals \<Rightarrow> ('q \<times> 'a locals) res" where
  "st_pop_front F = (\<lambda>(q, l). case f_items F q of [] \<Rightarrow> Inl PopEmpty | _ # xs \<Rightarrow> Inr (f_put_items F xs q, l))"

definition st_count_down :: "('q, 'a) list_fields \<Rightarrow> 'q \<times> 'a locals \<Rightarrow> ('q \<times> 'a locals) res" where
  "st_count_down F = (\<lambda>(q, l). Inr (f_put_count F (f_count F q - 1) q, l))"

definition st_return :: "'q \<times> 'a locals \<Rightarrow> ('q \<times> 'a locals) res" where
  "st_return = (\<lambda>(q, p, out). case p of None \<Rightarrow> Inl UninitRead | Some x \<Rightarrow> Inr (q, None, out @ [x]))"

fun list_body :: "('q, 'a) list_fields \<Rightarrow> 'a qop \<Rightarrow> ('q, 'a locals) body" where
  "list_body F (Push x) = [st_push_back F x, st_count_up F]"
| "list_body F Pop = [st_front F, st_pop_front F, st_count_down F, st_return]"

lemmas stmt_defs = st_push_back_def st_count_up_def st_front_def st_pop_front_def st_count_down_def st_return_def

definition clist_fields :: "('a clist, 'a) list_fields" where
  "clist_fields = \<lparr>f_items = m_package, f_put_items = (\<lambda>xs q. q\<lparr>m_package := xs\<rparr>),
     f_count = m_packcount, f_put_count = (\<lambda>c q. q\<lparr>m_packcount := c\<rparr>)\<rparr>"

definition vcd_fields :: "(('u, 'l) cuserlist, 'u) list_fields" where
  "vcd_fields = \<lparr>f_items = m_user, f_put_items = (\<lambda>xs q. q\<lparr>m_user := xs\<rparr>),
     f_count = m_count, f_put_count = (\<lambda>c q. q\<lparr>m_count := c\<rparr>)\<rparr>"

definition unlogin_fields :: "(('u, 'l) cuserlist, 'l) list_fields" where
  "unlogin_fields = \<lparr>f_items = m_unloginuser, f_put_items = (\<lambda>xs q. q\<lparr>m_unloginuser := xs\<rparr>),
     f_count = m_unLoginCount, f_put_count = (\<lambda>c q. q\<lparr>m_unLoginCount := c\<rparr>)\<rparr>"

definition savelist_fields :: "('a savelist, 'a) list_fields" where
  "savelist_fields = \<lparr>f_items = sl_package, f_put_items = (\<lambda>xs q. q\<lparr>sl_package := xs\<rparr>),
     f_count = sl_packcount, f_put_count = (\<lambda>c q. q\<lparr>sl_packcount := c\<rparr>)\<rparr>"

definition userlist_fields :: "('a userlist, 'a) list_fields" where
  "userlist_fields = \<lparr>f_items = m_userlist, f_put_items = (\<lambda>xs q. q\<lparr>m_userlist := xs\<rparr>),
     f_count = m_usercount, f_put_count = (\<lambda>c q. q\<lparr>m_usercount := c\<rparr>)\<rparr>"

text \<open>
  The consumer of a list: a pass of its loop tests the counter, without the mutex, and pops. Thread 0 is
  the consumer, every other thread pushes.
\<close>

definition consume_pass :: "('q, 'a) list_fields \<Rightarrow> ('q \<Rightarrow> int) \<Rightarrow> ('q, 'a locals) instr" where
  "consume_pass F sz = Test (\<lambda>q. sz q > 0) (guarded (list_body F Pop))"

definition passes :: "('q, 'a) list_fields \<Rightarrow> ('q \<Rightarrow> int) \<Rightarrow> nat \<Rightarrow> ('q, 'a locals) instr list" where
  "passes F sz n = replicate n (consume_pass F sz)"

definition pushes :: "('q, 'a) list_fields \<Rightarrow> 'a list \<Rightarrow> ('q, 'a locals) instr list" where
  "pushes F xs = calls_code (list_body F) (map Push xs)"

text \<open>The elements that the calls of thread \<open>t\<close> return, among those of all calls.\<close>

fun pops_of :: "nat \<Rightarrow> (nat \<times> 'a qop) list \<Rightarrow> 'a list \<Rightarrow> 'a list" where
  "pops_of t [] outs = []"
| "pops_of t ((t', Push x) # log) outs = pops_of t log outs"
| "pops_of t ((t', Pop) # log) outs =
     (if t' = t then take 1 outs else []) @ pops_of t log (drop 1 outs)"

section \<open>The interface\<close>

locale guarded_list =
  fixes F :: "('q, 'a) list_fields"
    and push :: "'a \<Rightarrow> 'q \<Rightarrow> 'q"
    and pop :: "'q \<Rightarrow> ('a \<times> 'q) res"
    and size_of :: "'q \<Rightarrow> int"
  assumes items_put_items: "f_items F (f_put_items F xs q) = xs"
    and count_put_items: "f_count F (f_put_items F xs q) = f_count F q"
    and items_put_count: "f_items F (f_put_count F c q) = f_items F q"
    and count_put_count: "f_count F (f_put_count F c q) = c"
    and push_statements: "push x q = f_put_count F (f_count F q + 1) (f_put_items F (f_items F q @ [x]) q)"
    and pop_statements: "pop q = (case f_items F q of [] \<Rightarrow> Inl PopEmpty
        | x # xs \<Rightarrow> Inr (x, f_put_count F (f_count F q - 1) (f_put_items F xs q)))"
    and size_statement: "size_of q = sint (f_count F q)"

sublocale guarded_list \<subseteq> counted_queue push pop size_of "f_count F" "f_items F"
  by unfold_locales
    (simp_all add: push_statements pop_statements size_statement items_put_items count_put_items
      items_put_count count_put_count)

context guarded_list
begin

lemmas field_simps_list = items_put_items count_put_items items_put_count count_put_count

lemma acts_push: "acts (list_body F (Push x)) (q, l) = Inr (push x q, l)"
  by (simp add: stmt_defs push_statements count_put_items)

lemma acts_pop:
  "acts (list_body F Pop) (q, p, out) = rbind (pop q) (\<lambda>(x, q'). Inr (q', None, out @ [x]))"
  by (simp add: stmt_defs pop_statements count_put_items split: list.split)

lemma atomic_qrun:
  "case atomic (list_body F) log (q, l) of
     Inl e \<Rightarrow> qrun push pop (map snd log) q = Inl e
   | Inr (q', l') \<Rightarrow> \<exists>outs. qrun push pop (map snd log) q = Inr (outs, q') \<and>
       (\<forall>t. snd (l' t) = snd (l t) @ pops_of t log outs)"
proof (induction log arbitrary: q l)
  case Nil
  show ?case by simp
next
  case (Cons tc log)
  obtain t c where tc: "tc = (t, c)" by force
  show ?case
  proof (cases c)
    case (Push x)
    then show ?thesis
      using Cons.IH [of "push x q" "l(t := l t)"] by (simp add: tc acts_push del: list_body.simps split: sum.splits prod.splits)
  next
    case Pop
    obtain p out where lt: "l t = (p, out)" by force
    show ?thesis
    proof (cases "pop q")
      case (Inl e)
      then show ?thesis by (simp add: tc Pop lt acts_pop del: list_body.simps)
    next
      case (Inr xq)
      obtain x q1 where xq: "xq = (x, q1)" by force
      have a: "atomic (list_body F) (tc # log) (q, l) =
          atomic (list_body F) log (q1, l(t := (None, out @ [x])))"
        by (simp add: tc Pop lt acts_pop Inr xq del: list_body.simps)
      show ?thesis
      proof (cases "atomic (list_body F) log (q1, l(t := (None, out @ [x])))")
        case (Inl e)
        have "qrun push pop (map snd log) q1 = Inl e"
          using Cons.IH [of q1 "l(t := (None, out @ [x]))"] unfolding Inl by simp
        then show ?thesis
          unfolding a Inl by (simp add: tc Pop \<open>pop q = Inr xq\<close> xq)
      next
        case (Inr ql)
        obtain q' l' where ql: "ql = (q', l')" by force
        obtain outs where "qrun push pop (map snd log) q1 = Inr (outs, q')"
          "\<And>t'. snd (l' t') = snd ((l(t := (None, out @ [x]))) t') @ pops_of t' log outs"
          using Cons.IH [of q1 "l(t := (None, out @ [x]))"] unfolding Inr ql by auto
        then show ?thesis
          unfolding a Inr ql by (simp add: tc Pop \<open>pop q = Inr xq\<close> xq lt)
      qed
    qed
  qed
qed

text \<open>Calls of any number of threads, in any interleaving, are calls one after the other.\<close>

lemma linearizable:
  assumes "lock s = None" "\<And>t. code s t = calls_code (list_body F) (calls t)" "\<And>t. loc s t = (None, [])"
  shows "case sys_run sched s of
      Inl e \<Rightarrow> \<exists>log rest. (\<forall>t. calls t = by_thread t log @ rest t) \<and>
        qrun push pop (map snd log) (obj s) = Inl e
    | Inr s' \<Rightarrow> (\<forall>t. code s' t = []) \<longrightarrow> (\<exists>log outs. (\<forall>t. by_thread t log = calls t) \<and>
        qrun push pop (map snd log) (obj s) = Inr (outs, obj s') \<and>
        (\<forall>t. snd (loc s' t) = pops_of t log outs))"
proof (cases "sys_run sched s")
  case (Inl e)
  obtain log rest where "\<forall>t. calls t = by_thread t log @ rest t" "atomic (list_body F) log (obj s, loc s) = Inl e"
    using ensures_InlD [OF guarded_calls_atomic [OF assms(1,2)] Inl] by (auto simp: atom_stop_def)
  then show ?thesis using atomic_qrun [of log "obj s" "loc s"] Inl by auto
next
  case (Inr s')
  have inv: "atom_inv (list_body F) calls (obj s, loc s) s'"
    using ensures_InrD [OF guarded_calls_atomic [OF assms(1,2)] Inr] .
  show ?thesis
  proof (simp add: Inr, intro impI)
    assume "\<forall>t. code s' t = []"
    then obtain log where "\<And>t. by_thread t log = calls t" "atomic (list_body F) log (obj s, loc s) = Inr (obj s', loc s')"
      using atom_inv_finished [OF inv] by blast
    then show "\<exists>log. (\<forall>t. by_thread t log = calls t) \<and> (\<exists>outs. qrun push pop (map snd log) (obj s) = Inr (outs, obj s') \<and>
        (\<forall>t. snd (loc s' t) = pops_of t log outs))"
      using atomic_qrun [of log "obj s" "loc s"] assms(3) by auto
  qed
qed

text \<open>
  The states of one consumer and any producers. The thread that holds the mutex has \<open>k\<close> statements of
  its call behind it; the counter lags behind the list between the two statements of a push, and is one
  ahead between those of a pop. A consumer whose test was positive finds the list not empty.
\<close>

definition counter_is :: "nat \<Rightarrow> nat \<Rightarrow> 'q \<Rightarrow> bool" where
  "counter_is up down q \<longleftrightarrow> f_count F q + word_of_nat up = word_of_nat (length (f_items F q)) + word_of_nat down"

definition consumer_waits :: "nat \<Rightarrow> ('q, 'a locals) system \<Rightarrow> bool" where
  "consumer_waits n s \<longleftrightarrow> code s 0 = passes F size_of n \<or>
     code s 0 = calls_code (list_body F) [Pop] @ passes F size_of n \<and> f_items F (obj s) \<noteq> []"

definition pop_stage :: "nat \<Rightarrow> ('q, 'a locals) system \<Rightarrow> bool" where
  "pop_stage k s \<longleftrightarrow> (if k \<le> 1 then f_items F (obj s) \<noteq> [] else True) \<and>
     counter_is 0 (if k = 2 then 1 else 0) (obj s) \<and> (0 < k \<and> k < 4 \<longrightarrow> fst (loc s 0) \<noteq> None)"

definition push_stage :: "nat \<Rightarrow> 'q \<Rightarrow> bool" where
  "push_stage k q \<longleftrightarrow> counter_is (if k = 1 then 1 else 0) 0 q \<and> (k = 1 \<longrightarrow> f_items F q \<noteq> [])"

definition consumer_inv :: "('q, 'a locals) system \<Rightarrow> bool" where
  "consumer_inv s \<longleftrightarrow> (case lock s of
       None \<Rightarrow> counter_is 0 0 (obj s) \<and> (\<exists>n. consumer_waits n s) \<and> (\<forall>t > 0. \<exists>xs. code s t = pushes F xs)
     | Some h \<Rightarrow>
         if h = 0
         then (\<exists>n k. k \<le> 4 \<and> pop_stage k s \<and>
                code s 0 = map Act (drop k (list_body F Pop)) @ Leave # passes F size_of n) \<and>
              (\<forall>t > 0. \<exists>xs. code s t = pushes F xs)
         else (\<exists>n. consumer_waits n s) \<and> (\<forall>t > 0. t \<noteq> h \<longrightarrow> (\<exists>xs. code s t = pushes F xs)) \<and>
              (\<exists>x xs k. k \<le> 2 \<and> push_stage k (obj s) \<and>
                code s h = map Act (drop k (list_body F (Push x))) @ Leave # pushes F xs))"

lemma passes_simps [simp]:
  "passes F size_of 0 = []"
  "passes F size_of (Suc n) = Test (\<lambda>q. size_of q > 0) (calls_code (list_body F) [Pop]) # passes F size_of n"
  by (simp_all add: passes_def consume_pass_def guarded_def)

lemma pushes_simps [simp]:
  "pushes F [] = []"
  "pushes F (x # xs) = Enter # map Act (list_body F (Push x)) @ Leave # pushes F xs"
  by (simp_all add: pushes_def)

lemma positive_size_nonempty: "counter_is 0 0 q \<Longrightarrow> size_of q > 0 \<Longrightarrow> f_items F q \<noteq> []"
  by (auto simp: counter_is_def size_statement)

text \<open>The consumer outside its guarded block: a test, or the mutex is taken.\<close>

lemma consumer_outside:
  assumes "consumer_waits n s" "size_of (obj s) > 0 \<longrightarrow> f_items F (obj s) \<noteq> []" "sys_step 0 s = Some r"
  shows "(\<exists>s'. r = Inr s' \<and> lock s' = lock s \<and> obj s' = obj s \<and> loc s' = loc s \<and>
            (\<forall>t > 0. code s' t = code s t) \<and> (\<exists>n. consumer_waits n s')) \<or>
         (\<exists>s'. r = Inr s' \<and> lock s = None \<and> lock s' = Some 0 \<and> obj s' = obj s \<and> loc s' = loc s \<and>
            (\<forall>t > 0. code s' t = code s t) \<and> f_items F (obj s) \<noteq> [] \<and>
            code s' 0 = map Act (list_body F Pop) @ Leave # passes F size_of n)"
proof (cases "code s 0 = passes F size_of n")
  case True
  then obtain m where n: "n = Suc m"
    using assms(3) by (cases n) (auto simp: sys_step_def)
  let ?s = "s\<lparr>code := (code s)(0 := (if size_of (obj s) > 0 then calls_code (list_body F) [Pop] else []) @ passes F size_of m)\<rparr>"
  have "r = Inr ?s" using assms(3) True n by (auto simp: sys_step_def simp del: list_body.simps)
  moreover have "consumer_waits m ?s"
    using assms(2) by (auto simp: consumer_waits_def)
  ultimately show ?thesis by (intro disjI1 exI [of _ ?s]) auto
next
  case False
  then have c: "code s 0 = calls_code (list_body F) [Pop] @ passes F size_of n" "f_items F (obj s) \<noteq> []"
    using assms(1) by (auto simp: consumer_waits_def)
  let ?s = "s\<lparr>lock := Some 0, code := (code s)(0 := map Act (list_body F Pop) @ Leave # passes F size_of n)\<rparr>"
  have "lock s = None" "r = Inr ?s"
    using assms(3) c(1) by (cases "lock s"; auto simp: sys_step_def simp del: list_body.simps)+
  then show ?thesis using c by (intro disjI2 exI [of _ ?s]) (simp del: list_body.simps)
qed

lemma consumer_waits_same:
  "consumer_waits n s \<Longrightarrow> code s' 0 = code s 0 \<Longrightarrow> obj s' = obj s \<Longrightarrow> consumer_waits n s'"
  by (simp add: consumer_waits_def)

lemma consumer_step_free:
  assumes "consumer_inv s" "lock s = None" "sys_step t s = Some r"
  shows "ensures (\<lambda>_. False) consumer_inv r"
proof -
  have c: "counter_is 0 0 (obj s)" and prod: "\<forall>t > 0. \<exists>xs. code s t = pushes F xs"
    using assms(1,2) by (simp_all add: consumer_inv_def)
  obtain n where n: "consumer_waits n s"
    using assms(1,2) by (auto simp: consumer_inv_def)
  show ?thesis
  proof (cases "t = 0")
    case True
    have ne: "size_of (obj s) > 0 \<longrightarrow> f_items F (obj s) \<noteq> []"
      using positive_size_nonempty [OF c] by blast
    from consumer_outside [OF n ne assms(3) [unfolded True]] show ?thesis
    proof (elim disjE exE conjE)
      fix s' m
      assume "r = Inr s'" "lock s' = lock s" "obj s' = obj s" "\<forall>t > 0. code s' t = code s t" "consumer_waits m s'"
      then show ?thesis using c prod assms(2) by (auto simp: consumer_inv_def)
    next
      fix s'
      assume a: "r = Inr s'" "lock s' = Some 0" "obj s' = obj s" "\<forall>t > 0. code s' t = code s t"
        "f_items F (obj s) \<noteq> []" "code s' 0 = map Act (list_body F Pop) @ Leave # passes F size_of n"
      have "pop_stage 0 s'" using a c by (simp add: pop_stage_def)
      then have "\<exists>n k. k \<le> 4 \<and> pop_stage k s' \<and>
          code s' 0 = map Act (drop k (list_body F Pop)) @ Leave # passes F size_of n"
        using a(6) by (intro exI [of _ n] exI [of _ "0::nat"]) simp
      then show ?thesis using a prod by (simp add: consumer_inv_def)
    qed
  next
    case False
    obtain ys where ys: "code s t = pushes F ys" using prod False by blast
    then obtain x xs where "ys = x # xs" using assms(3) by (cases ys) (auto simp: sys_step_def)
    then have r: "r = Inr (s\<lparr>lock := Some t,
        code := (code s)(t := map Act (list_body F (Push x)) @ Leave # pushes F xs)\<rparr>)"
      using assms(2,3) ys by (simp add: sys_step_def)
    let ?s = "s\<lparr>lock := Some t, code := (code s)(t := map Act (list_body F (Push x)) @ Leave # pushes F xs)\<rparr>"
    have "\<exists>x xs k. k \<le> 2 \<and> push_stage k (obj ?s) \<and>
        code ?s t = map Act (drop k (list_body F (Push x))) @ Leave # pushes F xs"
      using c by (intro exI [of _ x] exI [of _ xs] exI [of _ "0::nat"]) (simp add: push_stage_def)
    moreover have "consumer_waits n ?s" using n False by (auto intro: consumer_waits_same)
    ultimately show ?thesis
      using prod False unfolding r consumer_inv_def by (auto simp del: list_body.simps)
  qed
qed

text \<open>The thread inside a call.\<close>

lemma consumer_step_pop:
  assumes "consumer_inv s" "lock s = Some 0" "sys_step 0 s = Some r"
  shows "ensures (\<lambda>_. False) consumer_inv r"
proof -
  have prod: "\<forall>t > 0. \<exists>xs. code s t = pushes F xs"
    using assms(1,2) by (simp add: consumer_inv_def)
  obtain n k where k: "k \<le> 4" and st: "pop_stage k s"
    and code: "code s 0 = map Act (drop k (list_body F Pop)) @ Leave # passes F size_of n"
    using assms(1,2) by (auto simp: consumer_inv_def)
  obtain p out where l: "loc s 0 = (p, out)" by force
  let ?code = "\<lambda>k. map Act (drop k (list_body F Pop)) @ Leave # passes F size_of n"
  have inside: "consumer_inv s'"
    if "k' \<le> 4" "pop_stage k' s'" "lock s' = Some 0" "code s' = (code s)(0 := ?code k')" for s' k'
    using that prod unfolding consumer_inv_def by (auto simp del: list_body.simps)
  show ?thesis
  proof (cases "k = 4")
    case True
    let ?s = "s\<lparr>lock := None, code := (code s)(0 := passes F size_of n)\<rparr>"
    have "r = Inr ?s" using assms(3) code True by (auto simp: sys_step_def)
    moreover have "consumer_waits n ?s" by (simp add: consumer_waits_def)
    ultimately show ?thesis using st prod True by (auto simp: consumer_inv_def pop_stage_def)
  next
    case False
    then have "k \<in> {0, 1, 2, 3}" using k by auto
    then show ?thesis
    proof (elim insertE)
      assume k: "k = 0"
      then obtain x xs where i: "f_items F (obj s) = x # xs"
        using st by (auto simp: pop_stage_def neq_Nil_conv)
      have r: "r = Inr (s\<lparr>loc := (loc s)(0 := (Some x, out)), code := (code s)(0 := ?code 1)\<rparr>)"
        using assms(3) code i l k by (auto simp: sys_step_def st_front_def)
      show ?thesis unfolding r using st k i assms(2)
        by (simp add: pop_stage_def inside [of 1] del: list_body.simps)
    next
      assume k: "k = 1"
      then obtain x xs where i: "f_items F (obj s) = x # xs"
        using st by (auto simp: pop_stage_def neq_Nil_conv)
      have r: "r = Inr (s\<lparr>obj := f_put_items F xs (obj s), loc := (loc s)(0 := loc s 0), code := (code s)(0 := ?code 2)\<rparr>)"
        using assms(3) code i l k by (auto simp: sys_step_def st_pop_front_def)
      show ?thesis unfolding r using st k i assms(2)
        by (simp add: pop_stage_def counter_is_def field_simps_list inside [of 2] del: list_body.simps)
    next
      assume k: "k = 2"
      have r: "r = Inr (s\<lparr>obj := f_put_count F (f_count F (obj s) - 1) (obj s), loc := (loc s)(0 := loc s 0), code := (code s)(0 := ?code 3)\<rparr>)"
        using assms(3) code l k by (auto simp: sys_step_def st_count_down_def numeral_2_eq_2)
      show ?thesis unfolding r using st k assms(2)
        by (simp add: pop_stage_def counter_is_def field_simps_list inside [of 3] del: list_body.simps)
    next
      assume k: "k = 3"
      then obtain x where x: "p = Some x" using st l by (auto simp: pop_stage_def)
      have r: "r = Inr (s\<lparr>loc := (loc s)(0 := (None, out @ [x])), code := (code s)(0 := ?code 4)\<rparr>)"
        using assms(3) code l k x by (auto simp: sys_step_def st_return_def numeral_3_eq_3 numeral_2_eq_2)
      show ?thesis unfolding r using st k assms(2)
        by (simp add: pop_stage_def counter_is_def inside [of 4] del: list_body.simps)
    qed simp
  qed
qed

lemma consumer_step_push:
  assumes "consumer_inv s" "lock s = Some h" "h \<noteq> 0" "sys_step h s = Some r"
  shows "ensures (\<lambda>_. False) consumer_inv r"
proof -
  have prod: "\<forall>t > 0. t \<noteq> h \<longrightarrow> (\<exists>xs. code s t = pushes F xs)"
    using assms(1-3) by (simp add: consumer_inv_def)
  obtain n where n: "consumer_waits n s"
    using assms(1-3) by (auto simp: consumer_inv_def)
  obtain x xs k where k: "k \<le> 2" and st: "push_stage k (obj s)"
    and code: "code s h = map Act (drop k (list_body F (Push x))) @ Leave # pushes F xs"
    using assms(1-3) by (auto simp: consumer_inv_def)
  obtain l where l: "loc s h = l" by simp
  let ?code = "\<lambda>k. map Act (drop k (list_body F (Push x))) @ Leave # pushes F xs"
  have inside: "consumer_inv s'"
    if "k' \<le> 2" "push_stage k' (obj s')" "consumer_waits n s'" "lock s' = Some h" "code s' = (code s)(h := ?code k')" for s' k'
    using that prod assms(3) unfolding consumer_inv_def by (auto simp del: list_body.simps)
  have "k \<in> {0, 1, 2}" using k by auto
  then show ?thesis
  proof (elim insertE)
    assume k: "k = 0"
    let ?s = "s\<lparr>obj := f_put_items F (f_items F (obj s) @ [x]) (obj s), loc := (loc s)(h := l), code := (code s)(h := ?code 1)\<rparr>"
    have r: "r = Inr ?s"
      using assms(4) code l k by (auto simp: sys_step_def st_push_back_def)
    have "consumer_waits n ?s" using n assms(3) by (auto simp: consumer_waits_def items_put_items)
    moreover have "push_stage 1 (obj ?s)"
      using st k by (simp add: push_stage_def counter_is_def field_simps_list)
    ultimately show ?thesis unfolding r using assms(2) by (simp add: inside [of 1] del: list_body.simps)
  next
    assume k: "k = 1"
    let ?s = "s\<lparr>obj := f_put_count F (f_count F (obj s) + 1) (obj s), loc := (loc s)(h := l), code := (code s)(h := ?code 2)\<rparr>"
    have r: "r = Inr ?s"
      using assms(4) code l k by (auto simp: sys_step_def st_count_up_def numeral_2_eq_2)
    have "consumer_waits n ?s" using n assms(3) by (auto simp: consumer_waits_def items_put_count)
    moreover have "push_stage 2 (obj ?s)"
      using st k by (simp add: push_stage_def counter_is_def field_simps_list)
    ultimately show ?thesis unfolding r using assms(2) by (simp add: inside [of 2] del: list_body.simps)
  next
    assume k: "k = 2"
    let ?s = "s\<lparr>lock := None, code := (code s)(h := pushes F xs)\<rparr>"
    have r: "r = Inr ?s" using assms(4) code k by (auto simp: sys_step_def)
    have "consumer_waits n ?s" using n assms(3) by (auto simp: consumer_waits_def)
    then show ?thesis unfolding r using st k prod assms(3) by (auto simp: consumer_inv_def push_stage_def)
  qed simp
qed

lemma consumer_step:
  assumes inv: "consumer_inv s" and r: "sys_step t s = Some r"
  shows "ensures (\<lambda>_. False) consumer_inv r"
proof (cases "lock s")
  case None
  then show ?thesis using consumer_step_free [OF inv _ r] by simp
next
  case (Some h)
  have waits: "sys_step t s = None" if pushing: "\<exists>xs. code s t = pushes F xs"
  proof -
    obtain xs where "code s t = pushes F xs" using pushing by blast
    then show ?thesis using Some by (cases xs) (simp_all add: sys_step_def)
  qed
  show ?thesis
  proof (cases "t = h")
    case True
    then show ?thesis using consumer_step_pop [OF inv] consumer_step_push [OF inv] Some r by (cases "h = 0") auto
  next
    case False
    then have t: "t = 0" "h \<noteq> 0"
      using waits r inv Some by (auto simp: consumer_inv_def split: if_splits)
    then obtain n where n: "consumer_waits n s" using inv Some by (auto simp: consumer_inv_def)
    obtain x xs k where st: "push_stage k (obj s)"
      and pushing: "k \<le> 2" "code s h = map Act (drop k (list_body F (Push x))) @ Leave # pushes F xs"
      using inv Some t by (auto simp: consumer_inv_def)
    have "size_of (obj s) > 0 \<longrightarrow> f_items F (obj s) \<noteq> []"
      using st positive_size_nonempty [of "obj s"] by (cases "k = 1") (auto simp: push_stage_def)
    from consumer_outside [OF n this] r t(1) Some obtain s' m where
      "r = Inr s'" "lock s' = lock s" "obj s' = obj s" "\<forall>t > 0. code s' t = code s t" "consumer_waits m s'"
      by auto
    moreover have "\<forall>t > 0. t \<noteq> h \<longrightarrow> (\<exists>xs. code s t = pushes F xs)"
      using inv Some t(2) by (simp add: consumer_inv_def)
    ultimately show ?thesis using Some t(2) st pushing by (auto simp: consumer_inv_def simp del: list_body.simps)
  qed
qed

text \<open>
  One consumer may test the counter without the mutex: in no interleaving with the pushes of other
  threads does its pop find the list empty.
\<close>

lemma unlocked_test_safe:
  assumes "lock s = None" "f_items F (obj s) = []" "f_count F (obj s) = 0"
    and "code s 0 = passes F size_of n" "\<And>t. 0 < t \<Longrightarrow> code s t = pushes F (items_of t)"
  shows "\<exists>s'. sys_run sched s = Inr s' \<and> consumer_inv s'"
proof -
  have "consumer_inv s"
    using assms by (auto simp: consumer_inv_def counter_is_def consumer_waits_def)
  then have "ensures (\<lambda>_. False) consumer_inv (sys_run sched s)"
    by (rule sys_run_ensures [rotated]) (rule consumer_step)
  then show ?thesis by (cases "sys_run sched s") auto
qed

lemma consumer_finished:
  assumes "consumer_inv s" "\<forall>t. code s t = []"
  shows "f_count F (obj s) = word_of_nat (length (f_items F (obj s)))"
  using assms by (auto simp: consumer_inv_def counter_is_def split: option.splits if_splits)

end

interpretation clist_guarded: guarded_list clist_fields packPush packPop getPackSize
  by unfold_locales (auto simp: clist_fields_def packPush_def packPop_def getPackSize_def split: list.split)

interpretation vcd_guarded: guarded_list vcd_fields vcdPush vcdPop getSize
  by unfold_locales (auto simp: vcd_fields_def vcdPush_def vcdPop_def getSize_def split: list.split)

interpretation unlogin_guarded: guarded_list unlogin_fields unloginUserPush unloginUserPop getUnloginSize
  by unfold_locales (auto simp: unlogin_fields_def unloginUserPush_def unloginUserPop_def getUnloginSize_def
      split: list.split)

interpretation savelist_guarded: guarded_list savelist_fields pack_push pack_pop sl_getPackSize
  by unfold_locales (auto simp: savelist_fields_def pack_push_def pack_pop_def sl_getPackSize_def
      split: list.split)

interpretation userlist_guarded: guarded_list userlist_fields user_push user_pop getUserSize
  by unfold_locales (auto simp: userlist_fields_def user_push_def user_pop_def getUserSize_def
      split: list.split)

section \<open>Properties\<close>

text \<open>C19: The calls of \<open>packPush\<close> and \<open>packPop\<close> on a \<open>CList\<close>, made by any number of threads whose
  statements interleave in any order, have the effect of the same calls made one after the other: each
  thread's calls in their order, each pop returning to its thread what it returns there, so that the
  elements leave in the order in which they came. A run stops at an empty list only if the calls one after
  the other do.\<close>

theorem packlist_calls_atomic:
  assumes "lock s = None" "\<And>t. code s t = calls_code (list_body clist_fields) (calls t)"
    "\<And>t. loc s t = (None, [])"
  shows "case sys_run sched s of
      Inl e \<Rightarrow> \<exists>log rest. (\<forall>t. calls t = by_thread t log @ rest t) \<and>
        qrun packPush packPop (map snd log) (obj s) = Inl e
    | Inr s' \<Rightarrow> (\<forall>t. code s' t = []) \<longrightarrow> (\<exists>log outs. (\<forall>t. by_thread t log = calls t) \<and>
        qrun packPush packPop (map snd log) (obj s) = Inr (outs, obj s') \<and>
        (\<forall>t. snd (loc s' t) = pops_of t log outs) \<and>
        m_package (obj s) @ pushed (map snd log) = outs @ m_package (obj s'))"
  using clist_guarded.linearizable [OF assms, of sched] clist.run_fifo
  by (fastforce split: sum.splits)

text \<open>Two threads, one pushing 7 and 8, the other popping once, with the statements interleaved.\<close>

definition two_threads :: "(nat clist, nat locals) system" where
  "two_threads = \<lparr>lock = None, obj = \<lparr>m_packcount = 1, m_package = [5]\<rparr>, loc = (\<lambda>_. (None, [])),
     code = (\<lambda>t. calls_code (list_body clist_fields)
        (if t = 1 then [Push 7, Push 8] else if t = 2 then [Pop] else []))\<rparr>"

theorem packlist_calls_atomic_witness:
  "case sys_run [1, 2, 1, 2, 1, 1, 2, 1, 2, 1, 2, 2, 1, 2, 2, 1, 1, 1, 1] two_threads of
      Inl e \<Rightarrow> False
    | Inr s' \<Rightarrow> (\<forall>t. code s' t = []) \<and> m_package (obj s') = [7, 8] \<and>
        (\<exists>log outs. qrun packPush packPop (map snd log) (obj two_threads) = Inr (outs, obj s') \<and>
          snd (loc s' 2) = pops_of 2 log outs)"
proof -
  let ?sched = "[1, 2, 1, 2, 1, 1, 2, 1, 2, 1, 2, 2, 1, 2, 2, 1, 1, 1, 1] :: nat list"
  have "case sys_run ?sched two_threads of Inl e \<Rightarrow> False
    | Inr s' \<Rightarrow> (\<forall>t. code s' t = []) \<and> m_package (obj s') = [7, 8]"
    by (simp add: two_threads_def sys_step_def stmt_defs clist_fields_def)
  then obtain s' where s': "sys_run ?sched two_threads = Inr s'" "\<forall>t. code s' t = []" "m_package (obj s') = [7, 8]"
    by (auto split: sum.splits)
  have "case sys_run ?sched two_threads of
      Inl e \<Rightarrow> \<exists>log rest. (\<forall>t. (if t = 1 then [Push 7, Push 8] else if t = 2 then [Pop] else []) = by_thread t log @ rest t) \<and>
        qrun packPush packPop (map snd log) (obj two_threads) = Inl e
    | Inr s' \<Rightarrow> (\<forall>t. code s' t = []) \<longrightarrow> (\<exists>log outs.
        (\<forall>t. by_thread t log = (if t = 1 then [Push 7, Push 8] else if t = 2 then [Pop] else [])) \<and>
        qrun packPush packPop (map snd log) (obj two_threads) = Inr (outs, obj s') \<and>
        (\<forall>t. snd (loc s' t) = pops_of t log outs) \<and>
        m_package (obj two_threads) @ pushed (map snd log) = outs @ m_package (obj s'))"
    by (rule packlist_calls_atomic) (simp_all add: two_threads_def)
  then show ?thesis using s'(2,3) unfolding s'(1) sum.case by blast
qed

text \<open>C20: The consumers test \<open>getPackSize\<close> without the mutex and then pop. If the counter starts as 0
  and there is one consumer, this is safe: whatever the interleaving with any number of threads that push,
  no pop ever finds the list empty, and when all calls are done the counter is the length of the list.\<close>

theorem unlocked_size_test_safe:
  assumes "lock s = None" "obj s = CList 0" "code s 0 = passes clist_fields getPackSize n"
    and "\<And>t. 0 < t \<Longrightarrow> code s t = pushes clist_fields (items_of t)"
  shows "\<exists>s'. sys_run sched s = Inr s' \<and>
    ((\<forall>t. code s' t = []) \<longrightarrow> m_packcount (obj s') = word_of_nat (length (m_package (obj s'))))"
proof -
  obtain s' where s': "sys_run sched s = Inr s'" "clist_guarded.consumer_inv s'"
    using clist_guarded.unlocked_test_safe [of s n items_of sched] assms
    by (auto simp: clist_fields_def CList_def)
  moreover have "m_packcount (obj s') = word_of_nat (length (m_package (obj s')))" if "\<forall>t. code s' t = []"
    using clist_guarded.consumer_finished [OF s'(2) that] by (simp add: clist_fields_def)
  ultimately show ?thesis by blast
qed

theorem unlocked_size_test_safe_witness:
  "\<exists>s'. sys_run [0, 1, 1, 0, 1, 0, 1, 0, 0, 0, 0, 0, 0]
      \<lparr>lock = None, obj = CList 0, loc = (\<lambda>_. (None, [])),
       code = (\<lambda>t. if t = 0 then passes clist_fields getPackSize 2
                   else pushes clist_fields (if t = 1 then [9::nat] else []))\<rparr> = Inr s' \<and>
     ((\<forall>t. code s' t = []) \<longrightarrow> m_packcount (obj s') = word_of_nat (length (m_package (obj s'))))"
  by (rule unlocked_size_test_safe [where items_of = "\<lambda>t. if t = 1 then [9] else []" and n = 2]) simp_all

text \<open>A counter that does not start as 0 sends the consumer to an empty list.\<close>

lemma unlocked_size_test_junk:
  "sys_run [0, 0, 0] \<lparr>lock = None, obj = CList 1, loc = (\<lambda>_. (None, [])),
     code = (\<lambda>t. if t = 0 then passes clist_fields getPackSize 1 else [])\<rparr> = Inl PopEmpty"
  by (simp add: clist_guarded.passes_simps sys_step_def passes_def consume_pass_def guarded_def stmt_defs
      clist_fields_def CList_def getPackSize_def)

end
