(* ===== verification/Wire.thy ===== *)
theory Wire
  imports ServerState
begin

text \<open>
  The packed structs of the protocol: proto.h of the server, head.h of the client and head.h of the load
  generator. A struct is the list of its fields; under \<open>#pragma pack(1)\<close> the bytes of an object are the
  bytes of its fields, one after the other. The client writes with its own structs what the server
  reads with the server's, and the other way round.
\<close>

section \<open>Types of C and their layout\<close>

datatype ctype =
    C_int
  | C_time_t
  | C_chars nat
  | C_ints nat
  | C_struct "(string \<times> ctype) list"

text \<open>A value: of an array of characters its bytes, of a struct the values of its fields.\<close>

datatype cval =
    V_int i32
  | V_time i64
  | V_chars block
  | V_ints "i32 list"
  | V_struct "cval list"

fun c_sizeof :: "ctype \<Rightarrow> nat" and c_sizeofs :: "(string \<times> ctype) list \<Rightarrow> nat" where
  "c_sizeof C_int = 4"
| "c_sizeof C_time_t = 8"
| "c_sizeof (C_chars n) = n"
| "c_sizeof (C_ints n) = 4 * n"
| "c_sizeof (C_struct fs) = c_sizeofs fs"
| "c_sizeofs [] = 0"
| "c_sizeofs ((_, t) # fs) = c_sizeof t + c_sizeofs fs"

fun has_ctype :: "ctype \<Rightarrow> cval \<Rightarrow> bool" and have_ctypes :: "(string \<times> ctype) list \<Rightarrow> cval list \<Rightarrow> bool" where
  "has_ctype C_int v = (case v of V_int _ \<Rightarrow> True | _ \<Rightarrow> False)"
| "has_ctype C_time_t v = (case v of V_time _ \<Rightarrow> True | _ \<Rightarrow> False)"
| "has_ctype (C_chars n) v = (case v of V_chars b \<Rightarrow> length b = n | _ \<Rightarrow> False)"
| "has_ctype (C_ints n) v = (case v of V_ints ws \<Rightarrow> length ws = n | _ \<Rightarrow> False)"
| "has_ctype (C_struct fs) v = (case v of V_struct vs \<Rightarrow> have_ctypes fs vs | _ \<Rightarrow> False)"
| "have_ctypes [] vs = (vs = [])"
| "have_ctypes ((_, t) # fs) vs = (case vs of [] \<Rightarrow> False | v # vs \<Rightarrow> has_ctype t v \<and> have_ctypes fs vs)"

fun c_bytes :: "cval \<Rightarrow> block" where
  "c_bytes (V_int w) = i32_bytes w"
| "c_bytes (V_time w) = i64_bytes w"
| "c_bytes (V_chars b) = b"
| "c_bytes (V_ints ws) = concat (map i32_bytes ws)"
| "c_bytes (V_struct vs) = concat (map c_bytes vs)"

fun ints_at :: "nat \<Rightarrow> block \<Rightarrow> i32 list" where
  "ints_at 0 b = []"
| "ints_at (Suc n) b = bytes_i32 (take 4 b) # ints_at n (drop 4 b)"

text \<open>The bytes read through a pointer to the type.\<close>

fun c_read :: "ctype \<Rightarrow> block \<Rightarrow> cval" and c_reads :: "(string \<times> ctype) list \<Rightarrow> block \<Rightarrow> cval list" where
  "c_read C_int b = V_int (bytes_i32 (take 4 b))"
| "c_read C_time_t b = V_time (bytes_i64 (take 8 b))"
| "c_read (C_chars n) b = V_chars (take n b)"
| "c_read (C_ints n) b = V_ints (ints_at n b)"
| "c_read (C_struct fs) b = V_struct (c_reads fs b)"
| "c_reads [] b = []"
| "c_reads ((_, t) # fs) b = c_read t b # c_reads fs (drop (c_sizeof t) b)"

fun c_offset :: "(string \<times> ctype) list \<Rightarrow> string \<Rightarrow> nat option" where
  "c_offset [] f = None"
| "c_offset ((g, t) # fs) f = (if g = f then Some 0 else map_option ((+) (c_sizeof t)) (c_offset fs f))"

text \<open>Two types with the same layout: the same fields up to their names.\<close>

fun same_layout :: "ctype \<Rightarrow> ctype \<Rightarrow> bool"
  and same_layouts :: "(string \<times> ctype) list \<Rightarrow> (string \<times> ctype) list \<Rightarrow> bool" where
  "same_layout C_int t = (t = C_int)"
| "same_layout C_time_t t = (t = C_time_t)"
| "same_layout (C_chars n) t = (t = C_chars n)"
| "same_layout (C_ints n) t = (t = C_ints n)"
| "same_layout (C_struct fs) t = (case t of C_struct gs \<Rightarrow> same_layouts fs gs | _ \<Rightarrow> False)"
| "same_layouts [] gs = (gs = [])"
| "same_layouts ((_, t) # fs) gs = (case gs of [] \<Rightarrow> False | (_, u) # gs \<Rightarrow> same_layout t u \<and> same_layouts fs gs)"

section \<open>Reading back what was written\<close>

lemma length_concat_i32: "length (concat (map i32_bytes ws)) = 4 * length ws"
  by (induction ws) simp_all

lemma c_bytes_length:
  "has_ctype t v \<Longrightarrow> length (c_bytes v) = c_sizeof t"
  "have_ctypes fs vs \<Longrightarrow> length (concat (map c_bytes vs)) = c_sizeofs fs"
  by (induction t v and fs vs rule: has_ctype_have_ctypes.induct)
    (auto simp: length_concat_i32 split: cval.splits list.splits)

lemma ints_at_bytes: "length ws = n \<Longrightarrow> ints_at n (concat (map i32_bytes ws) @ r) = ws"
  by (induction ws arbitrary: n) auto

lemma c_read_bytes:
  "has_ctype t v \<Longrightarrow> c_read t (c_bytes v @ r) = v"
  "have_ctypes fs vs \<Longrightarrow> c_reads fs (concat (map c_bytes vs) @ r) = vs"
  by (induction t v and fs vs arbitrary: r and r rule: has_ctype_have_ctypes.induct)
    (auto simp: c_bytes_length ints_at_bytes split: cval.splits list.splits)

lemma same_layout_read:
  "same_layout t u \<Longrightarrow> c_read u b = c_read t b \<and> c_sizeof u = c_sizeof t"
  "same_layouts fs gs \<Longrightarrow> c_reads gs b = c_reads fs b \<and> c_sizeofs gs = c_sizeofs fs"
  by (induction t u and fs gs arbitrary: b and b rule: same_layout_same_layouts.induct)
    (auto split: ctype.splits list.splits)

lemma have_ctypes_snoc:
  "have_ctypes (fs @ [(f, t)]) vs \<longleftrightarrow> (\<exists>us v. vs = us @ [v] \<and> have_ctypes fs us \<and> has_ctype t v)"
proof (induction fs arbitrary: vs)
  case Nil
  show ?case by (auto split: list.splits)
next
  case (Cons gt fs)
  obtain g u where "gt = (g, u)" by force
  then show ?case
    using Cons.IH by (cases vs) (auto simp: Cons_eq_append_conv)
qed

lemma c_reads_append:
  "c_reads (fs @ gs) b = c_reads fs b @ c_reads gs (drop (c_sizeofs fs) b)"
  by (induction fs arbitrary: b) (auto simp: add.commute)

section \<open>The structs of the server\<close>

definition srv_baseHandle :: "(string \<times> ctype) list" where
  "srv_baseHandle = [(''cmdId'', C_int), (''userId'', C_int), (''length'', C_int), (''version'', C_int)]"

definition srv_messageSend :: "(string \<times> ctype) list" where
  "srv_messageSend = [(''head'', C_struct srv_baseHandle), (''recvFromWhichClient'', C_int),
     (''msg'', C_chars 1024)]"

definition srv_messageRecv :: "(string \<times> ctype) list" where
  "srv_messageRecv = [(''head'', C_struct srv_baseHandle), (''whichClientIdToSend'', C_int),
     (''msg'', C_chars 1024)]"

definition srv_loginMessageSend :: "(string \<times> ctype) list" where
  "srv_loginMessageSend = [(''loginHead'', C_struct srv_baseHandle), (''result'', C_chars 2)]"

definition srv_loginMessageRecv :: "(string \<times> ctype) list" where
  "srv_loginMessageRecv = [(''loginHead'', C_struct srv_baseHandle),
     (''name'', C_chars 50), (''passwd'', C_chars 20)]"

definition srv_fileRecv :: "(string \<times> ctype) list" where
  "srv_fileRecv = [(''head'', C_struct srv_baseHandle), (''sendToClientId'', C_int),
     (''filesize'', C_int), (''filename'', C_chars 100), (''fileContext'', C_chars 1424)]"

definition srv_fileSend :: "(string \<times> ctype) list" where
  "srv_fileSend = [(''head'', C_struct srv_baseHandle), (''recvFromWhichId'', C_int),
     (''filesize'', C_int), (''filename'', C_chars 100), (''fileContext'', C_chars 1424)]"

definition srv_udpfileRecv :: "(string \<times> ctype) list" where
  "srv_udpfileRecv = [(''head'', C_struct srv_baseHandle), (''count'', C_int),
     (''time'', C_time_t), (''sendToClientId'', C_int), (''filesize'', C_int), (''filename'', C_chars 10), (''fileContext'', C_chars 1390)]"

definition srv_udpfileSend :: "(string \<times> ctype) list" where
  "srv_udpfileSend = [(''head'', C_struct srv_baseHandle), (''count'', C_int),
     (''time'', C_time_t), (''recvFromWhichId'', C_int), (''filesize'', C_int), (''filename'', C_chars 10), (''fileContext'', C_chars 1390)]"

definition srv_udpLoseNumSend :: "(string \<times> ctype) list" where
  "srv_udpLoseNumSend = [(''head'', C_struct srv_baseHandle), (''recvFromWhichClient'', C_int),
     (''num'', C_int), (''loseNum'', C_ints 50)]"

definition srv_udpLoseNumRecv :: "(string \<times> ctype) list" where
  "srv_udpLoseNumRecv = [(''head'', C_struct srv_baseHandle), (''whichClientIdToSend'', C_int),
     (''num'', C_int), (''loseNum'', C_ints 50)]"

section \<open>The structs of the client\<close>

definition cli_baseHandle :: "(string \<times> ctype) list" where
  "cli_baseHandle = [(''cmdId'', C_int), (''userId'', C_int), (''length'', C_int), (''version'', C_int)]"

definition cli_loginMessageRecv :: "(string \<times> ctype) list" where
  "cli_loginMessageRecv = [(''loginHead'', C_struct cli_baseHandle), (''result'', C_chars 2)]"

definition cli_loginMessageSend :: "(string \<times> ctype) list" where
  "cli_loginMessageSend = [(''loginHead'', C_struct cli_baseHandle),
     (''name'', C_chars 50), (''passwd'', C_chars 20)]"

definition cli_messageSend :: "(string \<times> ctype) list" where
  "cli_messageSend = [(''head'', C_struct cli_baseHandle), (''sayToClientId'', C_int),
     (''msg'', C_chars 1024)]"

definition cli_messageRecv :: "(string \<times> ctype) list" where
  "cli_messageRecv = [(''head'', C_struct cli_baseHandle), (''recvFromWhichId'', C_int),
     (''msg'', C_chars 1024)]"

definition cli_fileRecv :: "(string \<times> ctype) list" where
  "cli_fileRecv = [(''head'', C_struct cli_baseHandle), (''recvFromWhichId'', C_int),
     (''filesize'', C_int), (''filename'', C_chars 100), (''fileContext'', C_chars 1424)]"

definition cli_fileSend :: "(string \<times> ctype) list" where
  "cli_fileSend = [(''head'', C_struct cli_baseHandle), (''sendToClientId'', C_int),
     (''filesize'', C_int), (''filename'', C_chars 100), (''fileContext'', C_chars 1424)]"

definition cli_udpfileRecv :: "(string \<times> ctype) list" where
  "cli_udpfileRecv = [(''head'', C_struct cli_baseHandle), (''count'', C_int),
     (''time'', C_time_t), (''recvFromWhichId'', C_int), (''filesize'', C_int), (''filename'', C_chars 10), (''fileContext'', C_chars 1399)]"

definition cli_udpfileSend :: "(string \<times> ctype) list" where
  "cli_udpfileSend = [(''head'', C_struct cli_baseHandle), (''count'', C_int),
     (''time'', C_time_t), (''sendToClientId'', C_int), (''filesize'', C_int), (''filename'', C_chars 10), (''fileContext'', C_chars 1390)]"

definition cli_udpLoseNumSend :: "(string \<times> ctype) list" where
  "cli_udpLoseNumSend = [(''head'', C_struct cli_baseHandle), (''sayToClientId'', C_int),
     (''num'', C_int), (''loseNum'', C_ints 10)]"

definition cli_udpLoseNumRecv :: "(string \<times> ctype) list" where
  "cli_udpLoseNumRecv = [(''head'', C_struct cli_baseHandle), (''recvFromWhichId'', C_int),
     (''num'', C_int), (''loseNum'', C_ints 10)]"

section \<open>The structs of the load generator\<close>

definition str_baseHandle :: "(string \<times> ctype) list" where
  "str_baseHandle = [(''cmdId'', C_int), (''userId'', C_int), (''length'', C_int), (''version'', C_int)]"

definition str_loginMessageRecv :: "(string \<times> ctype) list" where
  "str_loginMessageRecv = [(''loginHead'', C_struct str_baseHandle), (''result'', C_chars 2)]"

definition str_loginMessageSend :: "(string \<times> ctype) list" where
  "str_loginMessageSend = [(''loginHead'', C_struct str_baseHandle),
     (''name'', C_chars 50), (''passwd'', C_chars 20)]"

definition str_messageSend :: "(string \<times> ctype) list" where
  "str_messageSend = [(''head'', C_struct str_baseHandle), (''sayToClientId'', C_int),
     (''msg'', C_chars 1024)]"

definition str_messageRecv :: "(string \<times> ctype) list" where
  "str_messageRecv = [(''head'', C_struct str_baseHandle), (''recvFromWhichId'', C_int),
     (''msg'', C_chars 1024)]"

lemmas wire_structs =
  srv_baseHandle_def srv_messageSend_def srv_messageRecv_def
  srv_loginMessageSend_def srv_loginMessageRecv_def srv_fileRecv_def
  srv_fileSend_def srv_udpfileRecv_def srv_udpfileSend_def
  srv_udpLoseNumSend_def srv_udpLoseNumRecv_def cli_baseHandle_def
  cli_loginMessageRecv_def cli_loginMessageSend_def cli_messageSend_def
  cli_messageRecv_def cli_fileRecv_def cli_fileSend_def
  cli_udpfileRecv_def cli_udpfileSend_def cli_udpLoseNumSend_def
  cli_udpLoseNumRecv_def str_baseHandle_def str_loginMessageRecv_def
  str_loginMessageSend_def str_messageSend_def str_messageRecv_def



section \<open>The offsets of the model\<close>

text \<open>
  The operations of the model read fields by their offsets. These are the offsets of the structs that the
  code names there.
\<close>

lemma wire_offsets:
  "map (c_offset srv_baseHandle) [''cmdId'', ''userId'', ''length'', ''version''] = [Some 0, Some 4, Some 8, Some 12]"
  "map (c_offset srv_messageRecv) [''head'', ''whichClientIdToSend'', ''msg''] = [Some 0, Some 16, Some 20]"
  "map (c_offset srv_loginMessageRecv) [''name'', ''passwd''] = [Some 16, Some 66]"
  "c_offset srv_loginMessageSend ''result'' = Some 16"
  "map (c_offset srv_udpfileRecv) [''count'', ''time'', ''sendToClientId'', ''filesize'', ''filename'', ''fileContext'']
     = [Some 16, Some 20, Some 28, Some 32, Some 36, Some 46]"
  "map (c_offset srv_udpLoseNumRecv) [''whichClientIdToSend'', ''num'', ''loseNum''] = [Some 16, Some 20, Some 24]"
  by (simp_all add: wire_structs)

lemma wire_sizes:
  "c_sizeofs srv_baseHandle = nat header_size" "c_sizeofs srv_loginMessageSend = nat loginMessageSend_size"
  "c_sizeofs srv_messageRecv = 1044" "c_sizeofs srv_loginMessageRecv = 86" "c_sizeofs srv_fileRecv = 1548"
  "c_sizeofs srv_udpfileSend = 1436" "c_sizeofs cli_udpfileRecv = 1445"
  "c_sizeofs srv_udpLoseNumSend = 224" "c_sizeofs cli_udpLoseNumRecv = 64"
  by (simp_all add: wire_structs header_size_def loginMessageSend_size_def)

text \<open>
  A whole struct for a file sent over TCP does not fit the block it is received into; what is sent is
  the part in front of the contents and at most 1300 bytes of them.
\<close>

lemma file_struct_in_block:
  "block_size < c_sizeofs cli_fileSend"
  "map_option (\<lambda>n. n + 1300 \<le> block_size) (c_offset cli_fileSend ''fileContext'') = Some True"
  by (simp_all add: wire_structs block_size_def)

text \<open>A field of type \<open>int\<close> of a struct is what \<open>rd32\<close> reads at its offset.\<close>

fun field_of :: "(string \<times> ctype) list \<Rightarrow> cval list \<Rightarrow> string \<Rightarrow> cval option" where
  "field_of ((g, _) # fs) (v # vs) f = (if g = f then Some v else field_of fs vs f)"
| "field_of _ _ f = None"

lemma rd32_field:
  assumes "field_of fs (c_reads fs b) f = Some (V_int w)" "c_sizeofs fs \<le> length b" "(f, C_int) \<in> set fs" "distinct (map fst fs)"
  shows "\<exists>n. c_offset fs f = Some n \<and> rd32 n b = Inr w"
  using assms
proof (induction fs arbitrary: b)
  case Nil
  then show ?case by simp
next
  case (Cons gt fs)
  obtain g t where gt: "gt = (g, t)" by force
  show ?case
  proof (cases "g = f")
    case True
    then have "t = C_int" using Cons.prems(3,4) gt by (force simp: image_iff)
    then show ?thesis using Cons.prems(1,2) gt True by simp
  next
    case False
    have "c_sizeofs fs \<le> length (drop (c_sizeof t) b)" using Cons.prems(2) gt by simp
    then obtain n where n: "c_offset fs f = Some n" "rd32 n (drop (c_sizeof t) b) = Inr w"
      using Cons.IH [of "drop (c_sizeof t) b"] Cons.prems gt False by auto
    then have "rd32 (c_sizeof t + n) b = Inr w"
      by (auto simp: rd32_def cells_def add.commute split: if_splits)
    then show ?thesis using n gt False by simp
  qed
qed

section \<open>Properties\<close>







text \<open>
  Where the arrays differ. A datagram of a file reads back with the same fields but for 9 bytes of
  contents that were not sent; a report of the client carries 10 numbers and the server reads 50.
\<close>

lemma last_field_differs:
  assumes v: "have_ctypes (fs @ [(f, t)]) vs" and same: "same_layouts fs gs"
  shows "\<exists>us v. vs = us @ [v] \<and> has_ctype t v \<and>
     c_reads (gs @ [(g, u)]) (concat (map c_bytes vs) @ rest) = us @ [c_read u (c_bytes v @ rest)]"
proof -
  obtain us v where vs: "vs = us @ [v]" "have_ctypes fs us" "has_ctype t v"
    using have_ctypes_snoc v by blast
  have "c_reads (gs @ [(g, u)]) (concat (map c_bytes vs) @ rest) =
      c_reads gs (concat (map c_bytes us) @ c_bytes v @ rest) @
      c_reads [(g, u)] (drop (c_sizeofs gs) (concat (map c_bytes us) @ c_bytes v @ rest))"
    by (simp add: vs c_reads_append)
  also have "\<dots> = us @ [c_read u (c_bytes v @ rest)]"
    using same_layout_read(2) [OF same] c_read_bytes(2) [OF vs(2)] c_bytes_length(2) [OF vs(2)] by simp
  finally show ?thesis using vs by blast
qed

lemma datagram_read_by_client:
  assumes "have_ctypes srv_udpfileSend vs"
  shows "\<exists>us ctx. vs = us @ [V_chars ctx] \<and> length ctx = 1390 \<and>
     c_reads cli_udpfileRecv (concat (map c_bytes vs) @ rest) = us @ [V_chars (ctx @ take 9 rest)]"
proof -
  have "have_ctypes (butlast srv_udpfileSend @ [(''fileContext'', C_chars 1390)]) vs"
    "same_layouts (butlast srv_udpfileSend) (butlast cli_udpfileRecv)"
    "cli_udpfileRecv = butlast cli_udpfileRecv @ [(''fileContext'', C_chars 1399)]"
    using assms by (simp_all add: wire_structs)
  with last_field_differs obtain us v where
    "vs = us @ [v]" "has_ctype (C_chars 1390) v"
    "c_reads cli_udpfileRecv (concat (map c_bytes vs) @ rest) = us @ [c_read (C_chars 1399) (c_bytes v @ rest)]"
    by metis
  then show ?thesis by (cases v) auto
qed

lemma ints_at_more:
  "length ws = n \<Longrightarrow> ints_at (n + m) (concat (map i32_bytes ws) @ r) = ws @ ints_at m r"
  by (induction ws arbitrary: n) auto

lemma report_read_by_server:
  assumes "have_ctypes cli_udpLoseNumSend vs"
  shows "\<exists>us ws. vs = us @ [V_ints ws] \<and> length ws = 10 \<and>
     c_reads srv_udpLoseNumRecv (concat (map c_bytes vs) @ rest) = us @ [V_ints (ws @ ints_at 40 rest)]"
proof -
  have "have_ctypes (butlast cli_udpLoseNumSend @ [(''loseNum'', C_ints 10)]) vs"
    "same_layouts (butlast cli_udpLoseNumSend) (butlast srv_udpLoseNumRecv)"
    "srv_udpLoseNumRecv = butlast srv_udpLoseNumRecv @ [(''loseNum'', C_ints 50)]"
    using assms by (simp_all add: wire_structs)
  with last_field_differs obtain us v where
    "vs = us @ [v]" "has_ctype (C_ints 10) v"
    "c_reads srv_udpLoseNumRecv (concat (map c_bytes vs) @ rest) = us @ [c_read (C_ints 50) (c_bytes v @ rest)]"
    by metis
  then show ?thesis using ints_at_more [of _ 10 40] by (cases v) auto
qed

end
