(* ===== verification/Wiring.thy ===== *)
theory Wiring
  imports StressModel ClientState
begin

text \<open>
  The module objects that the three \<open>main\<close> functions of chat/ put on their stacks: constructors,
  the functions that hand out and take over shared lists, destructors. A list is an address in a heap of
  live objects, so that the theorems can say which modules share a list and who deletes it.
\<close>

section \<open>Objects made by new\<close>

record heap =
  h_next :: nat
  h_live :: "nat list"

definition heap_empty :: heap where
  "heap_empty = \<lparr>h_next = 0, h_live = []\<rparr>"

definition new_object :: "heap \<Rightarrow> nat \<times> heap" where
  "new_object h = (h_next h, h\<lparr>h_next := h_next h + 1, h_live := h_live h @ [h_next h]\<rparr>)"

text \<open>\<open>delete\<close> of an object that is gone is an error, of a pointer that was never set as well.\<close>

definition delete_object :: "nat option \<Rightarrow> heap \<Rightarrow> heap res" where
  "delete_object p h = (case p of
       None \<Rightarrow> Inl UninitRead
     | Some a \<Rightarrow> if a \<in> set (h_live h) then Inr (h\<lparr>h_live := remove1 a (h_live h)\<rparr>) else Inl UseAfterFree)"

section \<open>The chat server\<close>

record accept_obj =
  ao_vcdListtoIO :: nat
  ao_vcdLoginList :: nat
  ao_userId :: int

definition CAccept_new :: "heap \<Rightarrow> accept_obj \<times> heap" where
  "CAccept_new h =
     (let (a, h) = new_object h; (b, h) = new_object h
      in (\<lparr>ao_vcdListtoIO = a, ao_vcdLoginList = b, ao_userId = 1\<rparr>, h))"

definition CAccept_end :: "accept_obj \<Rightarrow> heap \<Rightarrow> heap res" where
  "CAccept_end o' h = rbind (delete_object (Some (ao_vcdListtoIO o')) h) (\<lambda>h.
     delete_object (Some (ao_vcdLoginList o')) h)"

definition IOGetVcdList :: "accept_obj \<Rightarrow> nat" where
  "IOGetVcdList o' = ao_vcdListtoIO o'"

definition getVcdLoginList :: "accept_obj \<Rightarrow> nat" where
  "getVcdLoginList o' = ao_vcdLoginList o'"

record io_obj =
  io_packList :: nat
  io_vcdList :: "nat option"
  io_udpsock :: "int option"
  io_total :: int

definition CIo_new :: "heap \<Rightarrow> io_obj \<times> heap" where
  "CIo_new h = (let (a, h) = new_object h
     in (\<lparr>io_packList = a, io_vcdList = None, io_udpsock = None, io_total = 0\<rparr>, h))"

definition CIo_end :: "io_obj \<Rightarrow> heap \<Rightarrow> heap res" where
  "CIo_end o' h = delete_object (Some (io_packList o')) h"

definition getPackList :: "io_obj \<Rightarrow> nat" where
  "getPackList o' = io_packList o'"

definition setUdpFd :: "int \<Rightarrow> io_obj \<Rightarrow> io_obj" where
  "setUdpFd fd o' = o'\<lparr>io_udpsock := Some fd\<rparr>"

definition setVcdListFromCmdMode :: "nat \<Rightarrow> io_obj \<Rightarrow> io_obj" where
  "setVcdListFromCmdMode l o' = o'\<lparr>io_vcdList := Some l\<rparr>"

record cmd_obj =
  co_userListToIO :: nat
  co_packList :: "nat option"
  co_unLoginList :: "nat option"
  co_udpsock :: int
  co_num :: int

text \<open>\<open>udp\<close> is the descriptor that \<open>socket\<close> returned in the constructor.\<close>

definition CCmd_new :: "int \<Rightarrow> heap \<Rightarrow> cmd_obj \<times> heap" where
  "CCmd_new udp h = (let (a, h) = new_object h
     in (\<lparr>co_userListToIO = a, co_packList = None, co_unLoginList = None, co_udpsock = udp, co_num = 0\<rparr>, h))"

definition CCmd_end :: "cmd_obj \<Rightarrow> heap \<Rightarrow> heap res" where
  "CCmd_end o' h = delete_object (Some (co_userListToIO o')) h"

definition get_vcdListToIO :: "cmd_obj \<Rightarrow> nat" where
  "get_vcdListToIO o' = co_userListToIO o'"

definition setPackListFromIO :: "nat \<Rightarrow> cmd_obj \<Rightarrow> cmd_obj" where
  "setPackListFromIO l o' = o'\<lparr>co_packList := Some l\<rparr>"

definition setUnloginUserListFromIO :: "nat \<Rightarrow> cmd_obj \<Rightarrow> cmd_obj" where
  "setUnloginUserListFromIO l o' = o'\<lparr>co_unLoginList := Some l\<rparr>"

definition getUdpSockfd :: "cmd_obj \<Rightarrow> int" where
  "getUdpSockfd o' = co_udpsock o'"

text \<open>\<open>main\<close> up to the start of the modules, and its end, where the objects go in the opposite order.\<close>

definition server_wire :: "int \<Rightarrow> (accept_obj \<times> io_obj \<times> cmd_obj) \<times> heap" where
  "server_wire udp =
     (let (accept, h) = CAccept_new heap_empty;
          (io, h) = CIo_new h;
          (cmd, h) = CCmd_new udp h;
          io = setVcdListFromCmdMode (get_vcdListToIO cmd) io;
          io = setUdpFd (getUdpSockfd cmd) io;
          cmd = setUnloginUserListFromIO (getVcdLoginList accept) cmd;
          cmd = setPackListFromIO (getPackList io) cmd
      in ((accept, io, cmd), h))"

definition server_unwire :: "accept_obj \<times> io_obj \<times> cmd_obj \<Rightarrow> heap \<Rightarrow> heap res" where
  "server_unwire ms h = (case ms of (accept, io, cmd) \<Rightarrow>
     rbind (CCmd_end cmd h) (\<lambda>h. rbind (CIo_end io h) (\<lambda>h. CAccept_end accept h)))"

section \<open>The client\<close>

record iomodel_obj =
  mo_readList :: nat
  mo_userdata :: "nat option"
  mo_sendNum :: int
  mo_recvNum :: int
  mo_udpSendNum :: int

definition IOModel_new :: "heap \<Rightarrow> iomodel_obj \<times> heap" where
  "IOModel_new h = (let (a, h) = new_object h
     in (\<lparr>mo_readList = a, mo_userdata = None, mo_sendNum = 0, mo_recvNum = 0, mo_udpSendNum = 1\<rparr>, h))"

definition IOModel_end :: "iomodel_obj \<Rightarrow> heap \<Rightarrow> heap res" where
  "IOModel_end o' h = delete_object (Some (mo_readList o')) h"

definition get_readList :: "iomodel_obj \<Rightarrow> nat" where
  "get_readList o' = mo_readList o'"

definition io_set_userdata :: "nat \<Rightarrow> iomodel_obj \<Rightarrow> iomodel_obj" where
  "io_set_userdata u o' = o'\<lparr>mo_userdata := Some u\<rparr>"

record cmdmodel_obj =
  md_udpList :: nat
  md_readList :: "nat option"
  md_userdata :: "nat option"
  md_stdinfd :: int
  md_nwrite :: int
  md_nowPackNum :: int
  md_MsgSend :: "nat option"

definition CmdModel_new :: "heap \<Rightarrow> cmdmodel_obj \<times> heap" where
  "CmdModel_new h = (let (a, h) = new_object h
     in (\<lparr>md_udpList = a, md_readList = None, md_userdata = None, md_stdinfd = 0, md_nwrite = 0,
          md_nowPackNum = 0, md_MsgSend = None\<rparr>, h))"

definition CmdModel_end :: "cmdmodel_obj \<Rightarrow> heap \<Rightarrow> heap res" where
  "CmdModel_end o' h = delete_object (Some (md_udpList o')) h"

definition cmd_set_userdata :: "nat \<Rightarrow> cmdmodel_obj \<Rightarrow> cmdmodel_obj" where
  "cmd_set_userdata u o' = o'\<lparr>md_userdata := Some u\<rparr>"

definition setReadListFromIOModel :: "nat \<Rightarrow> cmdmodel_obj \<Rightarrow> cmdmodel_obj" where
  "setReadListFromIOModel l o' = o'\<lparr>md_readList := Some l\<rparr>"

text \<open>
  \<open>ClientStart\<close> owns the user data through its pointer \<open>userdata\<close>; its destructor is empty, so they are
  never deleted.
\<close>

definition ClientStart_new :: "heap \<Rightarrow> nat \<times> heap" where
  "ClientStart_new h = new_object h"

definition ClientStart_end :: "nat \<Rightarrow> heap \<Rightarrow> heap res" where
  "ClientStart_end u h = Inr h"

definition get_userdata :: "nat \<Rightarrow> nat" where
  "get_userdata u = u"

definition client_wire :: "(nat \<times> iomodel_obj \<times> cmdmodel_obj) \<times> heap" where
  "client_wire =
     (let (cstart, h) = ClientStart_new heap_empty;
          (io, h) = IOModel_new h;
          (cmd, h) = CmdModel_new h;
          io = io_set_userdata (get_userdata cstart) io;
          cmd = setReadListFromIOModel (get_readList io) cmd;
          cmd = cmd_set_userdata (get_userdata cstart) cmd
      in ((cstart, io, cmd), h))"

definition client_unwire :: "nat \<times> iomodel_obj \<times> cmdmodel_obj \<Rightarrow> heap \<Rightarrow> heap res" where
  "client_unwire ms h = (case ms of (cstart, io, cmd) \<Rightarrow>
     rbind (CmdModel_end cmd h) (\<lambda>h. rbind (IOModel_end io h) (\<lambda>h. ClientStart_end cstart h)))"

section \<open>The load generator\<close>

record login_obj =
  lg_loginedNum :: int
  lg_loginuserList :: "nat option"

definition LoginModel_new :: login_obj where
  "LoginModel_new = \<lparr>lg_loginedNum = 0, lg_loginuserList = None\<rparr>"

definition login_setuserListFromCmd :: "nat \<Rightarrow> login_obj \<Rightarrow> login_obj" where
  "login_setuserListFromCmd l o' = o'\<lparr>lg_loginuserList := Some l\<rparr>"

record tcmd_obj =
  tc_loginuserList :: nat
  tc_userList :: nat
  tc_packList :: "nat option"

definition Cmdmodel_new :: "heap \<Rightarrow> tcmd_obj \<times> heap" where
  "Cmdmodel_new h = (let (a, h) = new_object h; (b, h) = new_object h
     in (\<lparr>tc_loginuserList = a, tc_userList = b, tc_packList = None\<rparr>, h))"

definition Cmdmodel_end :: "tcmd_obj \<Rightarrow> heap \<Rightarrow> heap res" where
  "Cmdmodel_end o' h = rbind (delete_object (Some (tc_loginuserList o')) h) (\<lambda>h.
     delete_object (Some (tc_userList o')) h)"

definition getloginuserList :: "tcmd_obj \<Rightarrow> nat" where
  "getloginuserList o' = tc_loginuserList o'"

definition getuserList :: "tcmd_obj \<Rightarrow> nat" where
  "getuserList o' = tc_userList o'"

definition setuserListFromIo :: "nat \<Rightarrow> tcmd_obj \<Rightarrow> tcmd_obj" where
  "setuserListFromIo l o' = o'\<lparr>tc_packList := Some l\<rparr>"

record tio_obj =
  ti_packList :: nat
  ti_userList :: nat

definition Iomodel_new :: "heap \<Rightarrow> tio_obj \<times> heap" where
  "Iomodel_new h = (let (a, h) = new_object h; (b, h) = new_object h
     in (\<lparr>ti_packList = a, ti_userList = b\<rparr>, h))"

definition Iomodel_end :: "tio_obj \<Rightarrow> heap \<Rightarrow> heap res" where
  "Iomodel_end o' h = rbind (delete_object (Some (ti_packList o')) h) (\<lambda>h.
     delete_object (Some (ti_userList o')) h)"

definition getpackList :: "tio_obj \<Rightarrow> nat" where
  "getpackList o' = ti_packList o'"

definition io_setuserListFromCmd :: "nat \<Rightarrow> tio_obj \<Rightarrow> tio_obj" where
  "io_setuserListFromCmd l o' = o'\<lparr>ti_userList := l\<rparr>"

definition tester_wire :: "(login_obj \<times> tcmd_obj \<times> tio_obj) \<times> heap" where
  "tester_wire =
     (let login = LoginModel_new;
          (cmd, h) = Cmdmodel_new heap_empty;
          (io, h) = Iomodel_new h;
          login = login_setuserListFromCmd (getloginuserList cmd) login;
          io = io_setuserListFromCmd (getuserList cmd) io;
          cmd = setuserListFromIo (getpackList io) cmd
      in ((login, cmd, io), h))"

definition tester_unwire :: "login_obj \<times> tcmd_obj \<times> tio_obj \<Rightarrow> heap \<Rightarrow> heap res" where
  "tester_unwire ms h = (case ms of (login, cmd, io) \<Rightarrow>
     rbind (Iomodel_end io h) (\<lambda>h. Cmdmodel_end cmd h))"

lemmas wiring_defs =
  new_object_def delete_object_def heap_empty_def
  CAccept_new_def CAccept_end_def IOGetVcdList_def getVcdLoginList_def CIo_new_def CIo_end_def getPackList_def
  setUdpFd_def setVcdListFromCmdMode_def CCmd_new_def CCmd_end_def get_vcdListToIO_def setPackListFromIO_def
  setUnloginUserListFromIO_def getUdpSockfd_def server_wire_def server_unwire_def
  IOModel_new_def IOModel_end_def get_readList_def io_set_userdata_def CmdModel_new_def CmdModel_end_def
  cmd_set_userdata_def setReadListFromIOModel_def ClientStart_new_def ClientStart_end_def get_userdata_def
  client_wire_def client_unwire_def
  LoginModel_new_def login_setuserListFromCmd_def Cmdmodel_new_def Cmdmodel_end_def getloginuserList_def
  getuserList_def setuserListFromIo_def Iomodel_new_def Iomodel_end_def getpackList_def io_setuserListFromCmd_def
  tester_wire_def tester_unwire_def

section \<open>Properties\<close>

text \<open>The values with which the model's states start are those of the constructors.\<close>

lemma initial_values:
  "acc_userId (server_init j1 j2 j3 now) = ao_userId (fst (CAccept_new h))"
  "udpSendNum (client_init u j1 j2 now d) = mo_udpSendNum (fst (IOModel_new h))"
  "nowPackNum (client_init u j1 j2 now d) = md_nowPackNum (fst (CmdModel_new h))"
  "loginedNum (tester_init js b b' j1 j2 j3) = lg_loginedNum LoginModel_new"
  by (simp_all add: server_init_def client_init_def tester_init_def wiring_defs)

text \<open>After the wiring of the three programs the modules share exactly the lists that the model takes
  as one: in the server the command thread reads the I/O module's packets and the login thread's new
  connections, and the I/O module the command thread's users, all through pointers that are set, to
  different live objects; likewise in the client and in the load generator. At the end of \<open>main\<close> the
  server deletes every object once and the client leaves only the user data, while the load generator
  deletes its list of users twice, since \<open>Iomodel\<close> deletes the list it was given and has lost its own.\<close>

theorem modules_share_lists:
  "(case server_wire udp of ((accept, io, cmd), h) \<Rightarrow>
      co_packList cmd = Some (io_packList io) \<and> co_unLoginList cmd = Some (ao_vcdLoginList accept) \<and>
      io_vcdList io = Some (co_userListToIO cmd) \<and> io_udpsock io = Some (co_udpsock cmd) \<and>
      distinct [ao_vcdListtoIO accept, ao_vcdLoginList accept, io_packList io, co_userListToIO cmd] \<and>
      server_unwire (accept, io, cmd) h = Inr (h\<lparr>h_live := []\<rparr>)) \<and>
   (case client_wire of ((user, io, cmd), h) \<Rightarrow>
      md_readList cmd = Some (mo_readList io) \<and> mo_userdata io = Some user \<and> md_userdata cmd = Some user \<and>
      distinct [user, mo_readList io, md_udpList cmd] \<and>
      client_unwire (user, io, cmd) h = Inr (h\<lparr>h_live := [user]\<rparr>)) \<and>
   (case tester_wire of ((login, cmd, io), h) \<Rightarrow>
      lg_loginuserList login = Some (tc_loginuserList cmd) \<and> ti_userList io = tc_userList cmd \<and>
      tc_packList cmd = Some (ti_packList io) \<and>
      distinct [tc_loginuserList cmd, tc_userList cmd, ti_packList io] \<and>
      tester_unwire (login, cmd, io) h = Inl UseAfterFree)"
  by (simp add: wiring_defs)

end
