(* ===== verification/StressProps.thy ===== *)
theory StressProps
  imports StressModel TransportProps RouterSpec
begin

text \<open>
  Properties of the load generator: its receiver, its login loop against the server of this
  repository, and the messages it sends.
\<close>

section \<open>Receiving\<close>

text \<open>However the network cuts up a stream of packets, the load generator's receiver hands over
  exactly the packets of the stream, whole and in order, as long as it is not woken with nothing but
  one header in the queue. It refines the server's receiver there.\<close>

theorem stress_receives_stream:
  assumes "\<not> cr_recvHeadFlag r"
    and "all_ready stress_read (\<lambda>r. recv_ready (as_ccmdrecv r)) es r []"
    and "\<forall>p \<in> set ps. valid_packet 16 p" and "prefix (arrivals es) (concat ps)"
  shows "\<exists>outs r' rx. frun stress_read es r [] = Inr (outs, r', rx) \<and>
     map payload outs = take (length outs) ps \<and>
     arrivals es = concat (map payload outs) @ recv_partial (as_ccmdrecv r') @ rx"
proof -
  have "recv_framed (as_ccmdrecv r)" "recv_partial (as_ccmdrecv r) = []"
    using assms(1) by (simp_all add: recv_framed_def recv_partial_def as_ccmdrecv_def split: option.split)
  with stress_framer.run_frames [of r es "[]" ps] assms(2-4) show ?thesis by auto
qed

lemma stress_receives_stream_witness:
  "\<exists>outs r' rx. frun stress_read [Arrive (take 18 sample_packet), Readable (replicate block_size 0)]
       CmdRecv [] = Inr (outs, r', rx) \<and> map payload outs = take (length outs) [sample_packet]"
proof -
  have "all_ready stress_read (\<lambda>r. recv_ready (as_ccmdrecv r)) [Arrive (take 18 sample_packet),
      Readable (replicate block_size 0)] CmdRecv []"
    by (simp add: recv_ready_def sample_packet_bytes split: sum.split)
  moreover have "prefix (arrivals [Arrive (take 18 sample_packet), Readable (replicate block_size 0)])
      (concat [sample_packet])"
    by (simp add: take_is_prefix)
  moreover have "valid_packet 16 sample_packet"
    using valid_sample_packet by (simp add: valid_packet_def sample_packet_bytes)
  ultimately show ?thesis
    using stress_receives_stream [of CmdRecv "[Arrive (take 18 sample_packet),
        Readable (replicate block_size 0)]" "[sample_packet]"]
    by (auto simp: CmdRecv_def)
qed

text \<open>When the header of a packet arrives alone, the receiver counts the failed \<open>recv\<close> that
  follows as minus one byte. The rest of the packet then goes one byte too far to the front, and the
  packet is complete only with the first byte of the next one, which is lost to that packet.\<close>

theorem stress_would_block:
  assumes "17 \<le> length p" "valid_packet 16 p" "length junk = block_size" "\<not> cr_recvHeadFlag r"
  shows "\<exists>b r'. frun stress_read [Arrive (take 16 p), Readable junk, Arrive (drop 16 p @ q), Readable junk'] r [] =
      Inr (if q = [] then [] else [b], r', tl q) \<and>
    (q \<noteq> [] \<longrightarrow> take (length p) b = take 15 p @ drop 16 p @ [hd q])"
proof -
  define b1 where "b1 = blit 0 (take 16 p) junk"
  define d where "d = drop 16 p @ take 1 q"
  define b2 where "b2 = blit 15 d b1"
  let ?L = "int (length p)"
  let ?r1 = "(get_recvbuff b1 r)\<lparr>cr_totalLengthOfData := ?L, cr_lengthHasRecv := 15, cr_recvHeadFlag := True\<rparr>"
  have p: "16 < length p" "length p \<le> 1436" "hdr_length p = ?L" and j: "length junk = 1436"
    using assms by (simp_all add: valid_packet_def block_size_def)
  have l1: "length b1 = 1436" using j p by (simp add: b1_def)
  have t1: "take 16 b1 = take 16 p" using p by (simp add: b1_def blit_def)
  then have h: "sint (bytes_i32 (cells 8 4 b1)) = ?L"
    using p(3) hdr_length_take [of 16 b1] hdr_length_take [of 16 p] by (simp add: hdr_length_def)
  have k1: "k_recv 16 (take 16 p) False = (16, take 16 p, [])"
    using p by (subst k_recv_take) (auto simp: min_absorb1)
  have m1: "c_memcpy 0 (take 16 p) junk 16 = Inr b1"
    using p j by (simp add: c_memcpy_def b1_def)
  have "st_head junk r (take 16 p) False =
      Inr ((get_recvbuff b1 r)\<lparr>cr_totalLengthOfData := ?L, cr_lengthHasRecv := 16, cr_recvHeadFlag := True\<rparr>, [], False)"
    using l1 h p by (simp add: st_head_def header_size_def k1 m1 min_absorb1)
  moreover have "k_recv (?L - 16) [] False = (- 1, [], [])"
    using p by (intro k_recv_would_block) simp
  ultimately have s1: "st_step junk r (take 16 p) False = Inr (?r1, [], [])"
    using p assms(4)
    by (simp add: st_step_def st_body_def header_size_def k_fionread_def get_recvbuff_def Let_def min_absorb1)
  have ne: "drop 16 p @ q \<noteq> []" using p by simp
  have n: "nat (?L - 15) = length p - 15" "length p - 15 = Suc (length p - 16)" using p by linarith+
  have tk: "take (length p - 15) (drop 16 p @ q) = d"
    using p by (simp add: d_def n(2))
  have dr: "drop (length p - 15) (drop 16 p @ q) = tl q"
    using p by (simp add: drop_Suc n(2))
  have k2: "k_recv (?L - 15) (drop 16 p @ q) False = (int (length d), d, tl q)"
    using p ne by (subst k_recv_take) (simp_all only: n(1) tk dr, auto simp: d_def)
  have ld: "length d = (length p - 16) + (if q = [] then 0 else 1)"
    by (cases q) (simp_all add: d_def)
  have m2: "c_memcpy 15 d b1 (int (length d)) = Inr b2"
    using p l1 ld by (simp add: c_memcpy_def b2_def)
  have fin: "15 + int (length d) = ?L \<longleftrightarrow> q \<noteq> []" using ld p by auto
  have "\<exists>r'. st_step junk' ?r1 (drop 16 p @ q) False = Inr (r', tl q, if q = [] then [] else [b2])"
    using fin k2 m2 by (simp add: st_step_def st_body_def get_recvbuff_def Let_def)
  then obtain r' where s2: "st_step junk' ?r1 (drop 16 p @ q) False = Inr (r', tl q, if q = [] then [] else [b2])"
    by blast
  have "take (length p) b2 = take 15 p @ drop 16 p @ [hd q]" if "q \<noteq> []"
  proof -
    have "15 + length d = length p" using ld p that by simp
    then have "take (length p) b2 = take 15 b1 @ d"
      using take_blit_upto [of 15 b1 d] l1 by (simp add: b2_def)
    moreover have "take 15 b1 = take 15 p" using arg_cong [OF t1, of "take 15"] by simp
    ultimately show ?thesis using that by (cases q) (simp_all add: d_def)
  qed
  then show ?thesis using s1 s2 by (auto simp: stress_read_def)
qed

lemma stress_would_block_witness:
  "\<exists>b r'. frun stress_read [Arrive (take 16 sample_packet), Readable (replicate block_size 0),
      Arrive (drop 16 sample_packet @ [7]), Readable []] CmdRecv [] = Inr ([b], r', []) \<and>
    take (length sample_packet) b = take 15 sample_packet @ drop 16 sample_packet @ [7]"
  using stress_would_block [of sample_packet "replicate block_size 0" CmdRecv "[7]" "[]"] valid_sample_packet
  by (simp add: CmdRecv_def sample_packet_bytes valid_packet_def)

section \<open>The login loop\<close>

definition round_ok :: "int \<Rightarrow> tester \<Rightarrow> bool" where
  "round_ok i t \<longleftrightarrow> 0 \<le> i \<and> i < int USERNUM \<and> length (lo_fds t) = USERNUM \<and>
     length (lo_sendmsg t) = 86 \<and> length (lo_recvmsg t) = 18"

lemma login_message_made:
  assumes "length b = 86"
  shows "\<exists>m. st_login_message b = Inr m \<and> length m = 86 \<and> cells 16 3 m = [97, 97, 0]"
proof -
  have s: "str_bytes ''aa'' = [97, 97]" by (simp add: str_bytes_def of_char_def)
  show ?thesis using assms by (simp add: st_login_message_def s)
qed

lemma not_admin: "cells 16 3 b = [97, 97, 0] \<Longrightarrow> \<not> c_streq 16 ''admin'' b"
proof
  assume h: "cells 16 3 b = [97, 97, 0]" "c_streq 16 ''admin'' b"
  then have "take 3 (cells 16 (length ''admin'' + 1) b) = take 3 (str_bytes ''admin'' @ [0])"
    by (simp only: c_streq_def)
  moreover have "take 3 (cells 16 (length ''admin'' + 1) b) = cells 16 3 b"
    by (simp add: cells_def numeral_3_eq_3)
  ultimately show False using h(1) by (simp add: str_bytes_def of_char_def)
qed

text \<open>A round whose login is refused, and one whose login is accepted.\<close>

lemma refused_round:
  assumes "round_ok i t" "0 < at_sent a" "18 \<le> length (at_reply a)" "\<not> c_streq 16 ''Y'' (take 18 (at_reply a))"
  shows "\<exists>t'. login_attempt a (i, t) = Inr (i, t') \<and> round_ok i t' \<and>
    m_loginuserList t' = m_loginuserList t \<and> objs t' = objs t \<and> t_closed t' = t_closed t @ [at_fd a]"
proof -
  from login_message_made [of "lo_sendmsg t"] assms(1) obtain m where
    m: "st_login_message (lo_sendmsg t) = Inr m" "length m = 86" by (auto simp: round_ok_def)
  have ne: "at_reply a \<noteq> []" using assms(3) by auto
  have w: "blit 0 (take 18 (at_reply a)) (lo_recvmsg t) = take 18 (at_reply a)"
    using assms(1,3) by (intro blit_whole) (simp add: round_ok_def)
  have "nat i < length (lo_fds t)" using assms(1) by (simp add: round_ok_def nat_less_iff)
  then show ?thesis
    using assms m ne w
    by (simp add: login_attempt_def st_deleteUser_def round_ok_def Let_def)
qed

lemma accepted_round:
  assumes "round_ok i t" "0 < at_sent a" "18 \<le> length (at_reply a)" "c_streq 16 ''Y'' (take 18 (at_reply a))"
  shows "\<exists>t'. login_attempt a (i, t) = Inr (i + 1, t') \<and> (i + 1 < int USERNUM \<longrightarrow> round_ok (i + 1) t') \<and>
    m_userlist (m_loginuserList t') = m_userlist (m_loginuserList t) @ [length (objs t)] \<and>
    objs t' = objs t @ [st_setUserId (sint (bytes_i32 (cells 4 4 (at_reply a))))
      (st_setSockFd (at_fd a) (st_UserData 0 0 (at_junk a) (at_now a)))] \<and>
    t_closed t' = t_closed t \<and> lo_fds t' = (lo_fds t)[nat i := at_fd a]"
proof -
  from login_message_made [of "lo_sendmsg t"] assms(1) obtain m where
    m: "st_login_message (lo_sendmsg t) = Inr m" "length m = 86" by (auto simp: round_ok_def)
  have ne: "at_reply a \<noteq> []" using assms(3) by auto
  have w: "blit 0 (take 18 (at_reply a)) (lo_recvmsg t) = take 18 (at_reply a)"
    using assms(1,3) by (intro blit_whole) (simp add: round_ok_def)
  have r: "rd32 4 (take 18 (at_reply a)) = Inr (bytes_i32 (cells 4 4 (at_reply a)))"
    using assms(3) by (simp add: cells_take)
  show ?thesis
    using assms m ne w r
    by (simp add: login_attempt_def round_ok_def Let_def user_push_def)
qed

text \<open>\<open>rep\<close> begins with what the server of this repository answers to the login message \<open>m\<close>.\<close>

definition server_answers :: "block \<Rightarrow> block \<Rightarrow> bool" where
  "server_answers m rep \<longleftrightarrow> (\<exists>u u'. \<not> authFlag u \<and> take 86 (recvbuff u) = m \<and> authenticate u = Inr u' \<and>
     take 18 rep = take 18 (m_loginMsgSend u'))"

lemma server_refuses:
  assumes "length b = 86" "st_login_message b = Inr m" "server_answers m rep"
  shows "18 \<le> length rep" "\<not> c_streq 16 ''Y'' (take 18 rep)"
proof -
  from assms(3) obtain u u' where u: "\<not> authFlag u" "take 86 (recvbuff u) = m"
    "authenticate u = Inr u'" "take 18 rep = take 18 (m_loginMsgSend u')"
    by (auto simp: server_answers_def)
  have c: "cells 16 3 m = [97, 97, 0]" using login_message_made [OF assms(1)] assms(2) by auto
  have "cells 16 3 (recvbuff u) = cells 16 3 (take 86 (recvbuff u))" by (simp add: cells_take)
  then have "\<not> c_streq 16 ''admin'' (recvbuff u)" using not_admin c u(2) by simp
  then have "\<not> login_accepted u" by (simp add: login_accepted_def)
  then have "m_loginMsgSend u' = blit 4 (i32_bytes (word_of_int (ul_userId u)))
      (blit 16 (str_bytes ''N'' @ [0]) (m_loginMsgSend u))" and l: "18 \<le> length (m_loginMsgSend u)"
    using u(1,3) by (auto simp: authenticate_def c_strcpy_def wr32_def res_simps split: if_splits)
  then have n: "cells 16 2 (m_loginMsgSend u') = [78, 0]" and l': "18 \<le> length (m_loginMsgSend u')"
    by (simp_all add: str_bytes_def of_char_def)
  then have "length (take 18 rep) = 18" using u(4) by simp
  then show "18 \<le> length rep" by simp
  have "cells 16 2 (take 18 rep) = [78, 0]" using n by (simp add: u(4) cells_take)
  then show "\<not> c_streq 16 ''Y'' (take 18 rep)"
    by (simp add: c_streq_def str_bytes_def of_char_def flip: numeral_2_eq_2)
qed

text \<open>Against the server of this repository the load generator never gets anyone in: its name and
  password are not the ones the server compares with, so every round is refused, closes its
  connection and tries again with the same index. However many rounds are made, the loop has not ended
  and the list of logged-in users is as it was.\<close>

theorem stress_login_never_ends:
  assumes "round_ok i t"
    and "\<forall>a \<in> set as. 0 < at_sent a \<and>
      (\<exists>b m. length b = 86 \<and> st_login_message b = Inr m \<and> server_answers m (at_reply a))"
  shows "\<exists>t'. funcConnect as (i, t) = Inr (False, i, t') \<and> m_loginuserList t' = m_loginuserList t \<and>
    t_closed t' = t_closed t @ map at_fd as"
  using assms
proof (induction "as" arbitrary: t)
  case Nil
  then show ?case by (simp add: round_ok_def)
next
  case (Cons a as)
  from Cons.prems(2) obtain b m where
    s: "0 < at_sent a" "length b = 86" "st_login_message b = Inr m" "server_answers m (at_reply a)"
    by auto
  from refused_round [OF Cons.prems(1) s(1) server_refuses [OF s(2-4)]] obtain t1 where
    t1: "login_attempt a (i, t) = Inr (i, t1)" "round_ok i t1" "m_loginuserList t1 = m_loginuserList t"
      "t_closed t1 = t_closed t @ [at_fd a]"
    by blast
  from Cons.IH [OF t1(2)] Cons.prems(2) obtain t' where
    "funcConnect as (i, t1) = Inr (False, i, t')" "m_loginuserList t' = m_loginuserList t1"
      "t_closed t' = t_closed t1 @ map at_fd as"
    by auto
  then show ?case using t1 Cons.prems(1) by (auto simp: round_ok_def)
qed

lemma replicate_of_numeral: "replicate (numeral k) x = x # replicate (pred_numeral k) x"
  by (simp add: numeral_eq_Suc)

definition sample_attempt :: attempt where
  "sample_attempt = \<lparr>at_fd = 5, at_sent = 86, at_reply = replicate 4 0 @ i32_bytes 1 @ replicate 8 0 @ [78, 0],
     at_junk = [], at_now = 0\<rparr>"

lemma stress_login_never_ends_witness:
  "\<exists>t'. funcConnect [sample_attempt, sample_attempt]
      (0, tester_init (replicate USERNUM 0) (replicate 86 0) (replicate 18 0) 0 0 0) = Inr (False, 0, t') \<and>
    t_closed t' = [5, 5]"
proof -
  from login_message_made [of "replicate 86 0"] obtain m where
    m: "st_login_message (replicate 86 0) = Inr m" "length m = 86" "cells 16 3 m = [97, 97, 0]" by auto
  define u where "u = CUnloginuser 5 1 0 (replicate 18 0) m"
  have "\<not> c_streq 16 ''admin'' m" by (rule not_admin) (rule m(3))
  then obtain u' where u': "authenticate u = Inr u'" "take 18 (m_loginMsgSend u') =
      blit 4 (i32_bytes 1) (blit 16 [78, 0] (replicate 18 0))"
    by (auto simp: authenticate_def login_accepted_def u_def CUnloginuser_def str_bytes_def of_char_def)
  have "take 18 (m_loginMsgSend u') = take 18 (at_reply sample_attempt)"
    unfolding u'(2) by (simp add: sample_attempt_def blit_def i32_bytes_def le_enc_numeral replicate_of_numeral)
  moreover have "\<not> authFlag u" "take 86 (recvbuff u) = m"
    using m(2) by (simp_all add: u_def CUnloginuser_def)
  ultimately have "server_answers m (at_reply sample_attempt)"
    using u'(1) unfolding server_answers_def by (intro exI [of _ u] exI [of _ u']) simp
  then have "\<exists>b m'. length b = 86 \<and> st_login_message b = Inr m' \<and> server_answers m' (at_reply sample_attempt)"
    using m(1) by (intro exI [of _ "replicate 86 0"] exI [of _ m]) simp
  moreover have "0 < at_sent sample_attempt" by (simp add: sample_attempt_def)
  ultimately have "\<forall>a \<in> set [sample_attempt, sample_attempt]. 0 < at_sent a \<and>
      (\<exists>b m. length b = 86 \<and> st_login_message b = Inr m \<and> server_answers m (at_reply a))"
    by simp
  from stress_login_never_ends [OF _ this, of 0 "tester_init (replicate USERNUM 0) (replicate 86 0) (replicate 18 0) 0 0 0"]
  show ?thesis by (auto simp: round_ok_def tester_init_def USERNUM_def sample_attempt_def)
qed

text \<open>When a round's \<open>send\<close> fails, the index is counted down before the descriptor is closed: what
  is closed is the connection of the user that logged in last, who stays in the list of the users;
  the connection that failed is left open. In the very first round the descriptor is read from
  before the array.\<close>

theorem failed_send_closes_previous:
  assumes "round_ok i t" "i + 1 < int USERNUM" "0 < at_sent a" "18 \<le> length (at_reply a)"
    and "c_streq 16 ''Y'' (take 18 (at_reply a))" "at_sent b \<le> 0"
  shows "(\<exists>t'. funcConnect [a, b] (i, t) = Inr (False, i + 1, t') \<and> t_closed t' = t_closed t @ [at_fd a] \<and>
      m_userlist (m_loginuserList t') = m_userlist (m_loginuserList t) @ [length (objs t)] \<and>
      st_getSockFd (objs t' ! length (objs t)) = at_fd a) \<and>
    (i = 0 \<longrightarrow> funcConnect [b] (i, t) = Inl OutOfBounds)"
proof -
  from accepted_round [OF assms(1,3,4,5)] assms(2) obtain t1 where
    t1: "login_attempt a (i, t) = Inr (i + 1, t1)" "round_ok (i + 1) t1"
      "m_userlist (m_loginuserList t1) = m_userlist (m_loginuserList t) @ [length (objs t)]"
      "objs t1 = objs t @ [st_setUserId (sint (bytes_i32 (cells 4 4 (at_reply a))))
        (st_setSockFd (at_fd a) (st_UserData 0 0 (at_junk a) (at_now a)))]"
      "t_closed t1 = t_closed t" "lo_fds t1 = (lo_fds t)[nat i := at_fd a]"
    by auto
  have i: "0 \<le> i" "nat i < length (lo_fds t)" "length (lo_fds t) = USERNUM" "i < int USERNUM"
    using assms(1) by (simp_all add: round_ok_def nat_less_iff)
  have fd: "(lo_fds t1)[nat (i + 1) := at_fd b] ! nat i = at_fd a"
    using i by (simp add: t1(6) nat_add_distrib)
  from login_message_made [of "lo_sendmsg t1"] t1(2) obtain m where
    m: "st_login_message (lo_sendmsg t1) = Inr m" by (auto simp: round_ok_def)
  have "\<exists>t'. login_attempt b (i + 1, t1) = Inr (i + 1, t') \<and> t_closed t' = t_closed t1 @ [at_fd a] \<and>
      m_loginuserList t' = m_loginuserList t1 \<and> objs t' = objs t1"
    using t1(2) m assms(6) i fd by (simp add: login_attempt_def st_deleteUser_def round_ok_def Let_def)
  then obtain t' where t': "login_attempt b (i + 1, t1) = Inr (i + 1, t')"
      "t_closed t' = t_closed t1 @ [at_fd a]" "m_loginuserList t' = m_loginuserList t1" "objs t' = objs t1"
    by blast
  have "funcConnect [a, b] (i, t) = Inr (False, i + 1, t')"
    using i(4) assms(2) t1(1) t'(1) by simp
  moreover have "st_getSockFd (objs t' ! length (objs t)) = at_fd a"
    by (simp add: t'(4) t1(4) st_getSockFd_def st_setUserId_def st_setSockFd_def)
  ultimately have "\<exists>t'. funcConnect [a, b] (i, t) = Inr (False, i + 1, t') \<and>
      t_closed t' = t_closed t @ [at_fd a] \<and>
      m_userlist (m_loginuserList t') = m_userlist (m_loginuserList t) @ [length (objs t)] \<and>
      st_getSockFd (objs t' ! length (objs t)) = at_fd a"
    using t'(2,3) t1(3,5) by simp
  moreover
  from login_message_made [of "lo_sendmsg t"] assms(1) obtain m0 where
    "st_login_message (lo_sendmsg t) = Inr m0" by (auto simp: round_ok_def)
  then have "funcConnect [b] (i, t) = Inl OutOfBounds" if "i = 0"
    using that assms(1,6) by (simp add: login_attempt_def st_deleteUser_def round_ok_def Let_def)
  ultimately show ?thesis by blast
qed

lemma failed_send_closes_previous_witness:
  "\<exists>t'. funcConnect [sample_attempt\<lparr>at_reply := replicate 16 0 @ [89, 0]\<rparr>, sample_attempt\<lparr>at_sent := - 1\<rparr>]
      (0, tester_init (replicate USERNUM 0) (replicate 86 0) (replicate 18 0) 0 0 0) = Inr (False, 1, t') \<and>
    t_closed t' = [5]"
proof -
  let ?t = "tester_init (replicate USERNUM 0) (replicate 86 0) (replicate 18 0) 0 0 0"
  have "round_ok 0 ?t" by (simp add: round_ok_def tester_init_def USERNUM_def)
  moreover have "c_streq 16 ''Y'' (take 18 (replicate 16 0 @ [89, 0]))"
    by (simp add: c_streq_def cells_def str_bytes_def of_char_def)
  ultimately show ?thesis
    using failed_send_closes_previous [of 0 ?t "sample_attempt\<lparr>at_reply := replicate 16 0 @ [89, 0]\<rparr>"
        "sample_attempt\<lparr>at_sent := - 1\<rparr>"]
    by (auto simp: USERNUM_def sample_attempt_def tester_init_def)
qed

section \<open>The messages it sends\<close>

text \<open>The pending bytes of the users of \<open>Cmdmodel\<close>.\<close>

definition st_streams :: "tester \<Rightarrow> streams" where
  "st_streams t k = map_option (\<lambda>a. pending (as_ccmdsend (su_send (objs t ! a)))) (map_find k (m_userMap t))"

text \<open>The object of a user is there, is nobody else's, and has room for another packet.\<close>

definition st_room :: "int \<Rightarrow> tester \<Rightarrow> bool" where
  "st_room k t \<longleftrightarrow> (\<forall>a. map_find k (m_userMap t) = Some a \<longrightarrow> a < length (objs t) \<and>
     (\<forall>k'. k' \<noteq> k \<longrightarrow> map_find k' (m_userMap t) \<noteq> Some a) \<and>
     send_ok (as_ccmdsend (su_send (objs t ! a))) \<and> cs_position (su_send (objs t ! a)) + 26 \<le> int send_cap)"

definition hello_packet :: "cmdId \<Rightarrow> block \<Rightarrow> nat \<Rightarrow> block" where
  "hello_packet c junk i =
     blit 0 (i32_bytes (word_of_int (cmd_num c))) (blit 16 (i32_bytes (word_of_int (int (i + 1))))
       (blit 8 (i32_bytes 26) (blit 4 (i32_bytes (word_of_int (int i))) (blit 12 (i32_bytes 1)
         (blit 20 (str_bytes ''hello'' @ [0]) junk)))))"

lemma hello_packet_made:
  assumes "length junk = 26"
  shows "st_packet ''hello'' (int i) (int (i + 1)) c junk = Inr (hello_packet c junk i)"
    and "length (hello_packet c junk i) = 26"
  using assms by (simp_all add: st_packet_def hello_packet_def)

lemma hello_packet_fields:
  assumes "length junk = 26"
  shows "valid_packet 26 (hello_packet c junk i)"
    and "pk_cmd (hello_packet c junk i) = Some c"
    and "pk_user (hello_packet c junk i) = word_of_int (int i)"
    and "pk_peer (hello_packet c junk i) = word_of_int (int i + 1)"
proof -
  have c: "sint (word_of_int (cmd_num c) :: i32) = cmd_num c"
    by (rule sint_word_of_int) (cases c; simp add: cmd_num_def)+
  have "hdr_length (hello_packet c junk i) = 26"
    using assms by (simp add: hdr_length_def hello_packet_def)
  then show "valid_packet 26 (hello_packet c junk i)"
    using hello_packet_made(2) [OF assms] by (simp add: valid_packet_def block_size_def)
  show "pk_cmd (hello_packet c junk i) = Some c"
    using assms c by (simp add: pk_cmd_def hello_packet_def blit_def [of 0])
  show "pk_user (hello_packet c junk i) = word_of_int (int i)"
    using assms by (simp add: pk_user_def hello_packet_def)
  show "pk_peer (hello_packet c junk i) = word_of_int (int i + 1)"
    using assms by (simp add: pk_peer_def hello_packet_def add.commute)
qed

lemma send_to_user:
  assumes "map_find k (m_userMap t) = Some a" "st_room k t" "length p = 26"
  shows "\<exists>t'. st_send_to k p 26 t = Inr t' \<and> m_userMap t' = m_userMap t \<and>
    st_streams t' = (st_streams t)(k := map_option (\<lambda>b. b @ p) (st_streams t k)) \<and>
    (\<forall>k'. k' \<noteq> k \<longrightarrow> st_room k' t \<longrightarrow> st_room k' t')"
proof -
  let ?s = "su_send (objs t ! a)"
  have r: "a < length (objs t)" "send_ok (as_ccmdsend ?s)" "cs_position ?s + 26 \<le> int send_cap"
      "\<And>k'. k' \<noteq> k \<Longrightarrow> map_find k' (m_userMap t) \<noteq> Some a"
    using assms(1,2) by (auto simp: st_room_def)
  then have "\<exists>s'. append_packet p 26 (as_ccmdsend ?s) = Inr s'"
    unfolding append_packet_Inr_iff using assms(3) by (simp add: send_ok_def as_ccmdsend_def)
  then obtain s where s: "cs_append p 26 ?s = Inr s"
    unfolding cs_append_refines by (cases "cs_append p 26 ?s") auto
  from stress_send.app_pend [OF r(2) s] have pn: "pending (as_ccmdsend s) = pending (as_ccmdsend ?s) @ p"
    using assms(3) by simp
  let ?t = "put_obj a ((objs t ! a)\<lparr>su_send := s\<rparr>) t"
  have "st_send_to k p 26 t = Inr ?t"
    using assms(1) r(1) s by (simp add: st_send_to_def obj_at_def)
  moreover have "st_streams ?t = (st_streams t)(k := map_option (\<lambda>b. b @ p) (st_streams t k))"
  proof
    fix k'
    show "st_streams ?t k' = ((st_streams t)(k := map_option (\<lambda>b. b @ p) (st_streams t k))) k'"
    proof (cases "k' = k")
      case True
      then show ?thesis using assms(1) r(1) pn by (simp add: st_streams_def put_obj_def)
    next
      case False
      with r(4) [OF this] show ?thesis
        by (cases "map_find k' (m_userMap t)") (simp_all add: st_streams_def put_obj_def)
    qed
  qed
  moreover have "st_room k' ?t" if "k' \<noteq> k" "st_room k' t" for k'
    using that r(4) [OF that(1)] by (auto simp: st_room_def put_obj_def)
  moreover have "m_userMap ?t = m_userMap t" by (simp add: put_obj_def)
  ultimately show ?thesis by blast
qed

lemma talk_run:
  assumes "length junk = 26" "\<forall>k \<in> {2..int n}. st_room k t \<and> map_find k (m_userMap t) \<noteq> None"
  shows "\<exists>t'. rfold (st_talk c junk) [1..<n] t = Inr t' \<and> m_userMap t' = m_userMap t \<and>
    st_streams t' = (\<lambda>k. if k \<in> {2..int n}
       then map_option (\<lambda>b. b @ hello_packet c junk (nat k - 1)) (st_streams t k) else st_streams t k) \<and>
    (\<forall>k. int n < k \<longrightarrow> st_room k t \<longrightarrow> st_room k t')"
  using assms(2)
proof (induction n)
  case 0
  then show ?case by auto
next
  case (Suc n)
  show ?case
  proof (cases "n = 0")
    case True
    then show ?thesis by auto
  next
    case False
    from Suc obtain t1 where t1: "rfold (st_talk c junk) [1..<n] t = Inr t1" "m_userMap t1 = m_userMap t"
      "st_streams t1 = (\<lambda>k. if k \<in> {2..int n}
         then map_option (\<lambda>b. b @ hello_packet c junk (nat k - 1)) (st_streams t k) else st_streams t k)"
      "\<forall>k. int n < k \<longrightarrow> st_room k t \<longrightarrow> st_room k t1"
      by auto
    let ?k = "int (n + 1)"
    have k: "?k \<in> {2..int (Suc n)}" using False by auto
    with Suc.prems obtain a where a: "map_find ?k (m_userMap t1) = Some a" "st_room ?k t1"
      using t1(2,4) by fastforce
    from send_to_user [OF a hello_packet_made(2) [OF assms(1)], of c n] obtain t2 where
      t2: "st_send_to ?k (hello_packet c junk n) 26 t1 = Inr t2" "m_userMap t2 = m_userMap t1"
        "st_streams t2 = (st_streams t1)(?k := map_option (\<lambda>b. b @ hello_packet c junk n) (st_streams t1 ?k))"
        "\<forall>k'. k' \<noteq> ?k \<longrightarrow> st_room k' t1 \<longrightarrow> st_room k' t2"
      by blast
    have "rfold (st_talk c junk) [1..<Suc n] t = Inr t2"
      using t1(1) t2(1) False hello_packet_made(1) [OF assms(1), of n c]
      by (simp add: rfold_append st_talk_def)
    moreover have "st_streams t2 = (\<lambda>k. if k \<in> {2..int (Suc n)}
       then map_option (\<lambda>b. b @ hello_packet c junk (nat k - 1)) (st_streams t k) else st_streams t k)"
      using False unfolding t2(3) t1(3) by (auto simp: fun_eq_iff nat_add_distrib)
    moreover have "\<forall>k. int (Suc n) < k \<longrightarrow> st_room k t \<longrightarrow> st_room k t2" using t1(4) t2(4) by auto
    ultimately show ?thesis using t1(2) t2(2) by auto
  qed
qed

lemma talk_missing:
  assumes "length junk = 26" "\<forall>k \<in> {2..int n}. st_room k t" "k \<in> {2..int n}" "map_find k (m_userMap t) = None"
  shows "rfold (st_talk c junk) [1..<n] t = Inl NullDeref"
proof -
  define m where "m = (LEAST m. 2 \<le> m \<and> map_find (int m) (m_userMap t) = None)"
  have ex: "2 \<le> nat k \<and> map_find (int (nat k)) (m_userMap t) = None" using assms(3,4) by (simp add: le_nat_iff)
  from LeastI [of "\<lambda>m. 2 \<le> m \<and> map_find (int m) (m_userMap t) = None", OF ex]
  have m: "2 \<le> m" "map_find (int m) (m_userMap t) = None" by (simp_all add: m_def)
  have "m \<le> nat k" unfolding m_def by (rule Least_le) (rule ex)
  with assms(3) have mn: "m \<le> n" by (auto simp: nat_le_iff)
  have "st_room k' t \<and> map_find k' (m_userMap t) \<noteq> None" if "k' \<in> {2..int (m - 1)}" for k'
  proof -
    have "map_find (int (nat k')) (m_userMap t) \<noteq> None"
      using not_less_Least [of "nat k'" "\<lambda>m. 2 \<le> m \<and> map_find (int m) (m_userMap t) = None"] that m(1)
      by (auto simp: m_def)
    then show ?thesis using that assms(2) mn by auto
  qed
  with talk_run [OF assms(1), of "m - 1" t c] obtain t1 where
    t1: "rfold (st_talk c junk) [1..<m - 1] t = Inr t1" "m_userMap t1 = m_userMap t" by blast
  have u: "[1..<n] = [1..<m - 1] @ (m - 1) # [m..<n]"
  proof -
    have "[1..<n] = [1..<m - 1] @ [m - 1..<n]"
      using upt_add_eq_append [of 1 "m - 1" "n - (m - 1)"] m(1) mn by simp
    also have "[m - 1..<n] = (m - 1) # [m..<n]" using m(1) mn by (simp add: upt_conv_Cons)
    finally show ?thesis .
  qed
  have "st_talk c junk (m - 1) t1 = Inl NullDeref"
    using hello_packet_made(1) [OF assms(1), of "m - 1" c] m t1(2)
    by (simp add: st_talk_def st_send_to_def obj_at_def of_nat_diff)
  then show ?thesis unfolding u rfold_append t1(1) by simp
qed

text \<open>Each choice of the menu sends one message per user in the range: the connection of user
  \<open>k\<close>, from 2 on, gets a packet that claims to come from \<open>k - 1\<close> and is addressed to \<open>k\<close> itself. If a
  user of the range has not logged in, the loop goes through a null pointer.\<close>

theorem stress_talk:
  assumes "length junk = 26" "(ch, n, c) \<in> {(CHR ''1'', 333, SENDtoONE), (CHR ''2'', 1000, SENDtoONE),
      (CHR ''3'', 3000, SENDtoONE), (CHR ''4'', 100, SENDtoOTHERS)}"
    and "\<forall>k \<in> {2..n}. st_room k t"
  shows "if \<forall>k \<in> {2..n}. map_find k (m_userMap t) \<noteq> None
    then \<exists>t' msg. funcCmd_choice junk ch t = Inr t' \<and>
      st_streams t' = (\<lambda>k. if k \<in> {2..n} then map_option (\<lambda>b. b @ msg k) (st_streams t k) else st_streams t k) \<and>
      (\<forall>k \<in> {2..n}. valid_packet 26 (msg k) \<and> pk_cmd (msg k) = Some c \<and>
         pk_user (msg k) = word_of_int (k - 1) \<and> pk_peer (msg k) = word_of_int k)
    else funcCmd_choice junk ch t = Inl NullDeref"
proof -
  have n: "n = int (nat n)" using assms(2) by auto
  have run: "funcCmd_choice junk ch t = rfold (st_talk c junk) [1..<nat n] t"
    using assms(2) by (auto simp: funcCmd_choice_def cmd333_def cmd1000_def cmd3000_def cmd100qun_def)
  show ?thesis
  proof (cases "\<forall>k \<in> {2..n}. map_find k (m_userMap t) \<noteq> None")
    case True
    with talk_run [OF assms(1), of "nat n" t c] assms(3) n obtain t' where
      "rfold (st_talk c junk) [1..<nat n] t = Inr t'"
      "st_streams t' = (\<lambda>k. if k \<in> {2..n}
         then map_option (\<lambda>b. b @ hello_packet c junk (nat k - 1)) (st_streams t k) else st_streams t k)"
      by auto
    moreover have "valid_packet 26 (hello_packet c junk (nat k - 1)) \<and>
        pk_cmd (hello_packet c junk (nat k - 1)) = Some c \<and>
        pk_user (hello_packet c junk (nat k - 1)) = word_of_int (k - 1) \<and>
        pk_peer (hello_packet c junk (nat k - 1)) = word_of_int k" if "k \<in> {2..n}" for k
    proof -
      have e: "int (nat k - 1) = k - 1" using that by auto
      show ?thesis using hello_packet_fields [OF assms(1), of c "nat k - 1", unfolded e] by simp
    qed
    ultimately show ?thesis using True run by auto
  next
    case False
    then obtain k where "k \<in> {2..int (nat n)}" "map_find k (m_userMap t) = None" using n by auto
    from talk_missing [OF assms(1) _ this] assms(3) n run show ?thesis using False by auto
  qed
qed

lemma map_find_int_keys:
  "map_find k (map (\<lambda>i. (int i, i)) xs) = (if 0 \<le> k \<and> nat k \<in> set xs then Some (nat k) else None)"
  by (induction xs) auto

definition sample_tester :: tester where
  "sample_tester = (tester_init [] [] [] 0 0 0)\<lparr>objs := replicate 101 (st_UserData 0 0 (replicate send_cap 0) 0),
     m_userMap := map (\<lambda>i. (int i, i)) [0..<101]\<rparr>"

lemma stress_talk_witness:
  "(\<exists>t' msg. funcCmd_choice (replicate 26 0) CHR ''4'' sample_tester = Inr t' \<and> st_streams t' 2 = Some msg \<and>
     pk_peer msg = 2) \<and>
   funcCmd_choice (replicate 26 0) CHR ''4'' (tester_init [] [] [] 0 0 0) = Inl NullDeref"
proof
  have s: "st_streams sample_tester k = Some []" if "k \<in> {2..100}" for k
    using that by (auto simp: st_streams_def sample_tester_def map_find_int_keys pending_def as_ccmdsend_def
        st_UserData_def CmdSend_def nat_less_iff simp del: upt_rec_numeral)
  have "\<forall>k \<in> {2..100}. st_room k sample_tester \<and> map_find k (m_userMap sample_tester) \<noteq> None"
    by (auto simp: st_room_def sample_tester_def map_find_int_keys as_ccmdsend_def send_ok_def
        st_UserData_def CmdSend_def nat_less_iff send_cap_def simp del: upt_rec_numeral split: if_splits)
  then obtain t' msg where t': "funcCmd_choice (replicate 26 0) CHR ''4'' sample_tester = Inr t'"
    "st_streams t' = (\<lambda>k. if k \<in> {2..100} then map_option (\<lambda>b. b @ msg k) (st_streams sample_tester k)
       else st_streams sample_tester k)"
    "\<forall>k \<in> {2..100}. valid_packet 26 (msg k) \<and> pk_cmd (msg k) = Some SENDtoOTHERS \<and>
       pk_user (msg k) = word_of_int (k - 1) \<and> pk_peer (msg k) = word_of_int k"
    using stress_talk [of "replicate 26 0" "CHR ''4''" 100 SENDtoOTHERS sample_tester] by auto
  have "st_streams t' 2 = Some (msg 2)" using t'(2) s [of 2] by simp
  moreover have "pk_peer (msg 2) = 2" using t'(3) by auto
  ultimately show "\<exists>t' msg. funcCmd_choice (replicate 26 0) CHR ''4'' sample_tester = Inr t' \<and>
      st_streams t' 2 = Some msg \<and> pk_peer msg = 2"
    using t'(1) by blast
  have "map_find 2 (m_userMap (tester_init [] [] [] 0 0 0)) = None" by (simp add: tester_init_def)
  then have "\<not> (\<forall>k \<in> {2..100}. map_find k (m_userMap (tester_init [] [] [] 0 0 0)) \<noteq> None)" by auto
  then show "funcCmd_choice (replicate 26 0) CHR ''4'' (tester_init [] [] [] 0 0 0) = Inl NullDeref"
    using stress_talk [of "replicate 26 0" "CHR ''4''" 100 SENDtoOTHERS "tester_init [] [] [] 0 0 0"]
    by (simp add: st_room_def tester_init_def)
qed

section \<open>The two send buffers\<close>

lemma srun_refines:
  "srun append_packet startSend ops (as_ccmdsend s) =
   map_sum id (\<lambda>(out, s'). (out, as_ccmdsend s')) (srun cs_append cs_startSend ops s)"
proof (induction ops arbitrary: s)
  case Nil
  then show ?case by simp
next
  case (Cons op ops)
  show ?case
  proof (cases op)
    case (App p len)
    then show ?thesis using Cons by (cases "cs_append p len s") (simp_all add: cs_append_refines)
  next
    case (Snd n)
    show ?thesis
    proof (cases "cs_startSend n s")
      case (Inr x)
      then obtain r t out where x: "cs_startSend n s = Inr (r, t, out)" by (cases x) auto
      then show ?thesis using Cons [of t] Snd
        by (cases "srun cs_append cs_startSend ops t") (auto simp: cs_startSend_refines)
    qed (simp add: Snd cs_startSend_refines)
  qed
qed

text \<open>C35: The send buffer of the load generator and that of the server are the same machine: for every
  sequence of appended packets and sends, whatever the counts, both put the same bytes on the wire and
  hold the same bytes at the same position, or both leave their buffer in the same way.\<close>

theorem send_buffers_equivalent:
  "(case srun cs_append cs_startSend ops (CmdSend junk) of
      Inl e \<Rightarrow> srun append_packet startSend ops (CCmdSend junk) = Inl e
    | Inr (out, s) \<Rightarrow> \<exists>s'. srun append_packet startSend ops (CCmdSend junk) = Inr (out, s') \<and>
        m_position s' = cs_getPosition s \<and> m_sendBuff s' = cs_sendbuff s)"
proof -
  have "as_ccmdsend (CmdSend junk) = CCmdSend junk"
    by (simp add: as_ccmdsend_def CmdSend_def CCmdSend_def)
  then show ?thesis
    using srun_refines [of ops "CmdSend junk"]
    by (auto simp: as_ccmdsend_def cs_getPosition_def split: sum.split)
qed

end
