(* ===== verification/Ring.thy ===== *)
theory Ring
  imports Prelude
begin

text \<open>
  Ring buffers: \<open>n\<close> elements from index \<open>h\<close> on in an array that wraps around. \<open>DataPool\<close> and the
  thread pool keep their elements so. The interface \<open>bounded_queue\<close> is what both promise: a queue of
  bounded size, first in, first out.
\<close>

section \<open>The elements of a ring\<close>

definition ring_items :: "'a list \<Rightarrow> nat \<Rightarrow> nat \<Rightarrow> 'a list" where
  "ring_items pool h n = map (\<lambda>i. pool ! ((h + i) mod length pool)) [0..<n]"

lemma length_ring_items [simp]: "length (ring_items pool h n) = n"
  by (simp add: ring_items_def)

lemma ring_items_0 [simp]: "ring_items pool h 0 = []"
  by (simp add: ring_items_def)

text \<open>Two places of a ring that are less than a round apart are different.\<close>

lemma ring_index_neq:
  fixes h i n len :: nat
  assumes "i < n" "n < len"
  shows "(h + i) mod len \<noteq> (h + n) mod len"
proof
  assume "(h + i) mod len = (h + n) mod len"
  then have "len dvd n - i"
    using assms by (metis diff_add_inverse diff_diff_left mod_eq_dvd_iff_nat nat_add_left_cancel_less less_or_eq_imp_le)
  then show False using assms by (auto dest: dvd_imp_le)
qed

lemma ring_items_put:
  assumes "n < length pool"
  shows "ring_items (pool[(h + n) mod length pool := x]) h (Suc n) = ring_items pool h n @ [x]"
proof -
  have "(pool[(h + n) mod length pool := x]) ! ((h + i) mod length pool) = pool ! ((h + i) mod length pool)"
    if "i < n" for i
    using ring_index_neq [OF that assms, of h] by simp
  moreover have "(pool[(h + n) mod length pool := x]) ! ((h + n) mod length pool) = x"
    using assms by (intro nth_list_update_eq mod_less_divisor) auto
  ultimately show ?thesis by (simp add: ring_items_def)
qed

lemma ring_items_get:
  assumes "h < length pool"
  shows "ring_items pool h (Suc n) = pool ! h # ring_items pool (Suc h mod length pool) n"
proof -
  have "ring_items pool h (Suc n) = pool ! h # map (\<lambda>i. pool ! ((h + Suc i) mod length pool)) [0..<n]"
    unfolding ring_items_def
    by (subst upt_conv_Cons) (simp_all add: assms map_Suc_upt [symmetric] comp_def del: upt_Suc)
  also have "map (\<lambda>i. pool ! ((h + Suc i) mod length pool)) [0..<n] = ring_items pool (Suc h mod length pool) n"
    by (simp add: ring_items_def mod_add_left_eq)
  finally show ?thesis .
qed

section \<open>The interface\<close>

datatype 'a bop = Put 'a | Get

text \<open>Runs of operations none of which has to wait.\<close>

fun brun :: "('a \<Rightarrow> 's \<Rightarrow> 's option) \<Rightarrow> ('s \<Rightarrow> ('a \<times> 's) option) \<Rightarrow> 'a bop list \<Rightarrow> 's \<Rightarrow> ('a list \<times> 's) option"
where
  "brun put get [] s = Some ([], s)"
| "brun put get (Put x # ops) s = Option.bind (put x s) (brun put get ops)"
| "brun put get (Get # ops) s =
     Option.bind (get s) (\<lambda>(x, s'). map_option (\<lambda>(xs, s''). (x # xs, s'')) (brun put get ops s'))"

fun puts :: "'a bop list \<Rightarrow> 'a list" where
  "puts [] = []"
| "puts (Put x # ops) = x # puts ops"
| "puts (Get # ops) = puts ops"

text \<open>How full the queue is along a run: never above the bound, never taken from when empty.\<close>

fun fits :: "nat \<Rightarrow> nat \<Rightarrow> 'a bop list \<Rightarrow> bool" where
  "fits cap n [] \<longleftrightarrow> True"
| "fits cap n (Put x # ops) \<longleftrightarrow> n < cap \<and> fits cap (Suc n) ops"
| "fits cap n (Get # ops) \<longleftrightarrow> 0 < n \<and> fits cap (n - 1) ops"

text \<open>The reference: a list with at most \<open>cap\<close> elements.\<close>

definition list_put :: "nat \<Rightarrow> 'a \<Rightarrow> 'a list \<Rightarrow> 'a list option" where
  "list_put cap x q = (if length q < cap then Some (q @ [x]) else None)"

fun list_get :: "'a list \<Rightarrow> ('a \<times> 'a list) option" where
  "list_get [] = None"
| "list_get (x # q) = Some (x, q)"

locale bounded_queue =
  fixes put :: "'a \<Rightarrow> 's \<Rightarrow> 's option"
    and get :: "'s \<Rightarrow> ('a \<times> 's) option"
    and items :: "'s \<Rightarrow> 'a list"
    and bound :: "'s \<Rightarrow> nat"
    and ok :: "'s \<Rightarrow> bool"
  assumes put_full: "ok s \<Longrightarrow> length (items s) = bound s \<Longrightarrow> put x s = None"
    and put_room: "ok s \<Longrightarrow> length (items s) < bound s \<Longrightarrow>
        \<exists>s'. put x s = Some s' \<and> ok s' \<and> items s' = items s @ [x] \<and> bound s' = bound s"
    and get_empty: "ok s \<Longrightarrow> items s = [] \<Longrightarrow> get s = None"
    and get_Cons: "ok s \<Longrightarrow> items s = x # xs \<Longrightarrow>
        \<exists>s'. get s = Some (x, s') \<and> ok s' \<and> items s' = xs \<and> bound s' = bound s"
    and size_bound: "ok s \<Longrightarrow> length (items s) \<le> bound s"
begin

text \<open>A run goes through exactly when it fits, and then it is first in, first out.\<close>

lemma run_fifo:
  "ok s \<Longrightarrow> brun put get ops s = Some (out, s') \<Longrightarrow>
   ok s' \<and> bound s' = bound s \<and> items s @ puts ops = out @ items s'"
proof (induction ops arbitrary: s out)
  case Nil
  then show ?case by simp
next
  case (Cons op ops)
  show ?case
  proof (cases op)
    case (Put x)
    with Cons.prems obtain t where t: "put x s = Some t" "brun put get ops t = Some (out, s')"
      by (auto simp: Option.bind_eq_Some_conv)
    then have "length (items s) \<noteq> bound s" using put_full [OF Cons.prems(1)] by auto
    with size_bound [OF Cons.prems(1)] have "length (items s) < bound s" by simp
    from put_room [OF Cons.prems(1) this, of x] t(1) have "ok t" "items t = items s @ [x]" "bound t = bound s"
      by auto
    with Cons.IH [of t out] t(2) Put show ?thesis by simp
  next
    case Get
    with Cons.prems obtain x t xs where
      t: "get s = Some (x, t)" "brun put get ops t = Some (xs, s')" "out = x # xs"
      by (auto simp: Option.bind_eq_Some_conv)
    then obtain y ys where "items s = y # ys" using get_empty [OF Cons.prems(1)] by (cases "items s") auto
    with get_Cons [OF Cons.prems(1) this] t(1) have "ok t" "items s = x # items t" "bound t = bound s"
      by auto
    with Cons.IH [of t xs] t(2,3) Get show ?thesis by simp
  qed
qed

text \<open>Every run has the result that it has on the list, waiting included.\<close>

lemma run_list:
  "ok s \<Longrightarrow> map_option (\<lambda>(out, s'). (out, items s')) (brun put get ops s) =
   brun (list_put (bound s)) list_get ops (items s)"
proof (induction ops arbitrary: s)
  case Nil
  show ?case by simp
next
  case (Cons op ops)
  show ?case
  proof (cases op)
    case (Put x)
    show ?thesis
    proof (cases "length (items s) < bound s")
      case True
      from put_room [OF Cons.prems True, of x] obtain t where
        t: "put x s = Some t" "ok t" "items t = items s @ [x]" "bound t = bound s" by blast
      with Cons.IH [of t] True Put show ?thesis by (simp add: list_put_def)
    next
      case False
      with size_bound [OF Cons.prems] put_full [OF Cons.prems, of x] Put show ?thesis
        by (simp add: list_put_def)
    qed
  next
    case Get
    show ?thesis
    proof (cases "items s")
      case Nil
      with get_empty [OF Cons.prems] Get show ?thesis by simp
    next
      case (Cons y ys)
      from get_Cons [OF Cons.prems Cons] obtain t where
        t: "get s = Some (y, t)" "ok t" "items t = ys" "bound t = bound s" by blast
      show ?thesis
        using Cons.IH [OF t(2), symmetric] t Get Cons
        by (cases "brun put get ops t") (auto simp: option.map_comp comp_def)
    qed
  qed
qed

lemma run_iff_fits: "ok s \<Longrightarrow> brun put get ops s \<noteq> None \<longleftrightarrow> fits (bound s) (length (items s)) ops"
proof (induction ops arbitrary: s)
  case Nil
  show ?case by simp
next
  case (Cons op ops)
  show ?case
  proof (cases op)
    case (Put x)
    show ?thesis
    proof (cases "length (items s) = bound s")
      case True
      then show ?thesis using put_full [OF Cons.prems True, of x] Put by simp
    next
      case False
      with size_bound [OF Cons.prems] have "length (items s) < bound s" by simp
      from put_room [OF Cons.prems this, of x] this Cons.IH Put show ?thesis by fastforce
    qed
  next
    case Get
    show ?thesis
    proof (cases "items s")
      case Nil
      then show ?thesis using get_empty [OF Cons.prems Nil] Get by simp
    next
      case (Cons x xs)
      from get_Cons [OF Cons.prems(1) this] obtain t where
        t: "get s = Some (x, t)" "ok t" "items t = xs" "bound t = bound s" by blast
      have "brun put get (op # ops) s \<noteq> None \<longleftrightarrow> brun put get ops t \<noteq> None"
        using Get t(1) by auto
      then show ?thesis using Cons.IH [OF t(2)] t Get Cons by simp
    qed
  qed
qed

end

end
