(* ===== verification/DataPool.thy ===== *)
theory DataPool
  imports CBytes Ring "HOL-Library.Signed_Division"
begin

text \<open>
  The pool of messages in include/dataPool.h: a ring of strings with a semaphore for the free places
  and one for the messages. A call is more than one step, since the other thread may run between the
  semaphore and the rest of it. The constructor without arguments initialises nothing but the
  (empty) vector.
\<close>

section \<open>State and operations\<close>

record datapool =
  dp_pool :: "block list"
  dp_capacity :: int
  dp_consumeStep :: int
  dp_productStep :: int
  dp_blankSem :: nat
  dp_dataSem :: nat

definition DataPool :: "nat \<Rightarrow> datapool" where
  "DataPool n =
     \<lparr>dp_pool = replicate n [], dp_capacity = int n, dp_consumeStep = 0, dp_productStep = 0,
      dp_blankSem = n, dp_dataSem = 0\<rparr>"

text \<open>\<open>DataPool()\<close>: the arguments are what was in memory.\<close>

definition DataPool_default :: "int \<Rightarrow> int \<Rightarrow> int \<Rightarrow> nat \<Rightarrow> nat \<Rightarrow> datapool" where
  "DataPool_default jcap jcons jprod jblank jdata =
     \<lparr>dp_pool = [], dp_capacity = jcap, dp_consumeStep = jcons, dp_productStep = jprod,
      dp_blankSem = jblank, dp_dataSem = jdata\<rparr>"

text \<open>\<open>sem_wait\<close>: \<open>None\<close> while the thread has to wait.\<close>

definition sem_wait :: "nat \<Rightarrow> nat option" where
  "sem_wait n = (if n = 0 then None else Some (n - 1))"

definition put_wait :: "datapool \<Rightarrow> datapool option" where
  "put_wait p = map_option (\<lambda>n. p\<lparr>dp_blankSem := n\<rparr>) (sem_wait (dp_blankSem p))"

definition put_store :: "block \<Rightarrow> datapool \<Rightarrow> datapool res" where
  "put_store m p =
     (if 0 \<le> dp_productStep p \<and> dp_productStep p < int (length (dp_pool p))
      then Inr (p\<lparr>dp_pool := (dp_pool p)[nat (dp_productStep p) := m],
                  dp_productStep := (dp_productStep p + 1) smod dp_capacity p,
                  dp_dataSem := dp_dataSem p + 1\<rparr>)
      else Inl OutOfBounds)"

definition get_wait :: "datapool \<Rightarrow> datapool option" where
  "get_wait p = map_option (\<lambda>n. p\<lparr>dp_dataSem := n\<rparr>) (sem_wait (dp_dataSem p))"

definition get_take :: "datapool \<Rightarrow> (block \<times> datapool) res" where
  "get_take p =
     (if 0 \<le> dp_consumeStep p \<and> dp_consumeStep p < int (length (dp_pool p))
      then Inr (dp_pool p ! nat (dp_consumeStep p),
                p\<lparr>dp_consumeStep := (dp_consumeStep p + 1) smod dp_capacity p,
                  dp_blankSem := dp_blankSem p + 1\<rparr>)
      else Inl OutOfBounds)"

text \<open>A whole call with nothing in between; \<open>Inr None\<close> if it has to wait.\<close>

definition putMessage :: "block \<Rightarrow> datapool \<Rightarrow> (datapool option) res" where
  "putMessage m p = (case put_wait p of None \<Rightarrow> Inr None
     | Some p \<Rightarrow> rbind (put_store m p) (\<lambda>p. Inr (Some p)))"

definition getMessage :: "datapool \<Rightarrow> ((block \<times> datapool) option) res" where
  "getMessage p = (case get_wait p of None \<Rightarrow> Inr None
     | Some p \<Rightarrow> rbind (get_take p) (\<lambda>r. Inr (Some r)))"

section \<open>The pool as a bounded queue\<close>

text \<open>
  \<open>n\<close> is the number of messages in the ring, of which \<open>g\<close> are being taken and before which \<open>w\<close>
  places are being filled.
\<close>

definition dp_shape :: "nat \<Rightarrow> nat \<Rightarrow> nat \<Rightarrow> datapool \<Rightarrow> bool" where
  "dp_shape w g n p \<longleftrightarrow> 0 < length (dp_pool p) \<and> dp_capacity p = int (length (dp_pool p)) \<and>
     0 \<le> dp_consumeStep p \<and> dp_consumeStep p < dp_capacity p \<and>
     dp_productStep p = int ((nat (dp_consumeStep p) + n) mod length (dp_pool p)) \<and>
     dp_blankSem p + w + n = length (dp_pool p) \<and> dp_dataSem p + g = n"

definition dp_items :: "datapool \<Rightarrow> nat \<Rightarrow> block list" where
  "dp_items p n = ring_items (dp_pool p) (nat (dp_consumeStep p)) n"

lemma smod_succ: "0 \<le> i \<Longrightarrow> 0 < n \<Longrightarrow> (i + 1) smod n = (i + 1) mod (n::int)"
  by (simp add: signed_modulo_int_def)

lemma smod_succ_nat: "0 < len \<Longrightarrow> (int i + 1) smod int len = int (Suc i mod len)"
  using smod_succ [of "int i" "int len"] by (simp add: zmod_int add.commute)

lemma put_wait_shape:
  "dp_shape w g n p \<Longrightarrow> put_wait p = Some p' \<Longrightarrow>
   dp_shape (Suc w) g n p' \<and> dp_items p' n = dp_items p n \<and> length (dp_pool p') = length (dp_pool p)"
  by (auto simp: put_wait_def sem_wait_def dp_shape_def dp_items_def split: if_splits)

lemma get_wait_shape:
  "dp_shape w g n p \<Longrightarrow> get_wait p = Some p' \<Longrightarrow>
   dp_shape w (Suc g) n p' \<and> dp_items p' n = dp_items p n \<and> length (dp_pool p') = length (dp_pool p)"
  by (auto simp: get_wait_def sem_wait_def dp_shape_def dp_items_def split: if_splits)

lemma put_store_shape:
  assumes "dp_shape (Suc w) g n p"
  shows "\<exists>p'. put_store m p = Inr p' \<and> dp_shape w g (Suc n) p' \<and> dp_items p' (Suc n) = dp_items p n @ [m] \<and>
    length (dp_pool p') = length (dp_pool p)"
proof -
  let ?h = "nat (dp_consumeStep p)" and ?l = "length (dp_pool p)"
  let ?t = "(?h + n) mod ?l"
  have s: "0 < ?l" "dp_productStep p = int ?t" "dp_capacity p = int ?l" "n < ?l" "?t < ?l"
    using assms by (auto simp: dp_shape_def)
  have t: "(dp_productStep p + 1) smod dp_capacity p = int ((?h + Suc n) mod ?l)"
    unfolding s(2,3) smod_succ_nat [OF s(1)] by (simp add: mod_Suc_eq)
  show ?thesis
    using assms s(2,5) ring_items_put [OF s(4), of ?h m] t
    by (simp add: put_store_def dp_shape_def dp_items_def)
qed

lemma get_take_shape:
  assumes "dp_shape w (Suc g) (Suc n) p"
  shows "\<exists>x p'. get_take p = Inr (x, p') \<and> dp_shape w g n p' \<and> dp_items p (Suc n) = x # dp_items p' n \<and>
    length (dp_pool p') = length (dp_pool p)"
proof -
  let ?h = "nat (dp_consumeStep p)" and ?l = "length (dp_pool p)"
  have s: "0 < ?l" "dp_consumeStep p = int ?h" "dp_capacity p = int ?l" "?h < ?l"
    using assms by (auto simp: dp_shape_def)
  have t: "(dp_consumeStep p + 1) smod dp_capacity p = int (Suc ?h mod ?l)"
    by (subst s(2), subst s(3)) (rule smod_succ_nat [OF s(1)])
  have m: "(?h + Suc n) mod ?l = (Suc ?h mod ?l + n) mod ?l"
    by (simp add: mod_add_left_eq)
  show ?thesis
    using assms s(1,4) ring_items_get [OF s(4), of n] t m
    by (simp add: get_take_def dp_shape_def dp_items_def)
qed

text \<open>Whole calls: the pool is a bounded queue.\<close>

definition dp_ok :: "datapool \<Rightarrow> bool" where
  "dp_ok p \<longleftrightarrow> dp_shape 0 0 (dp_dataSem p) p"

definition dp_queue :: "datapool \<Rightarrow> block list" where
  "dp_queue p = dp_items p (dp_dataSem p)"

definition dp_put :: "block \<Rightarrow> datapool \<Rightarrow> datapool option" where
  "dp_put m p = (case putMessage m p of Inl _ \<Rightarrow> None | Inr r \<Rightarrow> r)"

definition dp_get :: "datapool \<Rightarrow> (block \<times> datapool) option" where
  "dp_get p = (case getMessage p of Inl _ \<Rightarrow> None | Inr r \<Rightarrow> r)"

lemma dp_shape_data: "dp_shape w g n p \<Longrightarrow> dp_dataSem p = n - g"
  by (auto simp: dp_shape_def)

lemma DataPool_ok: "0 < n \<Longrightarrow> dp_ok (DataPool n) \<and> dp_queue (DataPool n) = []"
  by (simp add: dp_ok_def dp_shape_def DataPool_def dp_queue_def dp_items_def)

lemma putMessage_room:
  assumes "dp_ok p" "dp_dataSem p < length (dp_pool p)"
  shows "\<exists>p'. putMessage m p = Inr (Some p') \<and> dp_ok p' \<and> dp_queue p' = dp_queue p @ [m] \<and>
    length (dp_pool p') = length (dp_pool p)"
proof -
  from assms have b: "0 < dp_blankSem p" by (auto simp: dp_ok_def dp_shape_def)
  then obtain p1 where p1: "put_wait p = Some p1" by (auto simp: put_wait_def sem_wait_def)
  from put_wait_shape [OF assms(1) [unfolded dp_ok_def] p1] have
    s1: "dp_shape (Suc 0) 0 (dp_dataSem p) p1" "dp_items p1 (dp_dataSem p) = dp_queue p"
      "length (dp_pool p1) = length (dp_pool p)"
    by (simp_all add: dp_queue_def)
  from put_store_shape [OF s1(1), of m] obtain p2 where
    "put_store m p1 = Inr p2" "dp_shape 0 0 (Suc (dp_dataSem p)) p2"
      "dp_items p2 (Suc (dp_dataSem p)) = dp_queue p @ [m]" "length (dp_pool p2) = length (dp_pool p)"
    using s1 by auto
  then show ?thesis
    using p1 dp_shape_data [of 0 0 "Suc (dp_dataSem p)" p2]
    by (simp add: putMessage_def dp_ok_def dp_queue_def)
qed

lemma getMessage_Cons:
  assumes "dp_ok p" "dp_queue p = x # xs"
  shows "\<exists>p'. getMessage p = Inr (Some (x, p')) \<and> dp_ok p' \<and> dp_queue p' = xs \<and>
    length (dp_pool p') = length (dp_pool p)"
proof -
  have n: "dp_dataSem p = Suc (length xs)"
    using arg_cong [OF assms(2), of length] by (simp add: dp_queue_def dp_items_def)
  then obtain p1 where p1: "get_wait p = Some p1" by (auto simp: get_wait_def sem_wait_def)
  from get_wait_shape [OF assms(1) [unfolded dp_ok_def] p1] have
    s1: "dp_shape 0 (Suc 0) (Suc (length xs)) p1" "dp_items p1 (Suc (length xs)) = x # xs"
      "length (dp_pool p1) = length (dp_pool p)"
    using assms(2) by (simp_all add: dp_queue_def n)
  from get_take_shape [OF s1(1)] obtain y p2 where
    "get_take p1 = Inr (y, p2)" "dp_shape 0 0 (length xs) p2"
      "dp_items p1 (Suc (length xs)) = y # dp_items p2 (length xs)" "length (dp_pool p2) = length (dp_pool p)"
    using s1(3) by auto
  then show ?thesis
    using p1 s1(2) dp_shape_data [of 0 0 "length xs" p2]
    by (simp add: getMessage_def dp_ok_def dp_queue_def)
qed

interpretation datapool: bounded_queue dp_put dp_get dp_queue "\<lambda>p. length (dp_pool p)" dp_ok
proof
  fix p :: datapool and x
  assume ok: "dp_ok p"
  show "length (dp_queue p) \<le> length (dp_pool p)"
    using ok by (auto simp: dp_ok_def dp_shape_def dp_queue_def dp_items_def)
  show "dp_put x p = None" if "length (dp_queue p) = length (dp_pool p)"
    using ok that
    by (auto simp: dp_ok_def dp_shape_def dp_queue_def dp_items_def dp_put_def putMessage_def put_wait_def
        sem_wait_def)
  show "\<exists>p'. dp_put x p = Some p' \<and> dp_ok p' \<and> dp_queue p' = dp_queue p @ [x] \<and>
      length (dp_pool p') = length (dp_pool p)"
    if "length (dp_queue p) < length (dp_pool p)"
    using putMessage_room [OF ok, of x] that by (auto simp: dp_queue_def dp_items_def dp_put_def)
  show "dp_get p = None" if "dp_queue p = []"
    using that by (simp add: dp_get_def getMessage_def get_wait_def sem_wait_def dp_queue_def dp_items_def
        ring_items_def)
  show "\<exists>p'. dp_get p = Some (x, p') \<and> dp_ok p' \<and> dp_queue p' = xs \<and>
      length (dp_pool p') = length (dp_pool p)"
    if "dp_queue p = x # xs" for xs
    using getMessage_Cons [OF ok that] by (auto simp: dp_get_def)
qed

section \<open>A producer and a consumer\<close>

text \<open>
  Two threads, as in src/server.cpp: one puts, one gets. \<open>pr_msg\<close> is the message of a producer that
  has passed its semaphore, \<open>co_in\<close> tells that the consumer has passed its own; \<open>dp_sent\<close> and
  \<open>dp_got\<close> are the messages stored and taken so far.
\<close>

record dp_system =
  dps_pool :: datapool
  pr_msg :: "block option"
  co_in :: bool
  dp_sent :: "block list"
  dp_got :: "block list"

definition dp_start :: "nat \<Rightarrow> dp_system" where
  "dp_start n = \<lparr>dps_pool = DataPool n, pr_msg = None, co_in = False, dp_sent = [], dp_got = []\<rparr>"

inductive dp_step :: "dp_system \<Rightarrow> dp_system \<Rightarrow> bool" where
  put_wait: "pr_msg s = None \<Longrightarrow> put_wait (dps_pool s) = Some p \<Longrightarrow>
    dp_step s (s\<lparr>dps_pool := p, pr_msg := Some m\<rparr>)"
| put_store: "pr_msg s = Some m \<Longrightarrow> put_store m (dps_pool s) = Inr p \<Longrightarrow>
    dp_step s (s\<lparr>dps_pool := p, pr_msg := None, dp_sent := dp_sent s @ [m]\<rparr>)"
| get_wait: "\<not> co_in s \<Longrightarrow> get_wait (dps_pool s) = Some p \<Longrightarrow>
    dp_step s (s\<lparr>dps_pool := p, co_in := True\<rparr>)"
| get_take: "co_in s \<Longrightarrow> get_take (dps_pool s) = Inr (x, p) \<Longrightarrow>
    dp_step s (s\<lparr>dps_pool := p, co_in := False, dp_got := dp_got s @ [x]\<rparr>)"

definition dp_inv :: "nat \<Rightarrow> dp_system \<Rightarrow> bool" where
  "dp_inv c s \<longleftrightarrow> length (dp_pool (dps_pool s)) = c \<and>
     (\<exists>n. dp_shape (of_bool (pr_msg s \<noteq> None)) (of_bool (co_in s)) n (dps_pool s) \<and>
        dp_sent s = dp_got s @ dp_items (dps_pool s) n)"

lemma dp_inv_start: "0 < n \<Longrightarrow> dp_inv n (dp_start n)"
  by (auto simp: dp_inv_def dp_start_def DataPool_def dp_shape_def dp_items_def)

lemma dp_inv_step: "dp_step s s' \<Longrightarrow> dp_inv c s \<Longrightarrow> dp_inv c s'"
proof (induction rule: dp_step.induct)
  case (put_wait s p m)
  then obtain n where "dp_shape 0 (of_bool (co_in s)) n (dps_pool s)"
    "dp_sent s = dp_got s @ dp_items (dps_pool s) n" "length (dp_pool (dps_pool s)) = c"
    by (auto simp: dp_inv_def)
  with put_wait_shape [OF this(1) put_wait.hyps(2)] show ?case by (auto simp: dp_inv_def)
next
  case (put_store s m p)
  then obtain n where "dp_shape (Suc 0) (of_bool (co_in s)) n (dps_pool s)"
    "dp_sent s = dp_got s @ dp_items (dps_pool s) n" "length (dp_pool (dps_pool s)) = c"
    by (auto simp: dp_inv_def)
  with put_store_shape [OF this(1), of m] put_store.hyps(2) show ?case
    by (auto simp: dp_inv_def intro!: exI [of _ "Suc n"])
next
  case (get_wait s p)
  then obtain n where "dp_shape (of_bool (pr_msg s \<noteq> None)) 0 n (dps_pool s)"
    "dp_sent s = dp_got s @ dp_items (dps_pool s) n" "length (dp_pool (dps_pool s)) = c"
    by (auto simp: dp_inv_def)
  with get_wait_shape [OF this(1) get_wait.hyps(2)] show ?case by (auto simp: dp_inv_def)
next
  case (get_take s x p)
  then obtain n where n: "dp_shape (of_bool (pr_msg s \<noteq> None)) (Suc 0) n (dps_pool s)"
    "dp_sent s = dp_got s @ dp_items (dps_pool s) n" "length (dp_pool (dps_pool s)) = c"
    by (auto simp: dp_inv_def)
  then obtain k where k: "n = Suc k" by (cases n) (auto simp: dp_shape_def)
  from get_take_shape [OF n(1) [unfolded k]] get_take.hyps(2) n show ?case
    by (auto simp: dp_inv_def k)
qed

lemma dp_inv_reach: "dp_step\<^sup>*\<^sup>* s s' \<Longrightarrow> dp_inv c s \<Longrightarrow> dp_inv c s'"
  by (induction rule: rtranclp_induct) (auto intro: dp_inv_step)

end
