(* ===== verification/ThreadPool.thy ===== *)
theory ThreadPool
  imports Ring DataPool
begin

text \<open>
  The thread pool in ThreadPool/threadpool.c: a ring of tasks under one mutex, workers that take
  tasks from it, and the two ways of shutting it down. What the code does between taking and
  releasing the mutex is one step. \<open>tp_locked\<close> tells that a call returned without releasing it, so that
  every later attempt to take it waits for ever. The results of the \<open>pthread\<close> calls are arguments; 0
  is success.
\<close>

section \<open>State\<close>

record threadpool_task =
  tk_function :: nat
  tk_argument :: nat

record threadpool =
  tp_queue :: "threadpool_task list"
  tp_thread_count :: int
  tp_queue_size :: int
  tp_head :: int
  tp_tail :: int
  tp_count :: int
  tp_shutdown :: int
  tp_started :: int
  tp_threads :: bool
  tp_locked :: bool

datatype threadpool_error = threadpool_invalid | threadpool_lock_failure | threadpool_queue_full
  | threadpool_shutdown | threadpool_thread_failure

definition tp_err :: "threadpool_error \<Rightarrow> int" where
  "tp_err e = (case e of threadpool_invalid \<Rightarrow> - 1 | threadpool_lock_failure \<Rightarrow> - 2
     | threadpool_queue_full \<Rightarrow> - 3 | threadpool_shutdown \<Rightarrow> - 4 | threadpool_thread_failure \<Rightarrow> - 5)"

definition immediate_shutdown :: int where "immediate_shutdown = 1"
definition graceful_shutdown :: int where "graceful_shutdown = 2"

definition MAX_THREADS :: int where "MAX_THREADS = 64"
definition MAX_QUEUE :: int where "MAX_QUEUE = 65536"

section \<open>The ring of tasks\<close>

definition tp_push :: "threadpool_task \<Rightarrow> threadpool \<Rightarrow> threadpool" where
  "tp_push t p = p\<lparr>tp_queue := (tp_queue p)[nat (tp_tail p) := t],
     tp_tail := (tp_tail p + 1) smod tp_queue_size p, tp_count := tp_count p + 1\<rparr>"

definition tp_pop :: "threadpool \<Rightarrow> threadpool_task \<times> threadpool" where
  "tp_pop p = (tp_queue p ! nat (tp_head p),
     p\<lparr>tp_head := (tp_head p + 1) smod tp_queue_size p, tp_count := tp_count p - 1\<rparr>)"

section \<open>Operations\<close>

text \<open>\<open>threadpool_free\<close>: the result, and whether the pool is gone.\<close>

definition threadpool_free :: "threadpool option \<Rightarrow> int \<times> bool" where
  "threadpool_free pool = (case pool of None \<Rightarrow> (- 1, False)
     | Some p \<Rightarrow> if tp_started p > 0 then (- 1, False) else (0, True))"

text \<open>
  \<open>threadpool_add\<close>: \<open>None\<close> if it waits for the mutex. A failing \<open>pthread_cond_signal\<close> is reported as
  an error although the task is in the queue.
\<close>

definition threadpool_add ::
  "threadpool option \<Rightarrow> threadpool_task \<Rightarrow> int \<Rightarrow> int \<Rightarrow> int \<Rightarrow> (int \<times> threadpool option) option"
where
  "threadpool_add pool t lock signal unlock =
     (case pool of None \<Rightarrow> Some (tp_err threadpool_invalid, None)
      | Some p \<Rightarrow>
          if tk_function t = 0 then Some (tp_err threadpool_invalid, Some p)
          else if lock \<noteq> 0 then Some (tp_err threadpool_lock_failure, Some p)
          else if tp_locked p then None
          else case (if tp_count p = tp_queue_size p then (tp_err threadpool_queue_full, p)
                     else if tp_shutdown p \<noteq> 0 then (tp_err threadpool_shutdown, p)
                     else (if signal \<noteq> 0 then tp_err threadpool_lock_failure else 0, tp_push t p))
               of (err, p) \<Rightarrow>
                 if unlock \<noteq> 0 then Some (tp_err threadpool_lock_failure, Some (p\<lparr>tp_locked := True\<rparr>))
                 else Some (err, Some p))"

text \<open>
  \<open>threadpool_destroy\<close> up to the loop of \<open>pthread_join\<close>. The two \<open>break\<close>s before the mutex is
  released leave it locked.
\<close>

definition destroy_begin :: "int \<Rightarrow> int \<Rightarrow> int \<Rightarrow> int \<Rightarrow> threadpool \<Rightarrow> (int \<times> threadpool) option" where
  "destroy_begin flags lock bcast unlock p =
     (if lock \<noteq> 0 then Some (tp_err threadpool_lock_failure, p)
      else if tp_locked p then None
      else if tp_shutdown p \<noteq> 0 then Some (tp_err threadpool_shutdown, p\<lparr>tp_locked := True\<rparr>)
      else let p = p\<lparr>tp_shutdown := if odd flags then graceful_shutdown else immediate_shutdown\<rparr> in
        if bcast \<noteq> 0 \<or> unlock \<noteq> 0
        then Some (tp_err threadpool_lock_failure, p\<lparr>tp_locked := True\<rparr>)
        else Some (0, p))"

text \<open>
  The rest: \<open>joins\<close> are the results of \<open>pthread_join\<close> for the threads of the pool. The result is the
  return value and whether the pool was freed.
\<close>

definition destroy_end :: "int \<Rightarrow> int list \<Rightarrow> threadpool \<Rightarrow> int \<times> bool" where
  "destroy_end err joins p =
     (let err = (if err = 0 \<and> (\<exists>r \<in> set joins. r \<noteq> 0) then tp_err threadpool_thread_failure else err) in
      if err = 0 then (0, snd (threadpool_free (Some p))) else (err, False))"

text \<open>
  \<open>threadpool_create\<close>. Failed allocations or initialisations end in \<open>threadpool_free\<close>; a thread that
  cannot be created in \<open>threadpool_destroy\<close> of the pool with the threads started so far.
\<close>

datatype tp_created = TpNull | TpPool threadpool | TpDestroyed threadpool

definition tp_new :: "threadpool_task list \<Rightarrow> int \<Rightarrow> bool \<Rightarrow> threadpool" where
  "tp_new junk queue_size alloc_threads =
     \<lparr>tp_queue = junk, tp_thread_count = 0, tp_queue_size = queue_size, tp_head = 0, tp_tail = 0,
      tp_count = 0, tp_shutdown = 0, tp_started = 0, tp_threads = alloc_threads, tp_locked = False\<rparr>"

fun tp_start_threads :: "int list \<Rightarrow> threadpool \<Rightarrow> tp_created" where
  "tp_start_threads [] p = TpPool p"
| "tp_start_threads (rc # rcs) p =
     (if rc \<noteq> 0 then TpDestroyed p
      else tp_start_threads rcs (p\<lparr>tp_thread_count := tp_thread_count p + 1, tp_started := tp_started p + 1\<rparr>))"

definition threadpool_create ::
  "int \<Rightarrow> int \<Rightarrow> bool \<Rightarrow> bool \<Rightarrow> bool \<Rightarrow> bool \<Rightarrow> threadpool_task list \<Rightarrow> int list \<Rightarrow> tp_created"
where
  "threadpool_create thread_count queue_size alloc alloc_threads alloc_queue init_ok junk creates =
     (if thread_count \<le> 0 \<or> thread_count > MAX_THREADS \<or> queue_size \<le> 0 \<or> queue_size > MAX_QUEUE
      then TpNull
      else if \<not> alloc \<or> \<not> init_ok \<or> \<not> alloc_threads \<or> \<not> alloc_queue then TpNull
      else tp_start_threads (take (nat thread_count) creates)
             (tp_new (take (nat queue_size) junk) queue_size alloc_threads))"

section \<open>Workers\<close>

text \<open>A worker waits for the mutex or for a task, runs a task, or has left its loop.\<close>

datatype wstate = WWait | WRun threadpool_task | WExit

text \<open>One pass of \<open>threadpool_thread\<close> up to the call of the task; \<open>None\<close> while it waits.\<close>

definition worker_step :: "threadpool \<Rightarrow> (wstate \<times> threadpool) option" where
  "worker_step p =
     (if tp_locked p then None
      else if tp_count p = 0 \<and> tp_shutdown p = 0 then None
      else if tp_shutdown p = immediate_shutdown \<or> tp_shutdown p = graceful_shutdown \<and> tp_count p = 0
      then Some (WExit, p\<lparr>tp_started := tp_started p - 1\<rparr>)
      else case tp_pop p of (t, p) \<Rightarrow> Some (WRun t, p))"

section \<open>The pool as a bounded queue\<close>

definition tp_ok :: "threadpool \<Rightarrow> bool" where
  "tp_ok p \<longleftrightarrow> 0 < tp_queue_size p \<and> tp_queue_size p = int (length (tp_queue p)) \<and>
     0 \<le> tp_head p \<and> tp_head p < tp_queue_size p \<and> 0 \<le> tp_count p \<and> tp_count p \<le> tp_queue_size p \<and>
     tp_tail p = int ((nat (tp_head p) + nat (tp_count p)) mod length (tp_queue p))"

definition tp_items :: "threadpool \<Rightarrow> threadpool_task list" where
  "tp_items p = ring_items (tp_queue p) (nat (tp_head p)) (nat (tp_count p))"

lemma length_tp_items [simp]: "tp_ok p \<Longrightarrow> int (length (tp_items p)) = tp_count p"
  by (simp add: tp_items_def tp_ok_def)

lemma tp_items_flags [simp]:
  "tp_items (p\<lparr>tp_locked := b\<rparr>) = tp_items p" "tp_ok (p\<lparr>tp_locked := b\<rparr>) = tp_ok p"
  "tp_items (p\<lparr>tp_shutdown := n\<rparr>) = tp_items p" "tp_ok (p\<lparr>tp_shutdown := n\<rparr>) = tp_ok p"
  "tp_items (p\<lparr>tp_started := n\<rparr>) = tp_items p" "tp_ok (p\<lparr>tp_started := n\<rparr>) = tp_ok p"
  by (simp_all add: tp_items_def tp_ok_def)

lemma tp_push_ok:
  assumes "tp_ok p" "tp_count p < tp_queue_size p"
  shows "tp_ok (tp_push t p) \<and> tp_items (tp_push t p) = tp_items p @ [t]"
proof -
  let ?h = "nat (tp_head p)" and ?n = "nat (tp_count p)" and ?l = "length (tp_queue p)"
  have s: "0 < ?l" "?n < ?l" "tp_tail p = int ((?h + ?n) mod ?l)" "tp_queue_size p = int ?l"
    using assms by (auto simp: tp_ok_def nat_less_iff)
  have n: "nat (tp_count p + 1) = Suc ?n" using assms by (simp add: tp_ok_def nat_add_distrib)
  have t: "(tp_tail p + 1) smod tp_queue_size p = int ((?h + Suc ?n) mod ?l)"
    unfolding s(3,4) smod_succ_nat [OF s(1)] by (simp add: mod_Suc_eq)
  show ?thesis
    using assms s(1,3) n t ring_items_put [OF s(2), of ?h t]
    by (simp add: tp_push_def tp_ok_def tp_items_def)
qed

lemma tp_pop_ok:
  assumes "tp_ok p" "0 < tp_count p"
  shows "\<exists>t p'. tp_pop p = (t, p') \<and> tp_ok p' \<and> tp_items p = t # tp_items p' \<and>
    tp_count p' = tp_count p - 1 \<and> tp_queue_size p' = tp_queue_size p"
proof -
  let ?h = "nat (tp_head p)" and ?l = "length (tp_queue p)"
  define n where "n = nat (tp_count p) - 1"
  have s: "0 < ?l" "?h < ?l" "tp_head p = int ?h" "tp_queue_size p = int ?l" "nat (tp_count p) = Suc n"
      "nat (tp_count p - 1) = n"
    using assms by (auto simp: tp_ok_def n_def nat_less_iff)
  have t: "(tp_head p + 1) smod tp_queue_size p = int (Suc ?h mod ?l)"
    by (subst s(3), subst s(4)) (rule smod_succ_nat [OF s(1)])
  have m: "(?h + Suc n) mod ?l = (Suc ?h mod ?l + n) mod ?l" by (simp add: mod_add_left_eq)
  show ?thesis
    using assms s(1,4,5,6) ring_items_get [OF s(2), of n] t m
    by (simp add: tp_pop_def tp_ok_def tp_items_def)
qed

definition tp_put :: "threadpool_task \<Rightarrow> threadpool \<Rightarrow> threadpool option" where
  "tp_put t p = (if tp_count p = tp_queue_size p then None else Some (tp_push t p))"

definition tp_get :: "threadpool \<Rightarrow> (threadpool_task \<times> threadpool) option" where
  "tp_get p = (if tp_count p = 0 then None else Some (tp_pop p))"

interpretation tasks: bounded_queue tp_put tp_get tp_items "\<lambda>p. nat (tp_queue_size p)" tp_ok
proof
  fix p :: threadpool and t
  assume ok: "tp_ok p"
  have l: "int (length (tp_items p)) = tp_count p" by (rule length_tp_items [OF ok])
  moreover have "tp_count p \<le> tp_queue_size p" using ok by (simp add: tp_ok_def)
  ultimately show "length (tp_items p) \<le> nat (tp_queue_size p)" by linarith
  show "tp_put t p = None" if "length (tp_items p) = nat (tp_queue_size p)"
    using that l ok by (auto simp: tp_put_def tp_ok_def)
  show "\<exists>p'. tp_put t p = Some p' \<and> tp_ok p' \<and> tp_items p' = tp_items p @ [t] \<and>
      nat (tp_queue_size p') = nat (tp_queue_size p)"
    if "length (tp_items p) < nat (tp_queue_size p)"
  proof -
    have "tp_count p < tp_queue_size p" using that l by linarith
    then show ?thesis using tp_push_ok [OF ok] by (auto simp: tp_put_def tp_push_def)
  qed
  show "tp_get p = None" if "tp_items p = []" using that l by (simp add: tp_get_def)
  show "\<exists>p'. tp_get p = Some (t, p') \<and> tp_ok p' \<and> tp_items p' = ts \<and>
      nat (tp_queue_size p') = nat (tp_queue_size p)"
    if "tp_items p = t # ts" for ts
  proof -
    have "0 < tp_count p" using that l by (metis length_greater_0_conv list.distinct(1) of_nat_0_less_iff)
    then show ?thesis using tp_pop_ok [OF ok] that by (auto simp: tp_get_def)
  qed
qed

section \<open>The pool with its workers\<close>

text \<open>
  The workers and the callers step in any order; the \<open>pthread\<close> calls succeed, as they do on valid
  objects. \<open>tps_accepted\<close> are the tasks that \<open>threadpool_add\<close> returned 0 for, \<open>tps_taken\<close> those that a
  worker has taken.
\<close>

record tp_system =
  tps_pool :: threadpool
  tps_workers :: "wstate list"
  tps_accepted :: "threadpool_task list"
  tps_taken :: "threadpool_task list"

inductive tp_worker :: "tp_system \<Rightarrow> tp_system \<Rightarrow> bool" where
  take_task: "i < length (tps_workers s) \<Longrightarrow> tps_workers s ! i = WWait \<Longrightarrow>
    worker_step (tps_pool s) = Some (WRun t, p) \<Longrightarrow>
    tp_worker s (s\<lparr>tps_pool := p, tps_workers := (tps_workers s)[i := WRun t],
                   tps_taken := tps_taken s @ [t]\<rparr>)"
| leave: "i < length (tps_workers s) \<Longrightarrow> tps_workers s ! i = WWait \<Longrightarrow>
    worker_step (tps_pool s) = Some (WExit, p) \<Longrightarrow>
    tp_worker s (s\<lparr>tps_pool := p, tps_workers := (tps_workers s)[i := WExit]\<rparr>)"
| finish: "i < length (tps_workers s) \<Longrightarrow> tps_workers s ! i = WRun t \<Longrightarrow>
    tp_worker s (s\<lparr>tps_workers := (tps_workers s)[i := WWait]\<rparr>)"

inductive tp_step :: "tp_system \<Rightarrow> tp_system \<Rightarrow> bool" where
  worker: "tp_worker s s' \<Longrightarrow> tp_step s s'"
| add: "threadpool_add (Some (tps_pool s)) t 0 0 0 = Some (rc, Some p) \<Longrightarrow>
    tp_step s (s\<lparr>tps_pool := p, tps_accepted := (if rc = 0 then tps_accepted s @ [t] else tps_accepted s)\<rparr>)"
| destroy: "destroy_begin flags 0 0 0 (tps_pool s) = Some (rc, p) \<Longrightarrow> tp_step s (s\<lparr>tps_pool := p\<rparr>)"

definition tp_init :: "nat \<Rightarrow> threadpool \<Rightarrow> tp_system" where
  "tp_init n p = \<lparr>tps_pool = p, tps_workers = replicate n WWait, tps_accepted = [], tps_taken = []\<rparr>"

definition alive :: "wstate list \<Rightarrow> nat" where
  "alive ws = length (filter (\<lambda>w. w \<noteq> WExit) ws)"

definition tps_inv :: "tp_system \<Rightarrow> bool" where
  "tps_inv s \<longleftrightarrow> tp_ok (tps_pool s) \<and> tps_accepted s = tps_taken s @ tp_items (tps_pool s) \<and>
     tp_started (tps_pool s) = int (alive (tps_workers s)) \<and>
     tp_shutdown (tps_pool s) \<in> {0, immediate_shutdown, graceful_shutdown} \<and>
     (WExit \<in> set (tps_workers s) \<longrightarrow> tp_shutdown (tps_pool s) \<noteq> 0 \<and>
        (tp_shutdown (tps_pool s) = graceful_shutdown \<longrightarrow> tp_items (tps_pool s) = []))"

lemma alive_update:
  "i < length ws \<Longrightarrow> alive (ws[i := w]) + of_bool (ws ! i \<noteq> WExit) = alive ws + of_bool (w \<noteq> WExit)"
proof (induction ws arbitrary: i)
  case Nil
  then show ?case by simp
next
  case (Cons v ws)
  then show ?case by (cases i) (auto simp: alive_def)
qed

text \<open>What each operation does to a pool whose ring is in order.\<close>

lemma add_cases:
  assumes "threadpool_add (Some p) t 0 0 0 = Some (rc, Some p')" "tp_ok p"
  shows "rc = 0 \<and> tp_shutdown p = 0 \<and> p' = tp_push t p \<and> tp_ok p' \<and> tp_items p' = tp_items p @ [t] \<or>
    rc \<noteq> 0 \<and> p' = p"
proof -
  have "tp_count p \<noteq> tp_queue_size p \<Longrightarrow> tp_count p < tp_queue_size p" using assms(2) by (simp add: tp_ok_def)
  with tp_push_ok [OF assms(2), of t] assms(1) show ?thesis
    by (auto simp: threadpool_add_def tp_err_def split: if_splits)
qed

lemma destroy_cases:
  assumes "destroy_begin flags 0 0 0 p = Some (rc, p')"
  shows "tp_items p' = tp_items p \<and> tp_ok p' = tp_ok p \<and> tp_started p' = tp_started p \<and>
    (tp_shutdown p = 0 \<and> rc = 0 \<and> \<not> tp_locked p' \<and> tp_shutdown p' \<in> {immediate_shutdown, graceful_shutdown} \<or>
     tp_shutdown p \<noteq> 0 \<and> rc \<noteq> 0 \<and> tp_locked p' \<and> tp_shutdown p' = tp_shutdown p)"
  using assms by (auto simp: destroy_begin_def tp_err_def Let_def split: if_splits)

lemma worker_step_cases:
  assumes "worker_step p = Some (w, p')" "tp_ok p" "tp_shutdown p \<in> {0, immediate_shutdown, graceful_shutdown}"
  shows "\<not> tp_locked p \<and> tp_shutdown p' = tp_shutdown p \<and> tp_ok p' \<and>
    (w = WExit \<and> tp_items p' = tp_items p \<and> tp_started p' = tp_started p - 1 \<and> tp_shutdown p \<noteq> 0 \<and>
       (tp_shutdown p = graceful_shutdown \<longrightarrow> tp_items p = []) \<or>
     (\<exists>t. w = WRun t \<and> tp_items p = t # tp_items p' \<and> tp_started p' = tp_started p \<and>
       tp_shutdown p \<noteq> immediate_shutdown))"
proof (cases "tp_shutdown p = immediate_shutdown \<or> tp_shutdown p = graceful_shutdown \<and> tp_count p = 0")
  case True
  moreover have "tp_count p = 0 \<Longrightarrow> tp_items p = []" by (simp add: tp_items_def)
  ultimately show ?thesis
    using assms by (auto simp: worker_step_def immediate_shutdown_def graceful_shutdown_def split: if_splits)
next
  case False
  then have "0 < tp_count p" using assms by (auto simp: worker_step_def tp_ok_def split: if_splits)
  from tp_pop_ok [OF assms(2) this] False assms(1) show ?thesis
    by (auto simp: worker_step_def tp_pop_def split: if_splits)
qed

lemma tps_inv_worker: "tp_worker s s' \<Longrightarrow> tps_inv s \<Longrightarrow> tps_inv s'"
proof (induction rule: tp_worker.induct)
  case (take_task i s t p)
  from worker_step_cases [OF take_task.hyps(3)] take_task.prems
  have w: "tp_shutdown p = tp_shutdown (tps_pool s)" "tp_ok p" "tp_items (tps_pool s) = t # tp_items p"
      "tp_started p = tp_started (tps_pool s)"
    by (auto simp: tps_inv_def)
  have "WExit \<in> set ((tps_workers s)[i := WRun t]) \<Longrightarrow> WExit \<in> set (tps_workers s)"
    using set_update_subset_insert [of "tps_workers s" i "WRun t"] by auto
  then show ?case
    using take_task w alive_update [OF take_task.hyps(1), of "WRun t"] by (auto simp: tps_inv_def)
next
  case (leave i s p)
  from worker_step_cases [OF leave.hyps(3)] leave.prems
  have w: "tp_shutdown p = tp_shutdown (tps_pool s)" "tp_ok p" "tp_items p = tp_items (tps_pool s)"
      "tp_started p = tp_started (tps_pool s) - 1" "tp_shutdown (tps_pool s) \<noteq> 0"
      "tp_shutdown (tps_pool s) = graceful_shutdown \<longrightarrow> tp_items p = []"
    by (auto simp: tps_inv_def)
  then show ?case
    using leave alive_update [OF leave.hyps(1), of WExit] by (auto simp: tps_inv_def)
next
  case (finish i s t)
  have "WExit \<in> set ((tps_workers s)[i := WWait]) \<Longrightarrow> WExit \<in> set (tps_workers s)"
    using set_update_subset_insert [of "tps_workers s" i WWait] by auto
  then show ?case
    using finish alive_update [OF finish.hyps(1), of WWait] by (auto simp: tps_inv_def)
qed

lemma tps_inv_step: "tp_step s s' \<Longrightarrow> tps_inv s \<Longrightarrow> tps_inv s'"
proof (induction rule: tp_step.induct)
  case (worker s s')
  then show ?case by (rule tps_inv_worker)
next
  case (add s t rc p)
  then show ?case
    using add_cases [OF add.hyps] by (fastforce simp: tps_inv_def tp_push_def)
next
  case (destroy flags s rc p)
  then show ?case
    using destroy_cases [OF destroy.hyps]
    by (auto simp: tps_inv_def immediate_shutdown_def graceful_shutdown_def)
qed

lemma tps_inv_reach: "tp_step\<^sup>*\<^sup>* s s' \<Longrightarrow> tps_inv s \<Longrightarrow> tps_inv s'"
  by (induction rule: rtranclp_induct) (auto intro: tps_inv_step)

text \<open>A pool that \<open>threadpool_create\<close> returned.\<close>

lemma start_threads_pool:
  "tp_start_threads rcs p = TpPool p' \<Longrightarrow>
   p' = p\<lparr>tp_thread_count := tp_thread_count p + int (length rcs), tp_started := tp_started p + int (length rcs)\<rparr>"
  by (induction rcs p rule: tp_start_threads.induct) (auto split: if_splits)

lemma created_inv:
  assumes "threadpool_create n qs a1 a2 a3 a4 junk creates = TpPool p"
    and "length creates = nat n" "qs \<le> int (length junk)"
  shows "tps_inv (tp_init (nat n) p)" "tp_shutdown p = 0" "\<not> tp_locked p" "tp_thread_count p = n"
    "tp_queue_size p = qs"
proof -
  have s: "0 < n" "0 < qs" "tp_start_threads (take (nat n) creates)
      (tp_new (take (nat qs) junk) qs a2) = TpPool p"
    using assms(1) by (auto simp: threadpool_create_def split: if_splits)
  from start_threads_pool [OF s(3)] s assms(2,3)
  show "tps_inv (tp_init (nat n) p)" "tp_shutdown p = 0" "\<not> tp_locked p" "tp_thread_count p = n"
    "tp_queue_size p = qs"
    by (auto simp: tps_inv_def tp_init_def tp_new_def tp_ok_def tp_items_def alive_def filter_empty_conv)
qed

end
