(* ===== verification/PoolProps.thy ===== *)
theory PoolProps
  imports ThreadPool
begin

text \<open>Properties of the message pool of include/dataPool.h and of the thread pool.\<close>

section \<open>The message pool\<close>

lemma dp_put_enabled:
  assumes "dp_inv c s" "pr_msg s = Some m"
  shows "\<exists>p. put_store m (dps_pool s) = Inr p"
proof -
  from assms obtain n where "dp_shape (Suc 0) (of_bool (co_in s)) n (dps_pool s)"
    by (auto simp: dp_inv_def)
  with put_store_shape show ?thesis by blast
qed

lemma dp_take_enabled:
  assumes "dp_inv c s" "co_in s"
  shows "\<exists>x p. get_take (dps_pool s) = Inr (x, p)"
proof -
  from assms obtain n where n: "dp_shape (of_bool (pr_msg s \<noteq> None)) (Suc 0) n (dps_pool s)"
    by (auto simp: dp_inv_def)
  then obtain k where "n = Suc k" by (cases n) (auto simp: dp_shape_def)
  with n get_take_shape show ?thesis by blast
qed

text \<open>The consumer alone takes everything that has been stored.\<close>

lemma consumer_drains:
  "dp_inv c s \<Longrightarrow> \<not> co_in s \<Longrightarrow> \<exists>s'. dp_step\<^sup>*\<^sup>* s s' \<and> dp_got s' = dp_sent s \<and> dp_sent s' = dp_sent s"
proof (induction "dp_dataSem (dps_pool s)" arbitrary: s)
  case 0
  then have "dp_got s = dp_sent s" by (auto simp: dp_inv_def dp_shape_def dp_items_def)
  then show ?case by auto
next
  case (Suc n)
  then obtain p where p: "get_wait (dps_pool s) = Some p" "dp_dataSem p = n"
    by (auto simp: get_wait_def sem_wait_def split: if_splits)
  let ?t = "s\<lparr>dps_pool := p, co_in := True\<rparr>"
  have st: "dp_step s ?t" by (rule get_wait) (use Suc.prems p in auto)
  from dp_inv_step [OF this Suc.prems(1)] have t: "dp_inv c ?t" .
  from dp_take_enabled [OF t] obtain x q where q: "get_take p = Inr (x, q)" by auto
  let ?u = "?t\<lparr>dps_pool := q, co_in := False, dp_got := dp_got ?t @ [x]\<rparr>"
  have tu: "dp_step ?t ?u" by (rule get_take) (use q in auto)
  have "dp_dataSem q = n" using q p(2) by (auto simp: get_take_def split: if_splits)
  with Suc.hyps(1) [of ?u] dp_inv_step [OF tu t] obtain s' where
    "dp_step\<^sup>*\<^sup>* ?u s'" "dp_got s' = dp_sent s" "dp_sent s' = dp_sent s" by auto
  with st tu show ?case by (meson converse_rtranclp_into_rtranclp)
qed

text \<open>C14: With one thread putting and one getting, in any interleaving of the halves of their calls,
  what the consumer has taken is what the producer has stored, in order, up to at most \<open>n\<close> messages
  still in the pool; one of the two can always go on; and the consumer alone can take whatever is there.\<close>

theorem datapool_producer_consumer:
  assumes "0 < n" "dp_step\<^sup>*\<^sup>* (dp_start n) s"
  shows "(\<exists>rest. dp_sent s = dp_got s @ rest \<and> length rest \<le> n) \<and> (\<exists>s'. dp_step s s') \<and>
    (\<not> co_in s \<longrightarrow> (\<exists>s'. dp_step\<^sup>*\<^sup>* s s' \<and> dp_got s' = dp_sent s))"
proof -
  have inv: "dp_inv n s" by (rule dp_inv_reach [OF assms(2) dp_inv_start [OF assms(1)]])
  then obtain k where k: "dp_shape (of_bool (pr_msg s \<noteq> None)) (of_bool (co_in s)) k (dps_pool s)"
    "dp_sent s = dp_got s @ dp_items (dps_pool s) k" "length (dp_pool (dps_pool s)) = n"
    by (auto simp: dp_inv_def)
  then have "k \<le> n" by (auto simp: dp_shape_def)
  moreover have "\<exists>s'. dp_step s s'"
  proof (cases "pr_msg s")
    case (Some m)
    with dp_put_enabled [OF inv this] show ?thesis by (blast intro: put_store)
  next
    case p: None
    show ?thesis
    proof (cases "co_in s")
      case True
      with dp_take_enabled [OF inv this] show ?thesis by (blast intro: get_take)
    next
      case False
      have "dp_blankSem (dps_pool s) + dp_dataSem (dps_pool s) = n"
        using k p False by (auto simp: dp_shape_def)
      then have "(\<exists>q. put_wait (dps_pool s) = Some q) \<or> (\<exists>q. get_wait (dps_pool s) = Some q)"
        using assms(1) by (auto simp: put_wait_def get_wait_def sem_wait_def)
      with p False show ?thesis by (blast intro: put_wait get_wait)
    qed
  qed
  ultimately show ?thesis
    using k(2) consumer_drains [OF inv] by (auto simp: dp_items_def)
qed

lemma datapool_producer_consumer_witness:
  "\<exists>s. dp_step\<^sup>*\<^sup>* (dp_start 2) s \<and> dp_sent s = [[1]] \<and> (\<exists>s'. dp_step\<^sup>*\<^sup>* s s' \<and> dp_got s' = [[1]])"
proof -
  let ?p = "(DataPool 2)\<lparr>dp_blankSem := 1\<rparr>"
  let ?s = "(dp_start 2)\<lparr>dps_pool := ?p, pr_msg := Some [1]\<rparr>"
  have 1: "dp_step (dp_start 2) ?s"
    by (rule put_wait) (simp_all add: dp_start_def DataPool_def put_wait_def sem_wait_def)
  obtain q where q: "put_store [1] ?p = Inr q"
    by (simp add: put_store_def DataPool_def)
  let ?t = "?s\<lparr>dps_pool := q, pr_msg := None, dp_sent := dp_sent ?s @ [[1]]\<rparr>"
  have 2: "dp_step ?s ?t" by (rule put_store) (use q in simp_all)
  from 1 2 have r: "dp_step\<^sup>*\<^sup>* (dp_start 2) ?t" by (meson r_into_rtranclp rtranclp.rtrancl_into_rtrancl)
  from datapool_producer_consumer [OF _ r] obtain s' where "dp_step\<^sup>*\<^sup>* ?t s'" "dp_got s' = dp_sent ?t"
    by (auto simp: dp_start_def)
  with r show ?thesis by (intro exI [of _ ?t]) (auto simp: dp_start_def)
qed

section \<open>The thread pool\<close>

text \<open>C12: In every state a pool can get into, whatever its callers and workers do, the tasks that
  \<open>threadpool_add\<close> accepted are those the workers have taken followed by those in the ring: each is
  taken at most once and in the order of acceptance, the ring never holds more than its size, and
  \<open>started\<close> counts the workers that have not left.\<close>

theorem pool_tasks_in_order:
  assumes "threadpool_create n qs a1 a2 a3 a4 junk creates = TpPool p"
    and "length creates = nat n" "qs \<le> int (length junk)"
    and "tp_step\<^sup>*\<^sup>* (tp_init (nat n) p) s"
  shows "tps_accepted s = tps_taken s @ tp_items (tps_pool s) \<and>
    int (length (tp_items (tps_pool s))) \<le> tp_queue_size (tps_pool s) \<and>
    tp_started (tps_pool s) = int (alive (tps_workers s))"
proof -
  have "tps_inv s" by (rule tps_inv_reach [OF assms(4) created_inv(1) [OF assms(1-3)]])
  then have "tp_ok (tps_pool s)" "tps_accepted s = tps_taken s @ tp_items (tps_pool s)"
    "tp_started (tps_pool s) = int (alive (tps_workers s))"
    by (simp_all add: tps_inv_def)
  moreover from this(1) have "tp_count (tps_pool s) \<le> tp_queue_size (tps_pool s)" by (simp add: tp_ok_def)
  ultimately show ?thesis by simp
qed

definition sample_pool :: threadpool where
  "sample_pool = (tp_new [\<lparr>tk_function = 0, tk_argument = 0\<rparr>, \<lparr>tk_function = 0, tk_argument = 0\<rparr>] 2 True)
     \<lparr>tp_thread_count := 1, tp_started := 1\<rparr>"

lemma sample_pool_created:
  "threadpool_create 1 2 True True True True
     [\<lparr>tk_function = 0, tk_argument = 0\<rparr>, \<lparr>tk_function = 0, tk_argument = 0\<rparr>] [0] = TpPool sample_pool"
  by (simp add: threadpool_create_def MAX_THREADS_def MAX_QUEUE_def sample_pool_def tp_new_def)

lemma pool_tasks_in_order_witness:
  "\<exists>s. tp_step\<^sup>*\<^sup>* (tp_init 1 sample_pool) s \<and> tps_accepted s = [\<lparr>tk_function = 7, tk_argument = 1\<rparr>] \<and>
     tps_accepted s = tps_taken s @ tp_items (tps_pool s)"
proof -
  let ?t = "\<lparr>tk_function = 7, tk_argument = 1\<rparr>"
  have a: "threadpool_add (Some (tps_pool (tp_init 1 sample_pool))) ?t 0 0 0 = Some (0, Some (tp_push ?t sample_pool))"
    by (simp add: threadpool_add_def tp_init_def sample_pool_def tp_new_def)
  let ?s = "(tp_init 1 sample_pool)\<lparr>tps_pool := tp_push ?t sample_pool,
      tps_accepted := tps_accepted (tp_init 1 sample_pool) @ [?t]\<rparr>"
  have "tp_step (tp_init 1 sample_pool) ?s" using add [OF a] by simp
  then have r: "tp_step\<^sup>*\<^sup>* (tp_init (nat 1) sample_pool) ?s" by auto
  from pool_tasks_in_order [OF sample_pool_created _ _ r] r show ?thesis
    by (intro exI [of _ ?s]) (simp add: tp_init_def)
qed














text \<open>While the mutex is locked for good, only workers that run a task can do anything: finish it.\<close>

lemma locked_step:
  assumes "tp_step t u" "tp_locked (tps_pool t)"
  shows "tps_pool u = tps_pool t \<and> length (tps_workers u) = length (tps_workers t) \<and>
    (\<forall>i < length (tps_workers t). tps_workers t ! i \<noteq> WExit \<longrightarrow> tps_workers u ! i \<noteq> WExit)"
proof -
  have w: "worker_step (tps_pool t) = None" using assms(2) by (simp add: worker_step_def)
  have d: "destroy_begin flags 0 0 0 (tps_pool t) = None" for flags
    using assms(2) by (simp add: destroy_begin_def)
  have a: "threadpool_add (Some (tps_pool t)) x 0 0 0 = Some (rc, Some p) \<Longrightarrow> p = tps_pool t" for x rc p
    using assms(2) by (simp add: threadpool_add_def split: if_splits)
  from assms(1) show ?thesis
  proof (cases rule: tp_step.cases)
    case worker
    then show ?thesis by (cases rule: tp_worker.cases) (use w in \<open>auto simp: nth_list_update\<close>)
  next
    case (add x rc p)
    then show ?thesis using a by auto
  next
    case (destroy flags rc p)
    then show ?thesis using d by auto
  qed
qed

text \<open>C29: Destroying a pool whose shutdown has already begun fails and leaves the mutex locked: from then
  on no call on the pool returns, a worker that has not left never does, and the first
  \<open>threadpool_destroy\<close>, which waits for the workers, does not return either.\<close>

theorem destroy_twice_blocks:
  assumes "destroy_begin f1 0 0 0 (tps_pool s) = Some (rc1, p1)" "\<not> tp_locked p1"
    and "destroy_begin f2 0 0 0 p1 = Some (rc2, p2)"
    and "tp_step\<^sup>*\<^sup>* (s\<lparr>tps_pool := p2\<rparr>) s'" "i < length (tps_workers s)" "tps_workers s ! i \<noteq> WExit"
  shows "rc1 = 0 \<and> rc2 = tp_err threadpool_shutdown \<and> tps_pool s' = p2 \<and> tps_workers s' ! i \<noteq> WExit \<and>
    threadpool_add (Some (tps_pool s')) \<lparr>tk_function = f, tk_argument = x\<rparr> 0 0 0 =
      (if f = 0 then Some (tp_err threadpool_invalid, Some p2) else None) \<and>
    destroy_begin f3 0 0 0 (tps_pool s') = None"
proof -
  have 1: "rc1 = 0" "tp_shutdown p1 \<noteq> 0"
    using assms(1,2)
    by (auto simp: destroy_begin_def Let_def immediate_shutdown_def graceful_shutdown_def tp_err_def split: if_splits)
  then have 2: "rc2 = tp_err threadpool_shutdown" "tp_locked p2"
    using assms(2,3) by (auto simp: destroy_begin_def split: if_splits)
  from assms(4) have "tps_pool s' = p2 \<and> length (tps_workers s') = length (tps_workers s) \<and>
      tps_workers s' ! i \<noteq> WExit"
  proof (induction rule: rtranclp_induct)
    case base
    then show ?case using assms(6) by simp
  next
    case (step t u)
    then show ?case using locked_step [OF step.hyps(2)] 2(2) assms(5) by simp
  qed
  with 1 2 show ?thesis by (auto simp: threadpool_add_def destroy_begin_def)
qed

lemma destroy_twice_blocks_witness:
  "\<exists>p1 p2. destroy_begin 1 0 0 0 sample_pool = Some (0, p1) \<and> destroy_begin 1 0 0 0 p1 = Some (- 4, p2) \<and>
     destroy_begin 1 0 0 0 p2 = None"
proof -
  let ?p1 = "sample_pool\<lparr>tp_shutdown := graceful_shutdown\<rparr>"
  have 1: "destroy_begin 1 0 0 0 (tps_pool (tp_init 1 sample_pool)) = Some (0, ?p1)"
    by (simp add: destroy_begin_def tp_init_def sample_pool_def tp_new_def)
  have l: "\<not> tp_locked ?p1" by (simp add: sample_pool_def tp_new_def)
  have 2: "destroy_begin 1 0 0 0 ?p1 = Some (- 4, ?p1\<lparr>tp_locked := True\<rparr>)"
    by (simp add: destroy_begin_def graceful_shutdown_def sample_pool_def tp_new_def tp_err_def)
  from destroy_twice_blocks [OF 1 l 2, of "(tp_init 1 sample_pool)\<lparr>tps_pool := ?p1\<lparr>tp_locked := True\<rparr>\<rparr>" 0 1]
  have "destroy_begin 1 0 0 0 (?p1\<lparr>tp_locked := True\<rparr>) = None" by (simp add: tp_init_def)
  with 1 2 show ?thesis by (auto simp: tp_init_def)
qed

section \<open>The rings\<close>



end
