(* ===== verification/GroupServer.thy ===== *)
theory GroupServer
  imports DataPool StdMap
begin

text \<open>
  The group chat server of include/server.h and src/server.cpp: one thread receives datagrams, keeps
  the list of who is online and puts each message into the pool; the other takes messages out and
  sends each to everyone on the list. The JSON library is not part of the repository: \<open>de\<close>, what
  \<open>Info::DeSerialize\<close> makes of a string, is an argument of everything that uses it.
\<close>

section \<open>Messages of include/info.h\<close>

record info =
  in_userName :: block
  in_school :: block
  in_message :: block
  in_token :: block

text \<open>
  \<open>Serialize\<close> stores the four fields under their names in a JSON object and writes it to a string;
  \<open>DeSerialize\<close> reads an object from a string and takes the four fields. \<open>write\<close> and \<open>read\<close> are the
  library's two functions on objects, which are maps from names to values.
\<close>

type_synonym json = "string \<Rightarrow> block option"

definition Serialize :: "(json \<Rightarrow> block) \<Rightarrow> info \<Rightarrow> block" where
  "Serialize write i = write [''_userName'' \<mapsto> in_userName i, ''_school'' \<mapsto> in_school i,
     ''_message'' \<mapsto> in_message i, ''_token'' \<mapsto> in_token i]"

text \<open>A missing field reads as what the library returns for one, \<open>missing\<close>.\<close>

definition json_field :: "block \<Rightarrow> json \<Rightarrow> string \<Rightarrow> block" where
  "json_field missing root k = (case root k of None \<Rightarrow> missing | Some v \<Rightarrow> v)"

definition DeSerialize :: "(block \<Rightarrow> json) \<Rightarrow> block \<Rightarrow> block \<Rightarrow> info" where
  "DeSerialize read missing b =
     (let root = read b in
      \<lparr>in_userName = json_field missing root ''_userName'', in_school = json_field missing root ''_school'',
       in_message = json_field missing root ''_message'', in_token = json_field missing root ''_token''\<rparr>)"

lemma DeSerialize_Serialize:
  assumes "\<And>root. dom root = {''_userName'', ''_school'', ''_message'', ''_token''} \<Longrightarrow> read (write root) = root"
  shows "DeSerialize read missing (Serialize write i) = i"
proof -
  have "read (Serialize write i) = [''_userName'' \<mapsto> in_userName i, ''_school'' \<mapsto> in_school i,
     ''_message'' \<mapsto> in_message i, ''_token'' \<mapsto> in_token i]"
    unfolding Serialize_def by (rule assms) auto
  then show ?thesis by (simp add: DeSerialize_def json_field_def)
qed

section \<open>The server\<close>

record sockaddr =
  sa_ip :: "32 word"
  sa_port :: "16 word"

record gserver =
  gs_pool :: datapool
  gs_online :: "(32 word, sockaddr) smap"

text \<open>
  \<open>Server(port)\<close> constructs its pool with \<open>DataPool()\<close>. \<open>gserver_with\<close> is the server with a given
  pool.
\<close>

definition gserver_with :: "datapool \<Rightarrow> gserver" where
  "gserver_with p = \<lparr>gs_pool = p, gs_online = []\<rparr>"

definition Server :: "int \<Rightarrow> int \<Rightarrow> int \<Rightarrow> nat \<Rightarrow> nat \<Rightarrow> gserver" where
  "Server jcap jcons jprod jblank jdata = gserver_with (DataPool_default jcap jcons jprod jblank jdata)"

definition MAXLEN :: nat where
  "MAXLEN = 1024"

text \<open>What \<open>strInfo = buffer\<close> makes of \<open>rs\<close> bytes received and the 0 stored after them.\<close>

definition c_string :: "block \<Rightarrow> block" where
  "c_string b = takeWhile (\<lambda>c. c \<noteq> 0) b"

text \<open>\<open>recvData\<close> for one datagram; \<open>None\<close> while the pool is full.\<close>

definition srv_recvData :: "(block \<Rightarrow> info) \<Rightarrow> block \<Rightarrow> sockaddr \<Rightarrow> gserver \<Rightarrow> (gserver option) res" where
  "srv_recvData de dgram peer s =
     (let buffer = take (MAXLEN - 1) dgram in
      if buffer = [] then Inr (Some s)
      else let strInfo = c_string buffer in
        rbind (putMessage strInfo (gs_pool s)) (\<lambda>r. case r of None \<Rightarrow> Inr None
          | Some p \<Rightarrow> let s = s\<lparr>gs_pool := p\<rparr> in
              Inr (Some (if in_token (de strInfo) = str_bytes ''quit''
                then s\<lparr>gs_online := map_del (sa_ip peer) (gs_online s)\<rparr>
                else s\<lparr>gs_online := map_ins (sa_ip peer) peer (gs_online s)\<rparr>))))"

definition srv_sendData :: "block \<Rightarrow> sockaddr \<Rightarrow> sockaddr \<times> block" where
  "srv_sendData strInfo peer = (peer, strInfo)"

text \<open>\<open>broadCast\<close>: the datagrams sent, in the order of the list.\<close>

definition broadCast :: "gserver \<Rightarrow> (((sockaddr \<times> block) list \<times> gserver) option) res" where
  "broadCast s =
     rbind (getMessage (gs_pool s)) (\<lambda>r. Inr (map_option (\<lambda>(data, p).
       (map (\<lambda>(_, peer). srv_sendData data peer) (gs_online s), s\<lparr>gs_pool := p\<rparr>)) r))"

end
