(* ===== verification/GroupClient.thy ===== *)
theory GroupClient
  imports GroupServer
begin

text \<open>
  The group chat client of include/client.h, include/version.h and src/client.cpp: a thread that sends
  what is typed, one that shows what is received and who is online, and one that moves the title. The
  windows of the ncurses library are kept as the lines put into them since they were drawn.
\<close>

section \<open>Datagrams of include/client.h\<close>

text \<open>\<open>recvData\<close> leaves the string as it is when nothing was received.\<close>

definition cli_recvData :: "block \<Rightarrow> block \<Rightarrow> block" where
  "cli_recvData dgram strInfo =
     (let buffer = take (MAXLEN - 1) dgram in if buffer = [] then strInfo else c_string buffer)"

definition cli_sendData :: "block \<Rightarrow> block" where
  "cli_sendData strInfo = strInfo"

section \<open>The list of users online\<close>

fun AddUser :: "block \<Rightarrow> block list \<Rightarrow> block list" where
  "AddUser f [] = [f]"
| "AddUser f (u # us) = (if u = f then u # us else u # AddUser f us)"

fun DelUser :: "block \<Rightarrow> block list \<Rightarrow> block list" where
  "DelUser f [] = []"
| "DelUser f (u # us) = (if u = f then us else u # DelUser f us)"

lemma set_AddUser [simp]: "set (AddUser f us) = insert f (set us)"
  by (induction f us rule: AddUser.induct) auto

lemma AddUser_present: "f \<in> set us \<Longrightarrow> AddUser f us = us"
  by (induction f us rule: AddUser.induct) auto

lemma AddUser_new: "f \<notin> set us \<Longrightarrow> AddUser f us = us @ [f]"
  by (induction f us rule: AddUser.induct) auto

lemma distinct_AddUser: "distinct us \<Longrightarrow> distinct (AddUser f us)"
  by (induction f us rule: AddUser.induct) auto

lemma set_DelUser: "distinct us \<Longrightarrow> set (DelUser f us) = set us - {f}"
  by (induction f us rule: DelUser.induct) auto

lemma set_DelUser_subset: "set (DelUser f us) \<subseteq> set us"
  by (induction f us rule: DelUser.induct) auto

lemma distinct_DelUser: "distinct us \<Longrightarrow> distinct (DelUser f us)"
proof (induction f us rule: DelUser.induct)
  case (2 f u us)
  then show ?case using set_DelUser_subset [of f us] by auto
qed simp

section \<open>The three threads\<close>

text \<open>
  \<^item> \<open>gc_name\<close>, \<open>gc_school\<close>: what the user gave at the start; \<open>gc_string\<close>: \<open>out_string\<close> of the
    receiving thread; \<open>gc_i\<close>, \<open>gc_y\<close>: its row and the height it knows, not initialised;
  \<^item> \<open>gc_output\<close>, \<open>gc_onlinewin\<close>: rows and lines in the two windows; \<open>gc_list\<close>: the users online;
    \<open>gc_quit\<close>: \<open>is_quit\<close>.
\<close>

record gclient =
  gc_name :: block
  gc_school :: block
  gc_string :: block
  gc_i :: int
  gc_y :: int
  gc_output :: "(int \<times> block) list"
  gc_onlinewin :: "(int \<times> block) list"
  gc_list :: "block list"
  gc_quit :: bool

definition gclient_init :: "block \<Rightarrow> block \<Rightarrow> int \<Rightarrow> gclient" where
  "gclient_init name school jy =
     \<lparr>gc_name = name, gc_school = school, gc_string = [], gc_i = 1, gc_y = jy, gc_output = [],
      gc_onlinewin = [], gc_list = [], gc_quit = False\<rparr>"

text \<open>\<open>RunInput\<close>: the datagram for a line typed into the window, which holds at most 1024 bytes.\<close>

definition RunInput_iter :: "(info \<Rightarrow> block) \<Rightarrow> block \<Rightarrow> gclient \<Rightarrow> block" where
  "RunInput_iter ser str c =
     cli_sendData (ser \<lparr>in_userName = gc_name c, in_school = gc_school c,
       in_message = str, in_token = str_bytes ''None''\<rparr>)"

definition SendQuit :: "(info \<Rightarrow> block) \<Rightarrow> gclient \<Rightarrow> block \<times> gclient" where
  "SendQuit ser c =
     (cli_sendData (ser \<lparr>in_userName = gc_name c, in_school = gc_school c,
        in_message = str_bytes ''None'', in_token = str_bytes ''quit''\<rparr>), c\<lparr>gc_quit := True\<rparr>)"

text \<open>\<open>RunOutputOnline\<close> for one datagram; \<open>rows\<close> is the height of the window.\<close>

definition user_label :: "info \<Rightarrow> block" where
  "user_label d = in_userName d @ str_bytes ''-'' @ in_school d"

definition show_info :: "int \<Rightarrow> info \<Rightarrow> gclient \<Rightarrow> gclient" where
  "show_info rows d c =
     (if in_token d = str_bytes ''quit'' then c\<lparr>gc_list := DelUser (user_label d) (gc_list c)\<rparr>
      else let c = c\<lparr>gc_list := AddUser (user_label d) (gc_list c)\<rparr>;
               line = user_label d @ str_bytes '': '' @ in_message d;
               c = (if gc_i c > gc_y c - 2 then c\<lparr>gc_i := 1, gc_output := []\<rparr> else c)
           in c\<lparr>gc_y := rows, gc_output := gc_output c @ [(gc_i c, line)], gc_i := gc_i c + 1\<rparr>)"

definition RunOutputOnline_iter :: "(block \<Rightarrow> info) \<Rightarrow> int \<Rightarrow> block \<Rightarrow> gclient \<Rightarrow> gclient" where
  "RunOutputOnline_iter de rows dgram c =
     (let str = cli_recvData dgram (gc_string c);
          c = show_info rows (de str) (c\<lparr>gc_string := str\<rparr>)
      in c\<lparr>gc_onlinewin := zip (map (\<lambda>j. int j + 1) [0..<length (gc_list c)]) (gc_list c)\<rparr>)"

text \<open>
  \<open>RunHeader\<close>: the column and the direction of the title, on 64-bit unsigned numbers; \<open>x\<close> is the width
  of the window and \<open>n\<close> the length of the title.
\<close>

definition RunHeader_iter :: "64 word \<Rightarrow> 64 word \<Rightarrow> 64 word \<times> int \<Rightarrow> 64 word \<times> int" where
  "RunHeader_iter x n st =
     (case st of (i, dir) \<Rightarrow>
        let dir = (if i \<ge> x - n - 3 then 1 else dir);
            dir = (if i \<le> 4 then 0 else dir)
        in (if dir = 0 then i + 1 else i - 1, dir))"

section \<open>The windows of include/version.h\<close>

text \<open>A window is its height, width and the row and column of its corner; \<open>ln\<close> and \<open>co\<close> are \<open>LINES\<close> and \<open>COLS\<close>.\<close>

record window =
  w_h :: int
  w_w :: int
  w_y :: int
  w_x :: int

definition drawHeader :: "int \<Rightarrow> int \<Rightarrow> window" where
  "drawHeader ln co = \<lparr>w_h = ln sdiv 5, w_w = co, w_y = 0, w_x = 0\<rparr>"

definition drawOutput :: "int \<Rightarrow> int \<Rightarrow> window" where
  "drawOutput ln co = \<lparr>w_h = ln * 3 sdiv 5, w_w = co * 3 sdiv 4, w_y = ln sdiv 5, w_x = 0\<rparr>"

definition drawInput :: "int \<Rightarrow> int \<Rightarrow> window" where
  "drawInput ln co = \<lparr>w_h = ln sdiv 5, w_w = co * 3 sdiv 4, w_y = ln * 4 sdiv 5, w_x = 0\<rparr>"

definition drawOnline :: "int \<Rightarrow> int \<Rightarrow> window" where
  "drawOnline ln co = \<lparr>w_h = ln * 4 sdiv 5, w_w = co * 1 sdiv 4, w_y = ln sdiv 5, w_x = co * 3 sdiv 4\<rparr>"

definition in_window :: "int \<Rightarrow> int \<Rightarrow> window \<Rightarrow> bool" where
  "in_window y x w \<longleftrightarrow> w_y w \<le> y \<and> y < w_y w + w_h w \<and> w_x w \<le> x \<and> x < w_x w + w_w w"

end
