(* ===== verification/GroupProps.thy ===== *)
theory GroupProps
  imports GroupClient
begin

text \<open>
  Properties of the group chat: a message from the window of one client to the windows of all, the
  users online, the server as it is constructed, and the layout of the screen.
\<close>

section \<open>A message\<close>



text \<open>What a client shows of a datagram.\<close>

lemma shown_by_client:
  assumes "0 \<notin> set d" "d \<noteq> []" "length d < MAXLEN"
  shows "RunOutputOnline_iter de rows d c =
    (let c = show_info rows (de d) (c\<lparr>gc_string := d\<rparr>)
     in c\<lparr>gc_onlinewin := zip (map (\<lambda>j. int j + 1) [0..<length (gc_list c)]) (gc_list c)\<rparr>)"
proof -
  have t: "take (MAXLEN - 1) d = d" using assms(3) by (simp add: MAXLEN_def)
  have c: "c_string d = d" using assms(1) by (auto simp: c_string_def takeWhile_eq_all_conv)
  show ?thesis
    using assms(2) unfolding RunOutputOnline_iter_def cli_recvData_def t Let_def by (simp add: c)
qed


text \<open>
  An instance of the library on objects with the four fields of the messages: each byte of a value is
  written after a 1, and the value ends with a 2.
\<close>

fun value_enc :: "block \<Rightarrow> block" where
  "value_enc [] = [2]"
| "value_enc (b # v) = 1 # b # value_enc v"

fun value_dec :: "block \<Rightarrow> block \<times> block" where
  "value_dec (x # b # r) = (if x = 1 then (case value_dec r of (v, r) \<Rightarrow> (b # v, r)) else ([], b # r))"
| "value_dec _ = ([], [])"

lemma value_dec_enc: "value_dec (value_enc v @ r) = (v, r)"
  by (induction v) (cases r, auto)

definition sample_write :: "json \<Rightarrow> block" where
  "sample_write root =
     value_enc (the (root ''_userName'')) @ value_enc (the (root ''_school'')) @
     value_enc (the (root ''_message'')) @ value_enc (the (root ''_token''))"

definition sample_read :: "block \<Rightarrow> json" where
  "sample_read b =
     (let (u, b) = value_dec b; (sc, b) = value_dec b; (m, b) = value_dec b; (t, b) = value_dec b
      in [''_userName'' \<mapsto> u, ''_school'' \<mapsto> sc, ''_message'' \<mapsto> m, ''_token'' \<mapsto> t])"

lemma sample_read_write:
  assumes "dom root = {''_userName'', ''_school'', ''_message'', ''_token''}"
  shows "sample_read (sample_write root) = root"
proof
  fix k
  have last: "value_dec (value_enc v) = (v, [])" for v
    using value_dec_enc [of v "[]"] by simp
  have "root j \<noteq> None" if "j \<in> {''_userName'', ''_school'', ''_message'', ''_token''}" for j
    using that unfolding assms [symmetric] by auto
  moreover have "root k = None" if "k \<notin> {''_userName'', ''_school'', ''_message'', ''_token''}"
    using that unfolding assms [symmetric] by auto
  ultimately show "sample_read (sample_write root) k = root k"
    by (auto simp: sample_read_def sample_write_def value_dec_enc last)
qed

definition sample_client :: gclient where
  "sample_client = gclient_init [65] [66] 0"

definition sample_datagram :: block where
  "sample_datagram = RunInput_iter (Serialize sample_write) [67] sample_client"

lemma sample_datagram_ok: "0 \<notin> set sample_datagram \<and> sample_datagram \<noteq> [] \<and> length sample_datagram < MAXLEN"
  by (simp add: sample_datagram_def RunInput_iter_def cli_sendData_def Serialize_def sample_write_def
      sample_client_def gclient_init_def str_bytes_def of_char_def MAXLEN_def)


text \<open>C32: The server as its constructor leaves it has a pool without a place: a datagram that is not
  empty is lost with the thread that got it (a write outside the vector, or a wait nobody ends), and a
  thread that takes a message waits or reads outside the vector, whatever was in the memory of the pool.\<close>

theorem server_first_message_fails:
  assumes "dgram \<noteq> []"
  shows "srv_recvData de dgram peer (Server jcap jcons jprod jblank jdata) \<in> {Inr None, Inl OutOfBounds} \<and>
    broadCast (Server jcap jcons jprod jblank jdata) \<in> {Inr None, Inl OutOfBounds} \<and>
    (0 < jblank \<longrightarrow> srv_recvData de dgram peer (Server jcap jcons jprod jblank jdata) = Inl OutOfBounds)"
  using assms
  by (auto simp: srv_recvData_def broadCast_def Server_def gserver_with_def DataPool_default_def Let_def
      MAXLEN_def putMessage_def getMessage_def put_wait_def get_wait_def put_store_def get_take_def
      sem_wait_def)

theorem server_first_message_fails_witness:
  "srv_recvData (DeSerialize sample_read []) [65] \<lparr>sa_ip = 7, sa_port = 8\<rparr> (Server 0 0 0 1 0) = Inl OutOfBounds"
  using server_first_message_fails [of "[65]"] by simp

section \<open>The users online\<close>

text \<open>The users online by the messages: a message enters its user, a quit removes it.\<close>

definition online_after :: "info list \<Rightarrow> block set \<Rightarrow> block set" where
  "online_after ms us = fold (\<lambda>i us. if in_token i = str_bytes ''quit'' then us - {user_label i}
     else insert (user_label i) us) ms us"

definition shown_list :: "block list \<Rightarrow> (int \<times> block) list" where
  "shown_list us = zip (map (\<lambda>j. int j + 1) [0..<length us]) us"

lemma show_info_list: "gc_list (show_info rows d c) =
   (if in_token d = str_bytes ''quit'' then DelUser (user_label d) (gc_list c) else AddUser (user_label d) (gc_list c))"
  by (simp add: show_info_def Let_def)

lemma RunOutputOnline_list:
  assumes "0 \<notin> set d" "d \<noteq> []" "length d < MAXLEN"
  shows "gc_list (RunOutputOnline_iter de rows d c) =
      (if in_token (de d) = str_bytes ''quit'' then DelUser (user_label (de d)) (gc_list c)
       else AddUser (user_label (de d)) (gc_list c)) \<and>
    gc_onlinewin (RunOutputOnline_iter de rows d c) = shown_list (gc_list (RunOutputOnline_iter de rows d c))"
  unfolding shown_by_client [OF assms] by (simp add: Let_def show_info_list shown_list_def)

text \<open>The client's list of users is well formed and complete whatever messages come in: no user is
  in it twice, its members are those whose last message was not a quit, and the window shows them in
  the rows from 1 on.\<close>

theorem online_list_well_formed:
  assumes "distinct (gc_list c)" "gc_onlinewin c = shown_list (gc_list c)"
    and "\<forall>d \<in> set ds. 0 \<notin> set d \<and> d \<noteq> [] \<and> length d < MAXLEN"
  shows "let r = fold (RunOutputOnline_iter de rows) ds c in
    distinct (gc_list r) \<and> set (gc_list r) = online_after (map de ds) (set (gc_list c)) \<and>
    gc_onlinewin r = shown_list (gc_list r)"
  using assms
proof (induction ds arbitrary: c)
  case Nil
  then show ?case by (simp add: online_after_def)
next
  case (Cons d ds)
  let ?c = "RunOutputOnline_iter de rows d c"
  have l: "gc_list ?c = (if in_token (de d) = str_bytes ''quit'' then DelUser (user_label (de d)) (gc_list c)
       else AddUser (user_label (de d)) (gc_list c))" "gc_onlinewin ?c = shown_list (gc_list ?c)"
    using RunOutputOnline_list [of d de rows c] Cons.prems(3) by simp_all
  have "distinct (gc_list ?c)" unfolding l(1) using Cons.prems(1) by (simp add: distinct_AddUser distinct_DelUser)
  moreover have "online_after (map de ds) (set (gc_list ?c)) = online_after (map de (d # ds)) (set (gc_list c))"
    unfolding l(1) using Cons.prems(1) by (simp add: online_after_def set_DelUser)
  ultimately show ?case using Cons.IH [of ?c] l(2) Cons.prems(3) by (simp add: Let_def)
qed

theorem online_list_well_formed_witness:
  "gc_list (fold (RunOutputOnline_iter (DeSerialize sample_read []) 20) [sample_datagram, sample_datagram] sample_client) =
     [[65, 45, 66]] \<and>
   distinct (gc_list (fold (RunOutputOnline_iter (DeSerialize sample_read []) 20) [sample_datagram, sample_datagram] sample_client))"
proof -
  let ?r = "fold (RunOutputOnline_iter (DeSerialize sample_read []) 20) [sample_datagram, sample_datagram] sample_client"
  have "DeSerialize sample_read [] sample_datagram =
      \<lparr>in_userName = [65], in_school = [66], in_message = [67], in_token = str_bytes ''None''\<rparr>"
    unfolding sample_datagram_def RunInput_iter_def cli_sendData_def
    using DeSerialize_Serialize [OF sample_read_write] by (simp add: sample_client_def gclient_init_def)
  then have "online_after (map (DeSerialize sample_read []) [sample_datagram, sample_datagram]) (set (gc_list sample_client)) =
      {[65, 45, 66]}"
    by (simp add: online_after_def sample_client_def gclient_init_def user_label_def str_bytes_def of_char_def)
  then have r: "distinct (gc_list ?r)" "set (gc_list ?r) = {[65, 45, 66]}"
    using online_list_well_formed [of sample_client "[sample_datagram, sample_datagram]" "DeSerialize sample_read []" 20]
      sample_datagram_ok
    by (simp_all add: Let_def sample_client_def gclient_init_def shown_list_def)
  then have "length (gc_list ?r) = 1" using distinct_card [OF r(1)] by simp
  then obtain u where "gc_list ?r = [u]" by (cases "gc_list ?r") auto
  then show ?thesis using r by auto
qed

section \<open>The screen\<close>

text \<open>The four windows lie on the screen, and no two of them have a cell in common.\<close>

lemma sdiv_pos: "0 \<le> a \<Longrightarrow> 0 < b \<Longrightarrow> a sdiv b = a div (b::int)"
  by (cases "a = 0") (simp_all add: signed_divide_int_def)

lemmas windows = drawHeader_def drawOutput_def drawInput_def drawOnline_def in_window_def

lemma windows_on_screen:
  assumes "0 < ln" "0 < co" "w \<in> {drawHeader ln co, drawOutput ln co, drawInput ln co, drawOnline ln co}"
  shows "0 \<le> w_y w \<and> w_y w + w_h w \<le> ln \<and> 0 \<le> w_x w \<and> w_x w + w_w w \<le> co"
  using assms by (elim insertE) (simp_all add: windows sdiv_pos, linarith+)

lemma windows_disjoint:
  assumes "0 < ln" "0 < co"
  shows "in_window y x (drawHeader ln co) \<Longrightarrow> \<not> in_window y x (drawOutput ln co) \<and>
      \<not> in_window y x (drawInput ln co) \<and> \<not> in_window y x (drawOnline ln co)"
    and "in_window y x (drawOutput ln co) \<Longrightarrow> \<not> in_window y x (drawInput ln co) \<and>
      \<not> in_window y x (drawOnline ln co)"
    and "in_window y x (drawInput ln co) \<Longrightarrow> \<not> in_window y x (drawOnline ln co)"
  using assms by (simp_all add: windows sdiv_pos, linarith+)

text \<open>The title in its window, which is \<open>x\<close> columns wide and must leave 8 of them beside the title.\<close>

definition title_at :: "64 word \<Rightarrow> 64 word \<Rightarrow> nat \<Rightarrow> 64 word \<times> int" where
  "title_at x n k = (RunHeader_iter x n ^^ k) (1, 0)"

lemma title_step:
  assumes "unat n + 8 \<le> unat x" "1 \<le> i" "unat i + unat n + 3 \<le> unat x"
    and "RunHeader_iter x n (i, dir) = (i', dir')"
  shows "1 \<le> i' \<and> unat i' + unat n + 3 \<le> unat x"
proof -
  have "n \<le> x" using assms(1) by (simp add: word_le_nat_alt)
  then have n: "unat (x - n) = unat x - unat n" by (simp add: unat_sub)
  have "3 \<le> x - n" using assms(1) n by (simp add: word_le_nat_alt)
  then have m: "unat (x - n - 3) = unat x - unat n - 3" using n by (simp add: unat_sub)
  have x: "unat x < 2 ^ 64" using unsigned_less [of x] by simp
  have up: "unat (i + 1) = unat i + 1" if "\<not> x - n - 3 \<le> i \<or> i \<le> 4"
    using that assms(1,3) m x by (auto simp: word_le_nat_alt unat_word_ariths)
  have down: "unat (i - 1) = unat i - 1" using assms(2) by (simp add: unat_sub)
  show ?thesis
    using assms up down m
    by (auto simp: RunHeader_iter_def Let_def word_le_nat_alt split: if_splits)
qed

lemma title_fits:
  assumes "unat n + 8 \<le> unat x"
  shows "1 \<le> fst (title_at x n k) \<and> unat (fst (title_at x n k)) + unat n + 3 \<le> unat x"
proof (induction k)
  case 0
  then show ?case using assms by (simp add: title_at_def)
next
  case (Suc k)
  obtain i dir where "title_at x n k = (i, dir)" by force
  moreover obtain i' dir' where "RunHeader_iter x n (i, dir) = (i', dir')" by force
  ultimately show ?case using title_step [OF assms, of i dir i' dir'] Suc by (simp add: title_at_def)
qed

lemma title_leaves_aux:
  assumes "unat x < unat n + 3" "unat x < 2 ^ 31" "unat n < 2 ^ 31" "k < 2 ^ 62"
  shows "title_at x n k = (word_of_nat (Suc k), 0)"
  using assms(4)
proof (induction k)
  case 0
  then show ?case by (simp add: title_at_def)
next
  case (Suc k)
  have n: "unat (n + 3) = unat n + 3" using assms(3) by (simp add: unat_word_ariths)
  have "unat (x - (n + 3)) = unat x + 2 ^ 64 - (unat n + 3)"
    using assms(1) by (simp add: unat_sub_if_size n word_size)
  moreover have "unat (word_of_nat (Suc k) :: 64 word) = Suc k"
    using Suc.prems by (simp add: unat_of_nat del: of_nat_Suc)
  ultimately have far: "\<not> x - n - 3 \<le> (word_of_nat (Suc k) :: 64 word)"
    using Suc.prems assms(3) by (simp add: word_le_nat_alt diff_diff_eq)
  show ?case using Suc far by (simp add: title_at_def RunHeader_iter_def Let_def)
qed

text \<open>In a window with eight columns more than the title it always stays between the left edge and
  two columns from the right one, whatever the number of moves; in a window that is too narrow the
  unsigned difference wraps around, and it moves to the right without end.\<close>

theorem title_in_window:
  shows "(unat n + 8 \<le> unat x \<longrightarrow>
      1 \<le> fst (title_at x n k) \<and> unat (fst (title_at x n k)) + unat n \<le> unat x - 3) \<and>
    (unat x < unat n + 3 \<and> unat x < 2 ^ 31 \<and> unat n < 2 ^ 31 \<and> k < 2 ^ 62 \<longrightarrow>
      unat (fst (title_at x n k)) = Suc k)"
proof -
  have "unat (word_of_nat (Suc k) :: 64 word) = Suc k" if "k < 2 ^ 62"
    using that by (simp add: unat_of_nat del: of_nat_Suc)
  then show ?thesis using title_fits [of n x k] title_leaves_aux [of x n k] by auto
qed

theorem title_in_window_witness:
  "unat (fst (title_at 80 22 1000)) \<le> 55 \<and> unat (fst (title_at 20 22 1000)) = 1001"
  using title_in_window [of 22 80 1000] title_in_window [of 22 20 1000] by simp

end
