(* ===== verification/EchoServer.thy ===== *)
theory EchoServer
  imports Kernel "HOL-Library.Signed_Division"
begin

text \<open>
  The echo server of src/echoserver.cpp: one non-blocking connection per client with a growing buffer,
  served by an edge-triggered epoll loop that reads all there is and writes it back.
\<close>

section \<open>A connection\<close>

text \<open>
  A connected socket as one call of the handler finds it: the bytes received, whether the peer has
  closed its side, whether a read (a write) that finds nothing (no room) fails with another error than
  \<open>EAGAIN\<close>, and how many bytes the next calls of \<open>write\<close> will take before there is no room.
\<close>

record echo_sock =
  sk_rx :: block
  sk_eof :: bool
  sk_rerr :: bool
  sk_room :: "nat list"
  sk_werr :: bool

record conn =
  cn_buffer :: block
  cn_alloced :: nat
  cn_head :: nat
  cn_tail :: nat
  cn_readOfEnd :: bool
  cn_error :: bool

text \<open>\<open>jk\<close> is what a fresh byte of memory holds.\<close>

definition conn_new :: "byte \<Rightarrow> conn" where
  "conn_new jk = \<lparr>cn_buffer = replicate 32 jk, cn_alloced = 32, cn_head = 0, cn_tail = 0,
     cn_readOfEnd = False, cn_error = False\<rparr>"

text \<open>The part of \<open>read\<close> before the system call: a larger buffer or one moved to the front.\<close>

definition conn_room :: "byte \<Rightarrow> conn \<Rightarrow> conn" where
  "conn_room jk c =
     (if cn_alloced c - cn_tail c < 64 then
        if cn_alloced c - (cn_tail c - cn_head c) < 128
        then c\<lparr>cn_alloced := cn_alloced c * 2,
               cn_buffer := cn_buffer c @ replicate (cn_alloced c * 2 - length (cn_buffer c)) jk\<rparr>
        else c\<lparr>cn_buffer := blit 0 (cells (cn_head c) (cn_tail c - cn_head c) (cn_buffer c)) (cn_buffer c),
               cn_tail := cn_tail c - cn_head c, cn_head := 0\<rparr>
      else c)"

definition k_read :: "nat \<Rightarrow> echo_sock \<Rightarrow> int \<times> block \<times> echo_sock" where
  "k_read n s =
     (if sk_rx s = [] \<and> sk_rerr s then (- 1, [], s)
      else case k_recv (int n) (sk_rx s) (sk_eof s) of (r, d, rx) \<Rightarrow> (r, d, s\<lparr>sk_rx := rx\<rparr>))"

text \<open>\<open>read\<close>: the loop may not end.\<close>

partial_function (option) conn_read :: "byte \<Rightarrow> echo_sock \<Rightarrow> conn \<Rightarrow> (conn \<times> echo_sock) option" where
  "conn_read jk s c =
     (let c = conn_room jk c in
      case k_read (cn_alloced c - cn_tail c) s of (n, d, s) \<Rightarrow>
        if n < 0 then Some (if sk_rerr s then c\<lparr>cn_error := True\<rparr> else c, s)
        else let c = (if n = 0 then c\<lparr>cn_readOfEnd := True\<rparr> else c)
             in conn_read jk s (c\<lparr>cn_buffer := blit (cn_tail c) d (cn_buffer c), cn_tail := cn_tail c + nat n\<rparr>))"

text \<open>\<open>write\<close>: what it returns, the connection and the bytes written.\<close>

fun conn_write :: "nat list \<Rightarrow> bool \<Rightarrow> conn \<Rightarrow> int \<times> conn \<times> block" where
  "conn_write [] werr c =
     (if cn_head c < cn_tail c \<and> werr then (- 1, c\<lparr>cn_error := True\<rparr>, [])
      else (int (cn_tail c - cn_head c), c, []))"
| "conn_write (k # ks) werr c =
     (if cn_head c < cn_tail c
      then let n = min k (cn_tail c - cn_head c);
               d = cells (cn_head c) n (cn_buffer c)
           in (case conn_write ks werr (c\<lparr>cn_head := cn_head c + n\<rparr>) of (r, c, ds) \<Rightarrow> (r, c, d @ ds))
      else (int (cn_tail c - cn_head c), c, []))"

definition conn_handle :: "byte \<Rightarrow> echo_sock \<Rightarrow> conn \<Rightarrow> (conn \<times> block) option" where
  "conn_handle jk s c =
     (if cn_error c then Some (c, [])
      else case conn_read jk s c of None \<Rightarrow> None
        | Some (c, s) \<Rightarrow> if cn_error c then Some (c, [])
            else case conn_write (sk_room s) (sk_werr s) c of (r, c, d) \<Rightarrow> Some (c, d))"

definition conn_done :: "conn \<Rightarrow> bool" where
  "conn_done c \<longleftrightarrow> cn_error c \<or> (cn_readOfEnd c \<and> cn_tail c - cn_head c \<noteq> 0)"

section \<open>The loop of main\<close>

text \<open>
  The connections are known by their addresses, which are also what epoll hands back. A deleted
  connection is removed from epoll but its socket is not closed (\<open>es_open\<close> are the sockets open).
\<close>

record echo_server =
  es_conns :: "nat \<rightharpoonup> conn"
  es_sock :: "nat \<rightharpoonup> int"
  es_open :: "int set"
  es_proc :: "64 word"
  es_tv :: "int \<times> int"
  es_tv_prev :: "int \<times> int"
  es_sent :: "(nat \<times> block) list"

datatype echo_event = Incoming int nat | Ready nat echo_sock

text \<open>One event of \<open>epoll_wait\<close>; \<open>None\<close> if the handler never returns.\<close>

definition echo_accept :: "byte \<Rightarrow> int \<Rightarrow> nat \<Rightarrow> echo_server \<Rightarrow> echo_server" where
  "echo_accept jk client p s =
     (if client < 0 then s
      else s\<lparr>es_conns := (es_conns s)(p \<mapsto> conn_new jk), es_sock := (es_sock s)(p \<mapsto> client),
             es_open := insert client (es_open s)\<rparr>)"

definition echo_ready :: "byte \<Rightarrow> nat \<Rightarrow> echo_sock \<Rightarrow> echo_server \<Rightarrow> (echo_server res) option" where
  "echo_ready jk p k s = (case es_conns s p of None \<Rightarrow> Some (Inl UseAfterFree)
     | Some c \<Rightarrow> map_option (\<lambda>(c, d).
         let s = s\<lparr>es_proc := es_proc s + 1, es_sent := es_sent s @ [(p, d)]\<rparr>
         in Inr (if conn_done c then s\<lparr>es_conns := (es_conns s)(p := None)\<rparr>
                 else s\<lparr>es_conns := (es_conns s)(p \<mapsto> c)\<rparr>)) (conn_handle jk k c))"

fun echo_events :: "byte \<Rightarrow> echo_event list \<Rightarrow> echo_server \<Rightarrow> (echo_server res) option" where
  "echo_events jk [] s = Some (Inr s)"
| "echo_events jk (Incoming client p # es) s = echo_events jk es (echo_accept jk client p s)"
| "echo_events jk (Ready p k # es) s = (case echo_ready jk p k s of
     Some (Inr s) \<Rightarrow> echo_events jk es s | r \<Rightarrow> r)"

text \<open>\<open>timersub\<close>, and the statistics after 100000 requests; \<open>now\<close> is what \<open>gettimeofday\<close> gives.\<close>

definition timersub :: "int \<times> int \<Rightarrow> int \<times> int \<Rightarrow> int \<times> int" where
  "timersub a b =
     (let sec = fst a - fst b; usec = snd a - snd b
      in if usec < 0 then (sec - 1, usec + 1000000) else (sec, usec))"

definition echo_stats :: "int \<times> int \<Rightarrow> echo_server \<Rightarrow> ((int \<times> int) option \<times> echo_server) res" where
  "echo_stats now s =
     (if es_proc s > 100000 then
        let s = s\<lparr>es_proc := 0, es_tv := now\<rparr>;
            prev = timersub (es_tv s) (es_tv_prev s);
            d = fst prev * 1000 + snd prev sdiv 1000
        in if d = 0 then Inl DivByZero
           else Inr (Some (d, 100000 * 1000 sdiv d), s\<lparr>es_tv_prev := es_tv s\<rparr>)
      else Inr (None, s))"

definition echo_round :: "byte \<Rightarrow> echo_event list \<Rightarrow> int \<times> int \<Rightarrow> echo_server \<Rightarrow> (echo_server res) option" where
  "echo_round jk evs now s = (case echo_events jk evs s of
     Some (Inr s) \<Rightarrow> Some (rbind (echo_stats now s) (\<lambda>(_, s). Inr s)) | r \<Rightarrow> r)"

definition echo_start :: "int \<Rightarrow> int \<times> int \<Rightarrow> echo_server" where
  "echo_start lsock jtv =
     \<lparr>es_conns = Map.empty, es_sock = Map.empty, es_open = {lsock}, es_proc = 0, es_tv = jtv, es_tv_prev = jtv,
      es_sent = []\<rparr>"

section \<open>The buffer of a connection\<close>

definition conn_pending :: "conn \<Rightarrow> block" where
  "conn_pending c = cells (cn_head c) (cn_tail c - cn_head c) (cn_buffer c)"

definition conn_ok :: "conn \<Rightarrow> bool" where
  "conn_ok c \<longleftrightarrow> length (cn_buffer c) = cn_alloced c \<and> cn_head c \<le> cn_tail c \<and> cn_tail c \<le> cn_alloced c \<and>
     32 \<le> cn_alloced c"

lemma conn_ok_new: "conn_ok (conn_new jk)" "conn_pending (conn_new jk) = []"
  by (simp_all add: conn_ok_def conn_new_def conn_pending_def)

lemma length_conn_pending: "conn_ok c \<Longrightarrow> length (conn_pending c) = cn_tail c - cn_head c"
  by (auto simp: conn_pending_def conn_ok_def)

lemma take_blit_front: "n = length src \<Longrightarrow> take n (blit 0 src b) = src"
  by (simp add: blit_def)

text \<open>The memory stays inside twice the bytes waiting and 256.\<close>

lemma conn_room_ok:
  assumes "conn_ok c"
  shows "conn_ok (conn_room jk c) \<and> conn_pending (conn_room jk c) = conn_pending c \<and>
    32 \<le> cn_alloced (conn_room jk c) - cn_tail (conn_room jk c) \<and>
    cn_readOfEnd (conn_room jk c) = cn_readOfEnd c \<and> cn_error (conn_room jk c) = cn_error c \<and>
    cn_alloced (conn_room jk c) \<le> max (cn_alloced c) (2 * length (conn_pending c) + 256)"
proof -
  have l: "length (conn_pending c) = cn_tail c - cn_head c" by (rule length_conn_pending [OF assms])
  consider (grow) "cn_alloced c - cn_tail c < 64" "cn_alloced c - (cn_tail c - cn_head c) < 128"
    | (move) "cn_alloced c - cn_tail c < 64" "\<not> cn_alloced c - (cn_tail c - cn_head c) < 128"
    | (keep) "\<not> cn_alloced c - cn_tail c < 64" by blast
  then show ?thesis
  proof cases
    case grow
    then show ?thesis using assms l
      by (auto simp: conn_room_def conn_ok_def conn_pending_def cells_append_left)
  next
    case move
    then show ?thesis using assms l
      by (auto simp: conn_room_def conn_ok_def conn_pending_def take_blit_front)
  next
    case keep
    then show ?thesis using assms by (simp add: conn_room_def)
  qed
qed

lemma pending_append:
  assumes "conn_ok c" "length d \<le> cn_alloced c - cn_tail c"
  shows "conn_ok (c\<lparr>cn_buffer := blit (cn_tail c) d (cn_buffer c), cn_tail := cn_tail c + length d\<rparr>) \<and>
    conn_pending (c\<lparr>cn_buffer := blit (cn_tail c) d (cn_buffer c), cn_tail := cn_tail c + length d\<rparr>) =
    conn_pending c @ d"
proof -
  have "cn_tail c \<le> length (cn_buffer c)" using assms by (simp add: conn_ok_def)
  moreover have "take (cn_tail c + length d) (blit (cn_tail c) d (cn_buffer c)) = take (cn_tail c) (cn_buffer c) @ d"
    using assms by (simp add: conn_ok_def)
  ultimately show ?thesis
    using assms
    by (auto simp: conn_ok_def conn_pending_def cells_def take_drop drop_take [symmetric])
qed

lemma k_read_open:
  assumes "0 < n" "\<not> sk_eof s"
  shows "k_read n s = (if sk_rx s = [] then (- 1, [], s)
    else (int (length (take n (sk_rx s))), take n (sk_rx s), s\<lparr>sk_rx := drop n (sk_rx s)\<rparr>))"
  using assms by (auto simp: k_read_def k_recv_take k_recv_would_block)

lemma conn_read_step:
  assumes "k_read (cn_alloced (conn_room jk c) - cn_tail (conn_room jk c)) s = (int (length d), d, s')" "d \<noteq> []"
  shows "conn_read jk s c = conn_read jk s' ((conn_room jk c)
    \<lparr>cn_buffer := blit (cn_tail (conn_room jk c)) d (cn_buffer (conn_room jk c)),
     cn_tail := cn_tail (conn_room jk c) + length d\<rparr>)"
  using assms by (subst conn_read.simps) (simp add: Let_def)

lemma conn_read_open:
  assumes "conn_ok c" "\<not> sk_eof s"
  shows "\<exists>c'. conn_read jk s c = Some (c', s\<lparr>sk_rx := []\<rparr>) \<and> conn_ok c' \<and>
    conn_pending c' = conn_pending c @ sk_rx s \<and> cn_readOfEnd c' = cn_readOfEnd c \<and>
    cn_error c' = (cn_error c \<or> sk_rerr s) \<and>
    cn_alloced c' \<le> max (cn_alloced c) (2 * length (conn_pending c @ sk_rx s) + 256)"
  using assms
proof (induction "length (sk_rx s)" arbitrary: s c rule: less_induct)
  case less
  let ?c = "conn_room jk c"
  let ?n = "cn_alloced ?c - cn_tail ?c"
  have r: "conn_ok ?c" "conn_pending ?c = conn_pending c" "0 < ?n" "cn_readOfEnd ?c = cn_readOfEnd c"
    "cn_error ?c = cn_error c" "cn_alloced ?c \<le> max (cn_alloced c) (2 * length (conn_pending c) + 256)"
    using conn_room_ok [OF less.prems(1), of jk] by auto
  show ?case
  proof (cases "sk_rx s = []")
    case True
    then show ?thesis
      using r less.prems k_read_open [OF r(3) less.prems(2)]
      by (subst conn_read.simps) (auto simp: Let_def conn_ok_def conn_pending_def)
  next
    case False
    let ?d = "take ?n (sk_rx s)"
    let ?c' = "?c\<lparr>cn_buffer := blit (cn_tail ?c) ?d (cn_buffer ?c), cn_tail := cn_tail ?c + length ?d\<rparr>"
    let ?s' = "s\<lparr>sk_rx := drop ?n (sk_rx s)\<rparr>"
    have step: "conn_read jk s c = conn_read jk ?s' ?c'"
      by (rule conn_read_step) (use False r(3) k_read_open [OF r(3) less.prems(2)] in simp_all)
    have ok: "conn_ok ?c'" "conn_pending ?c' = conn_pending c @ ?d"
      using pending_append [OF r(1), of ?d] r(2) by simp_all
    have l: "0 < length (sk_rx s)" using False by simp
    have "length (sk_rx ?s') < length (sk_rx s)"
      using diff_less [OF r(3) l] by simp
    moreover have "\<not> sk_eof ?s'" using less.prems(2) by simp
    ultimately obtain c2 where
      c2: "conn_read jk ?s' ?c' = Some (c2, ?s'\<lparr>sk_rx := []\<rparr>)" "conn_ok c2"
        "conn_pending c2 = conn_pending ?c' @ sk_rx ?s'" "cn_readOfEnd c2 = cn_readOfEnd ?c'"
        "cn_error c2 = (cn_error ?c' \<or> sk_rerr ?s')"
        "cn_alloced c2 \<le> max (cn_alloced ?c') (2 * length (conn_pending ?c' @ sk_rx ?s') + 256)"
      using less.hyps [of ?s' ?c'] ok(1) by blast
    have p: "conn_pending ?c' @ sk_rx ?s' = conn_pending c @ sk_rx s" unfolding ok(2) by simp
    have "conn_read jk s c = Some (c2, s\<lparr>sk_rx := []\<rparr>)" using step c2(1) by simp
    moreover have "conn_pending c2 = conn_pending c @ sk_rx s" using c2(3) p by simp
    moreover have "cn_readOfEnd c2 = cn_readOfEnd c" "cn_error c2 = (cn_error c \<or> sk_rerr s)"
      using c2(4,5) r(4,5) by simp_all
    moreover have "cn_alloced c2 \<le> max (cn_alloced c) (2 * length (conn_pending c @ sk_rx s) + 256)"
      using c2(6) r(6) unfolding p by simp
    ultimately show ?thesis using c2(2) by blast
  qed
qed

lemma conn_write_ok:
  assumes "conn_ok c" "conn_write ks werr c = (r, c', d)"
  shows "conn_ok c' \<and> conn_pending c = d @ conn_pending c' \<and> cn_readOfEnd c' = cn_readOfEnd c \<and>
    (\<not> werr \<longrightarrow> cn_error c' = cn_error c) \<and> cn_alloced c' = cn_alloced c"
  using assms
proof (induction ks werr c arbitrary: r c' d rule: conn_write.induct)
  case (1 werr c)
  then show ?case by (auto simp: conn_ok_def conn_pending_def split: if_splits)
next
  case (2 k ks werr c)
  show ?case
  proof (cases "cn_head c < cn_tail c")
    case True
    let ?n = "min k (cn_tail c - cn_head c)"
    let ?c = "c\<lparr>cn_head := cn_head c + ?n\<rparr>"
    obtain r1 c1 d1 where w: "conn_write ks werr ?c = (r1, c1, d1)" by (metis prod_cases3)
    have ok: "conn_ok ?c" using 2(2) True by (auto simp: conn_ok_def)
    have split: "conn_pending c = cells (cn_head c) ?n (cn_buffer c) @ conn_pending ?c"
    proof -
      have "cn_tail c - cn_head c = ?n + (cn_tail c - (cn_head c + ?n))" using True by simp
      then show ?thesis
        using cells_add [of "cn_head c" ?n "cn_tail c - (cn_head c + ?n)" "cn_buffer c"]
        by (simp add: conn_pending_def)
    qed
    from 2(1) [OF True refl refl ok w] 2(3) True w split show ?thesis by (auto simp: Let_def)
  next
    case False
    with 2 show ?thesis by auto
  qed
qed

lemma conn_handle_open:
  assumes "conn_ok c" "\<not> cn_error c" "\<not> sk_eof s" "\<not> sk_rerr s" "\<not> sk_werr s"
  shows "\<exists>c' d. conn_handle jk s c = Some (c', d) \<and> conn_ok c' \<and> conn_pending c @ sk_rx s = d @ conn_pending c' \<and>
    cn_readOfEnd c' = cn_readOfEnd c \<and> \<not> cn_error c' \<and>
    cn_alloced c' \<le> max (cn_alloced c) (2 * length (conn_pending c @ sk_rx s) + 256)"
proof -
  from conn_read_open [OF assms(1,3), of jk] assms(2,4) obtain c1 where
    c1: "conn_read jk s c = Some (c1, s\<lparr>sk_rx := []\<rparr>)" "conn_ok c1" "conn_pending c1 = conn_pending c @ sk_rx s"
      "cn_readOfEnd c1 = cn_readOfEnd c" "\<not> cn_error c1"
      "cn_alloced c1 \<le> max (cn_alloced c) (2 * length (conn_pending c @ sk_rx s) + 256)"
    by auto
  obtain r c2 d where w: "conn_write (sk_room s) (sk_werr s) c1 = (r, c2, d)" by (metis prod_cases3)
  from conn_write_ok [OF c1(2) w] assms(2,5) c1 w show ?thesis
    by (auto simp: conn_handle_def)
qed

text \<open>A peer that has closed its side: the count of 0 does not end the loop.\<close>

lemma conn_read_eof: "sk_eof s \<Longrightarrow> \<not> sk_rerr s \<Longrightarrow> conn_read jk s c = None"
proof (rule ccontr)
  assume "sk_eof s" "\<not> sk_rerr s" "conn_read jk s c \<noteq> None"
  then obtain y where ret: "conn_read jk s c = Some y" by auto
  have "\<not> sk_eof s \<or> sk_rerr s"
  proof (rule conn_read.raw_induct [where P = "\<lambda>jk s c y. \<not> sk_eof s \<or> sk_rerr s", OF _ ret])
    fix f jk s c and y :: "conn \<times> echo_sock"
    assume IH: "\<And>jk s c y. f jk s c = Some y \<Longrightarrow> \<not> sk_eof s \<or> sk_rerr s"
      and body: "(let c = conn_room jk c in
        case k_read (cn_alloced c - cn_tail c) s of (n, d, s) \<Rightarrow>
          if n < 0 then Some (if sk_rerr s then c\<lparr>cn_error := True\<rparr> else c, s)
          else let c = (if n = 0 then c\<lparr>cn_readOfEnd := True\<rparr> else c)
               in f jk s (c\<lparr>cn_buffer := blit (cn_tail c) d (cn_buffer c), cn_tail := cn_tail c + nat n\<rparr>)) =
        Some y"
    let ?c = "conn_room jk c"
    obtain n d s' where k: "k_read (cn_alloced ?c - cn_tail ?c) s = (n, d, s')" by (metis prod_cases3)
    show "\<not> sk_eof s \<or> sk_rerr s"
    proof (rule ccontr)
      assume eof: "\<not> (\<not> sk_eof s \<or> sk_rerr s)"
      then have "0 \<le> n \<and> sk_eof s' \<and> \<not> sk_rerr s'"
        using k by (auto simp: k_read_def k_recv_def Let_def split: if_splits)
      then show False using IH [of jk s' _ y] body k by (auto simp: Let_def)
    qed
  qed
  then show False using \<open>sk_eof s\<close> \<open>\<not> sk_rerr s\<close> by simp
qed

end
