(* ===== verification/EchoProps.thy ===== *)
theory EchoProps
  imports EchoServer
begin

text \<open>
  Properties of the echo server: every open connection gets back its own bytes in order, and a client
  that closes its side stops the server.
\<close>

section \<open>Events and connections\<close>

text \<open>What has been received on a connection and what has been written back.\<close>

definition echo_received :: "nat \<Rightarrow> echo_event list \<Rightarrow> block" where
  "echo_received p es = concat (map (\<lambda>e. case e of Ready q k \<Rightarrow> if q = p then sk_rx k else [] | Incoming _ _ \<Rightarrow> []) es)"

definition echo_written :: "nat \<Rightarrow> echo_server \<Rightarrow> block" where
  "echo_written p s = concat (map (\<lambda>(q, d). if q = p then d else []) (es_sent s))"

text \<open>
  Events as they come while no client closes or fails: \<open>live\<close> are the addresses in use, from which
  those of new connections are different.
\<close>

definition sock_open :: "echo_sock \<Rightarrow> bool" where
  "sock_open k \<longleftrightarrow> \<not> sk_eof k \<and> \<not> sk_rerr k \<and> \<not> sk_werr k"

fun events_open :: "nat set \<Rightarrow> echo_event list \<Rightarrow> bool" where
  "events_open live [] \<longleftrightarrow> True"
| "events_open live (Incoming client p # es) \<longleftrightarrow> 0 \<le> client \<and> p \<notin> live \<and> events_open (insert p live) es"
| "events_open live (Ready p k # es) \<longleftrightarrow> p \<in> live \<and> sock_open k \<and> events_open live es"

lemma echo_received_simps [simp]:
  "echo_received p [] = []"
  "echo_received p (Incoming client q # es) = echo_received p es"
  "echo_received p (Ready q k # es) = (if q = p then sk_rx k else []) @ echo_received p es"
  by (simp_all add: echo_received_def)

text \<open>
  \<open>rc\<close> is what each connection has received so far. A connection that is not there has neither
  received nor been sent anything.
\<close>

definition echo_conn :: "conn option \<Rightarrow> block \<Rightarrow> block \<Rightarrow> bool" where
  "echo_conn oc w r = (case oc of None \<Rightarrow> r = [] \<and> w = []
     | Some c \<Rightarrow> conn_ok c \<and> \<not> cn_error c \<and> \<not> cn_readOfEnd c \<and> w @ conn_pending c = r)"

definition echo_inv :: "(nat \<Rightarrow> block) \<Rightarrow> echo_server \<Rightarrow> bool" where
  "echo_inv rc s \<longleftrightarrow> (\<forall>p. echo_conn (es_conns s p) (echo_written p s) (rc p))"

lemma echo_inv_start: "echo_inv (\<lambda>p. []) (echo_start l jtv)"
  by (simp add: echo_inv_def echo_conn_def echo_start_def echo_written_def)

lemma echo_inv_accept:
  assumes "echo_inv rc s" "es_conns s p = None"
  shows "echo_inv rc (echo_accept jk client p s)"
proof -
  have w: "echo_written q (echo_accept jk client p s) = echo_written q s" for q
    by (simp add: echo_accept_def echo_written_def)
  have "rc p = []" "echo_written p s = []"
    using assms(1) [unfolded echo_inv_def, rule_format, of p] assms(2) by (simp_all add: echo_conn_def)
  then have "echo_conn (Some (conn_new jk)) (echo_written p s) (rc p)"
    using conn_ok_new by (simp add: echo_conn_def) (simp add: conn_new_def)
  then show ?thesis
    using assms(1) unfolding echo_inv_def w by (simp add: echo_accept_def)
qed

lemma echo_inv_ready:
  assumes "echo_inv rc s" "es_conns s p = Some c" "sock_open k"
  shows "\<exists>s' c'. echo_ready jk p k s = Some (Inr s') \<and> es_conns s' = (es_conns s)(p \<mapsto> c') \<and>
    echo_inv (rc(p := rc p @ sk_rx k)) s'"
proof -
  have "echo_conn (Some c) (echo_written p s) (rc p)"
    using assms(1) [unfolded echo_inv_def, rule_format, of p] assms(2) by simp
  then have c: "conn_ok c" "\<not> cn_error c" "\<not> cn_readOfEnd c" "echo_written p s @ conn_pending c = rc p"
    by (simp_all add: echo_conn_def)
  from conn_handle_open [OF c(1,2), of k jk] assms(3) obtain c' d where
    h: "conn_handle jk k c = Some (c', d)" "conn_ok c'" "conn_pending c @ sk_rx k = d @ conn_pending c'"
      "cn_readOfEnd c' = cn_readOfEnd c" "\<not> cn_error c'"
    by (auto simp: sock_open_def)
  let ?s = "s\<lparr>es_proc := es_proc s + 1, es_sent := es_sent s @ [(p, d)], es_conns := (es_conns s)(p \<mapsto> c')\<rparr>"
  have "echo_written p s @ d @ conn_pending c' = rc p @ sk_rx k"
    unfolding h(3) [symmetric] c(4) [symmetric] by simp
  then have "echo_conn (Some c') (echo_written p s @ d) (rc p @ sk_rx k)"
    using h(2,4,5) c(3) by (simp add: echo_conn_def)
  moreover have "echo_written q ?s = echo_written q s @ (if q = p then d else [])" for q
    by (simp add: echo_written_def)
  ultimately have "echo_inv (rc(p := rc p @ sk_rx k)) ?s"
    using assms(1) by (simp add: echo_inv_def)
  moreover have "echo_ready jk p k s = Some (Inr ?s)"
    using assms(2) h(1,4,5) c(3) by (simp add: echo_ready_def conn_done_def)
  ultimately show ?thesis by (intro exI [of _ ?s] exI [of _ c']) simp
qed

lemma echo_events_open:
  assumes "echo_inv rc s" "events_open (dom (es_conns s)) es"
  shows "\<exists>s'. echo_events jk es s = Some (Inr s') \<and> echo_inv (\<lambda>p. rc p @ echo_received p es) s' \<and>
    dom (es_conns s') = dom (es_conns s) \<union> {p. \<exists>client. Incoming client p \<in> set es}"
  using assms
proof (induction jk es s arbitrary: rc rule: echo_events.induct)
  case (1 jk s)
  then show ?case by simp
next
  case (2 jk client p es s)
  let ?s = "echo_accept jk client p s"
  have "es_conns s p = None" "0 \<le> client" using 2(3) by auto
  then have "dom (es_conns ?s) = insert p (dom (es_conns s))" by (simp add: echo_accept_def)
  moreover have "echo_inv rc ?s" by (rule echo_inv_accept [OF 2(2)]) fact
  ultimately show ?case using 2(1) [of rc] 2(3) by auto
next
  case (3 jk p k es s)
  then obtain c where "es_conns s p = Some c" by auto
  from echo_inv_ready [OF 3(2) this, of k jk] 3(3) obtain s1 c1 where
    s1: "echo_ready jk p k s = Some (Inr s1)" "es_conns s1 = (es_conns s)(p \<mapsto> c1)"
      "echo_inv (rc(p := rc p @ sk_rx k)) s1"
    by auto
  have d: "dom (es_conns s1) = dom (es_conns s)" using s1(2) 3(3) by auto
  have e: "(\<lambda>q. (rc(p := rc p @ sk_rx k)) q @ echo_received q es) =
      (\<lambda>q. rc q @ echo_received q (Ready p k # es))"
    by (simp add: fun_eq_iff)
  have "events_open (dom (es_conns s)) es" using 3(3) by simp
  from 3(1) [OF s1(1) refl s1(3), unfolded d e, OF this] s1(1) show ?case by simp
qed

text \<open>C10: While no client closes or fails, whatever the order of their connections and messages, the
  loop serves every event, and each connection has been sent exactly the bytes received on it, in
  their order, but for those that still wait in its buffer.\<close>

theorem echo_in_order:
  assumes "events_open {} es"
  shows "\<exists>s'. echo_events jk es (echo_start l jtv) = Some (Inr s') \<and>
    dom (es_conns s') = {p. \<exists>client. Incoming client p \<in> set es} \<and>
    (\<forall>p c. es_conns s' p = Some c \<longrightarrow> echo_written p s' @ conn_pending c = echo_received p es)"
proof -
  have "dom (es_conns (echo_start l jtv)) = {}" by (simp add: echo_start_def)
  with echo_events_open [OF echo_inv_start, of l jtv es jk] assms obtain s' where
    "echo_events jk es (echo_start l jtv) = Some (Inr s')" "echo_inv (\<lambda>p. echo_received p es) s'"
    "dom (es_conns s') = {p. \<exists>client. Incoming client p \<in> set es}"
    by auto
  then show ?thesis by (force simp: echo_inv_def echo_conn_def split: option.splits)
qed

text \<open>Two clients whose messages alternate.\<close>

definition echo_sample :: "echo_event list" where
  "echo_sample =
     (let k = \<lambda>b n. \<lparr>sk_rx = b, sk_eof = False, sk_rerr = False, sk_room = n, sk_werr = False\<rparr>
      in [Incoming 4 1, Incoming 5 2, Ready 1 (k [65, 66] [1]), Ready 2 (k [67] [9]), Ready 1 (k [68] [2])])"

theorem echo_in_order_witness:
  "\<exists>s'. echo_events 0 echo_sample (echo_start 3 (0, 0)) = Some (Inr s') \<and> dom (es_conns s') = {1, 2} \<and>
    (\<forall>p c. es_conns s' p = Some c \<longrightarrow> echo_written p s' @ conn_pending c = echo_received p echo_sample)"
proof -
  have "events_open {} echo_sample" by (simp add: echo_sample_def Let_def sock_open_def)
  moreover have "{p. \<exists>client. Incoming client p \<in> set echo_sample} = {1, 2}"
    by (auto simp: echo_sample_def Let_def)
  ultimately show ?thesis using echo_in_order [of echo_sample 0 3 "(0, 0)"] by simp
qed

text \<open>C31: A client that closes its side stops the server for everyone: the reading loop treats the
  count of 0 as progress and never returns, so neither this event nor any later one is served.\<close>

theorem eof_stops_server:
  assumes "es_conns s p = Some c" "\<not> cn_error c" "sk_eof k" "\<not> sk_rerr k"
  shows "echo_events jk (Ready p k # es) s = None"
  using assms conn_read_eof [of k jk c] by (simp add: echo_ready_def conn_handle_def)

theorem eof_stops_server_witness:
  "echo_events 0 [Ready 1 \<lparr>sk_rx = [], sk_eof = True, sk_rerr = False, sk_room = [], sk_werr = False\<rparr>]
     (echo_accept 0 4 1 (echo_start 3 (0, 0))) = None"
  by (rule eof_stops_server [where c = "conn_new 0"]) (simp_all add: echo_accept_def conn_new_def)

end
