(* ===== verification/LogStream.thy ===== *)
theory LogStream
  imports CBytes "HOL-Library.Signed_Division"
begin

text \<open>
  The log lines of histroy/version-0.0.1: the fixed buffer and the stream of LogStream.h and
  LogStream.cpp, and the logger of Logging.cpp that frames one line.
\<close>

section \<open>FixedBuffer\<close>

text \<open>\<open>fb_text\<close> are the bytes before \<open>cur_\<close>, of the \<open>fb_size\<close> bytes of \<open>data_\<close>.\<close>

record fixedbuf =
  fb_size :: nat
  fb_text :: block

definition kSmallBuffer :: nat where
  "kSmallBuffer = 4000"

definition kLargeBuffer :: nat where
  "kLargeBuffer = 4000 * 1000"

definition FixedBuffer :: "nat \<Rightarrow> fixedbuf" where
  "FixedBuffer n = \<lparr>fb_size = n, fb_text = []\<rparr>"

definition fb_length :: "fixedbuf \<Rightarrow> int" where
  "fb_length b = int (length (fb_text b))"

definition fb_avail :: "fixedbuf \<Rightarrow> int" where
  "fb_avail b = int (fb_size b) - int (length (fb_text b))"

definition fb_append :: "block \<Rightarrow> fixedbuf \<Rightarrow> fixedbuf" where
  "fb_append buf b = (if fb_avail b > int (length buf) then b\<lparr>fb_text := fb_text b @ buf\<rparr> else b)"

text \<open>\<open>add\<close> after the bytes \<open>d\<close> have been written at \<open>current()\<close>.\<close>

definition fb_add :: "block \<Rightarrow> fixedbuf \<Rightarrow> fixedbuf" where
  "fb_add d b = b\<lparr>fb_text := fb_text b @ d\<rparr>"

definition fb_reset :: "fixedbuf \<Rightarrow> fixedbuf" where
  "fb_reset b = b\<lparr>fb_text := []\<rparr>"

section \<open>Integers\<close>

text \<open>
  \<open>convert\<close> for a value of any of the integer types, on which division truncates towards zero and the
  remainder has the sign of the value: the table of digits is read from its middle.
\<close>

definition digits :: block where
  "digits = str_bytes ''9876543210123456789''"

definition zero_digit :: "int \<Rightarrow> byte" where
  "zero_digit lsd = digits ! nat (9 + lsd)"

lemma sdiv10: "\<bar>i sdiv 10\<bar> = \<bar>i\<bar> div (10::int)"
  by (cases "i = 0") (simp_all add: signed_divide_int_def abs_mult)

function convert_loop :: "int \<Rightarrow> block" where
  "convert_loop i = zero_digit (i smod 10) # (if i sdiv 10 \<noteq> 0 then convert_loop (i sdiv 10) else [])"
  by auto

termination
proof (relation "measure (\<lambda>i. nat \<bar>i\<bar>)")
  fix i :: int
  assume "i sdiv 10 \<noteq> 0"
  then have "i \<noteq> 0" by auto
  then have "\<bar>i\<bar> div 10 < \<bar>i\<bar>" by (simp add: int_div_less_self)
  then show "(i sdiv 10, i) \<in> measure (\<lambda>i. nat \<bar>i\<bar>)" by (simp add: sdiv10)
qed simp

declare convert_loop.simps [simp del]

definition convert :: "int \<Rightarrow> block" where
  "convert v = rev (convert_loop v @ (if v < 0 then str_bytes ''-'' else []))"

definition kMaxNumericSize :: int where
  "kMaxNumericSize = 32"

definition formatInteger :: "int \<Rightarrow> fixedbuf \<Rightarrow> fixedbuf" where
  "formatInteger v b = (if fb_avail b \<ge> kMaxNumericSize then fb_add (convert v) b else b)"

section \<open>LogStream and Logger\<close>

definition ls_bool :: "bool \<Rightarrow> fixedbuf \<Rightarrow> fixedbuf" where
  "ls_bool v b = fb_append (if v then str_bytes ''1'' else str_bytes ''0'') b"

definition ls_char :: "byte \<Rightarrow> fixedbuf \<Rightarrow> fixedbuf" where
  "ls_char c b = fb_append [c] b"

definition ls_cstr :: "block option \<Rightarrow> fixedbuf \<Rightarrow> fixedbuf" where
  "ls_cstr str b = (case str of Some s \<Rightarrow> fb_append s b | None \<Rightarrow> fb_append (str_bytes ''(null)'') b)"

definition ls_string :: "block \<Rightarrow> fixedbuf \<Rightarrow> fixedbuf" where
  "ls_string v b = fb_append v b"

text \<open>
  \<open>fmt\<close> is what \<open>snprintf\<close> makes of the number with \<open>%.12g\<close>: at most 20 bytes, so that the limit of 32
  does not cut it.
\<close>

definition ls_double :: "block \<Rightarrow> fixedbuf \<Rightarrow> fixedbuf" where
  "ls_double fmt b = (if fb_avail b \<ge> kMaxNumericSize then fb_add fmt b else b)"

record logger =
  lg_stream :: fixedbuf
  lg_line :: int
  lg_basename :: block

text \<open>The constructor; \<open>stamp\<close> is what \<open>strftime\<close> makes of the time.\<close>

definition formatTime :: "block \<Rightarrow> fixedbuf \<Rightarrow> fixedbuf" where
  "formatTime stamp b = ls_cstr (Some stamp) b"

definition Logger :: "block \<Rightarrow> block \<Rightarrow> int \<Rightarrow> logger" where
  "Logger stamp fileName line =
     \<lparr>lg_stream = formatTime stamp (FixedBuffer kSmallBuffer), lg_line = line, lg_basename = fileName\<rparr>"

text \<open>The destructor: the line that is handed to the asynchronous log.\<close>

definition Logger_end :: "logger \<Rightarrow> block" where
  "Logger_end l = fb_text
     (ls_char 10 (formatInteger (lg_line l) (ls_char (of_char CHR '':'') (ls_string (lg_basename l)
       (ls_cstr (Some (str_bytes '' -- '')) (lg_stream l))))))"

section \<open>Decimal numbers\<close>

text \<open>The value of digits, the last one first.\<close>

fun dec_le :: "block \<Rightarrow> int" where
  "dec_le [] = 0"
| "dec_le (d # ds) = uint d - 48 + 10 * dec_le ds"

definition read_int :: "block \<Rightarrow> int" where
  "read_int s = (case s of [] \<Rightarrow> 0 | c # ds \<Rightarrow> if c = 45 then - dec_le (rev ds) else dec_le (rev s))"

definition is_digit :: "byte \<Rightarrow> bool" where
  "is_digit d \<longleftrightarrow> 48 \<le> uint d \<and> uint d \<le> 57"

lemma smod10: "i smod 10 = sgn i * (\<bar>i\<bar> mod (10::int))"
  by (simp add: signed_modulo_int_def)

lemma zero_digit_abs:
  assumes "-9 \<le> l" "l \<le> 9"
  shows "uint (zero_digit l) = 48 + \<bar>l\<bar>"
proof -
  have "l \<in> {-9, -8, -7, -6, -5, -4, -3, -2, -1, 0, 1, 2, 3, 4, 5, 6, 7, 8, 9}"
    using assms by simp presburger
  then show ?thesis
    by (elim insertE) (simp_all add: zero_digit_def digits_def str_bytes_def of_char_def)
qed

lemma zero_digit_smod: "uint (zero_digit (i smod 10)) = 48 + \<bar>i\<bar> mod 10"
proof -
  have "0 \<le> \<bar>i\<bar> mod 10" "\<bar>i\<bar> mod 10 \<le> 9" by simp_all
  then have "-9 \<le> i smod 10" "i smod 10 \<le> 9" "\<bar>i smod 10\<bar> = \<bar>i\<bar> mod 10"
    by (auto simp: smod10 sgn_if abs_if)
  then show ?thesis using zero_digit_abs by simp
qed

lemma convert_loop_value: "dec_le (convert_loop i) = \<bar>i\<bar>"
proof (induction i rule: convert_loop.induct)
  case (1 i)
  have "\<bar>i\<bar> mod 10 + 10 * (\<bar>i\<bar> div 10) = \<bar>i\<bar>" by simp
  moreover have "\<bar>i\<bar> div 10 = 0" if "i sdiv 10 = 0" using that sdiv10 [of i] by simp
  ultimately show ?case
    using 1 by (subst convert_loop.simps) (auto simp: zero_digit_smod sdiv10)
qed

lemma convert_loop_digits: "convert_loop i \<noteq> [] \<and> (\<forall>d \<in> set (convert_loop i). is_digit d)"
proof (induction i rule: convert_loop.induct)
  case (1 i)
  have "is_digit (zero_digit (i smod 10))"
    using zero_digit_smod [of i] by (simp add: is_digit_def)
  with 1 show ?case by (subst (1 2) convert_loop.simps) auto
qed

lemma convert_loop_length: "\<bar>i\<bar> < 10 ^ Suc k \<Longrightarrow> length (convert_loop i) \<le> Suc k"
proof (induction i arbitrary: k rule: convert_loop.induct)
  case (1 i)
  show ?case
  proof (cases "i sdiv 10 = 0")
    case True
    then show ?thesis by (subst convert_loop.simps) simp
  next
    case False
    then have nz: "\<bar>i\<bar> div 10 \<noteq> 0" using sdiv10 [of i] by auto
    then obtain j where j: "k = Suc j" using 1(2) by (cases k) auto
    have "\<bar>i sdiv 10\<bar> < 10 ^ Suc j" using 1(2) by (simp add: sdiv10 j)
    from 1(1) [OF False this] show ?thesis using False by (subst convert_loop.simps) (simp add: j)
  qed
qed

lemma length_convert: "\<bar>v\<bar> < 10 ^ 20 \<Longrightarrow> length (convert v) \<le> 21"
  using convert_loop_length [of v 19] by (simp add: convert_def)

lemma read_convert: "read_int (convert v) = v"
proof (cases "v < 0")
  case True
  then show ?thesis
    by (simp add: convert_def read_int_def str_bytes_def of_char_def convert_loop_value)
next
  case False
  then have c: "convert v = rev (convert_loop v)" by (simp add: convert_def)
  obtain d ds where d: "rev (convert_loop v) = d # ds"
    using convert_loop_digits [of v] by (cases "rev (convert_loop v)") auto
  then have "d \<in> set (convert_loop v)" by (metis list.set_intros(1) set_rev)
  then have "is_digit d" using convert_loop_digits [of v] by blast
  then have "d \<noteq> 45" by (auto simp: is_digit_def)
  moreover have "rev (d # ds) = convert_loop v" using d by (metis rev_rev_ident)
  ultimately show ?thesis using False
    unfolding c d by (simp add: read_int_def convert_loop_value)
qed

text \<open>A stream of the smaller size never fills its buffer.\<close>

lemma fb_append_bound:
  "length (fb_text b) < fb_size b \<Longrightarrow> length (fb_text (fb_append d b)) < fb_size (fb_append d b)"
  by (auto simp: fb_append_def fb_avail_def)

lemma fb_append_size [simp]: "fb_size (fb_append d b) = fb_size b"
  by (simp add: fb_append_def)

lemma formatInteger_bound:
  assumes "\<bar>v\<bar> < 10 ^ 20" "length (fb_text b) < fb_size b"
  shows "length (fb_text (formatInteger v b)) < fb_size b \<and> fb_size (formatInteger v b) = fb_size b"
  using assms length_convert [OF assms(1)]
  by (auto simp: formatInteger_def fb_add_def fb_avail_def kMaxNumericSize_def)

end
