(* ===== verification/AsyncLog.thy ===== *)
theory AsyncLog
  imports LogStream
begin

text \<open>
  The asynchronous log of histroy/version-0.0.1: the file of FileUtil.cpp and LogFile.cpp and the two
  sides of AsyncLogging.cpp, the callers of \<open>append\<close> and the thread that writes the buffers to the
  file. The logging thread is cut where it holds the mutex, so that calls of \<open>append\<close> may fall between
  any two of its parts.
\<close>

section \<open>The file\<close>

text \<open>\<open>af_text\<close>: the bytes the stream has taken; \<open>af_flushed\<close>: how many of them have been flushed.\<close>

record appendfile =
  af_text :: block
  af_flushed :: nat

definition AppendFile_new :: appendfile where
  "AppendFile_new = \<lparr>af_text = [], af_flushed = 0\<rparr>"

text \<open>
  \<open>fwrite\<close> takes \<open>k\<close> bytes or the whole line, whichever is less; \<open>ks\<close> is what the next calls take, and
  once it is used up they take everything.
\<close>

definition af_write :: "nat \<Rightarrow> block \<Rightarrow> appendfile \<Rightarrow> nat \<times> appendfile" where
  "af_write k line f = (min k (length line), f\<lparr>af_text := af_text f @ take k line\<rparr>)"

fun af_loop :: "nat list \<Rightarrow> block \<Rightarrow> appendfile \<Rightarrow> appendfile" where
  "af_loop [] line f = (if line = [] then f else snd (af_write (length line) line f))"
| "af_loop (k # ks) line f =
     (if line = [] then f
      else case af_write k line f of (x, f) \<Rightarrow> if x = 0 then f else af_loop ks (drop x line) f)"

definition AppendFile_append :: "nat list \<Rightarrow> block \<Rightarrow> appendfile \<Rightarrow> appendfile" where
  "AppendFile_append ks line f =
     (case ks of [] \<Rightarrow> snd (af_write (length line) line f)
      | k # ks \<Rightarrow> (case af_write k line f of (n, f) \<Rightarrow> af_loop ks (drop n line) f))"

definition AppendFile_flush :: "appendfile \<Rightarrow> appendfile" where
  "AppendFile_flush f = f\<lparr>af_flushed := length (af_text f)\<rparr>"

record logfile =
  lf_flushEveryN :: int
  lf_count :: int
  lf_file :: appendfile

definition LogFile :: "int \<Rightarrow> logfile" where
  "LogFile n = \<lparr>lf_flushEveryN = n, lf_count = 0, lf_file = AppendFile_new\<rparr>"

definition LogFile_append :: "nat list \<Rightarrow> block \<Rightarrow> logfile \<Rightarrow> logfile" where
  "LogFile_append ks line l =
     (let l = l\<lparr>lf_file := AppendFile_append ks line (lf_file l), lf_count := lf_count l + 1\<rparr>
      in if lf_count l \<ge> lf_flushEveryN l
         then l\<lparr>lf_count := 0, lf_file := AppendFile_flush (lf_file l)\<rparr> else l)"

definition LogFile_flush :: "logfile \<Rightarrow> logfile" where
  "LogFile_flush l = l\<lparr>lf_file := AppendFile_flush (lf_file l)\<rparr>"

section \<open>The buffers\<close>

record async_log =
  al_running :: bool
  al_current :: fixedbuf
  al_next :: "fixedbuf option"
  al_buffers :: "fixedbuf list"

definition AsyncLogging :: async_log where
  "AsyncLogging = \<lparr>al_running = False, al_current = FixedBuffer kLargeBuffer,
     al_next = Some (FixedBuffer kLargeBuffer), al_buffers = []\<rparr>"

definition al_start :: "async_log \<Rightarrow> async_log" where
  "al_start a = a\<lparr>al_running := True\<rparr>"

definition al_stop :: "async_log \<Rightarrow> async_log" where
  "al_stop a = a\<lparr>al_running := False\<rparr>"

definition al_append :: "block \<Rightarrow> async_log \<Rightarrow> async_log" where
  "al_append line a =
     (if fb_avail (al_current a) > int (length line)
      then a\<lparr>al_current := fb_append line (al_current a)\<rparr>
      else let a = a\<lparr>al_buffers := al_buffers a @ [al_current a]\<rparr>;
               a = (case al_next a of Some b \<Rightarrow> a\<lparr>al_current := b, al_next := None\<rparr>
                    | None \<Rightarrow> a\<lparr>al_current := FixedBuffer kLargeBuffer\<rparr>)
           in a\<lparr>al_current := fb_append line (al_current a)\<rparr>)"

section \<open>The logging thread\<close>

record log_thread =
  lt_new1 :: "fixedbuf option"
  lt_new2 :: "fixedbuf option"
  lt_towrite :: "fixedbuf list"
  lt_output :: logfile

definition lt_init :: log_thread where
  "lt_init = \<lparr>lt_new1 = Some (FixedBuffer kLargeBuffer), lt_new2 = Some (FixedBuffer kLargeBuffer),
     lt_towrite = [], lt_output = LogFile 1024\<rparr>"

text \<open>The asserts at the head of the loop.\<close>

definition empty_buffer :: "fixedbuf option \<Rightarrow> bool" where
  "empty_buffer b = (case b of None \<Rightarrow> False | Some b \<Rightarrow> fb_length b = 0)"

definition lt_check :: "log_thread \<Rightarrow> unit res" where
  "lt_check t = guard (empty_buffer (lt_new1 t) \<and> empty_buffer (lt_new2 t) \<and> lt_towrite t = []) AssertFailed"

text \<open>
  Under the mutex, after the wait. Without \<open>newBuffer1\<close>, which the first assert excludes, the log would
  be left with a null pointer for its current buffer.
\<close>

definition lt_swap :: "async_log \<Rightarrow> log_thread \<Rightarrow> (async_log \<times> log_thread) res" where
  "lt_swap a t = (case lt_new1 t of None \<Rightarrow> Inl NullDeref
     | Some b1 \<Rightarrow>
         let bufs = al_buffers a @ [al_current a];
             a = a\<lparr>al_current := b1, al_buffers := []\<rparr>;
             t = t\<lparr>lt_new1 := None, lt_towrite := bufs\<rparr>
         in Inr (if al_next a = None then (a\<lparr>al_next := lt_new2 t\<rparr>, t\<lparr>lt_new2 := None\<rparr>) else (a, t)))"

text \<open>After the mutex: at most the first two of more than 25 buffers are written, and two are kept.\<close>

definition lt_drop :: "log_thread \<Rightarrow> log_thread" where
  "lt_drop t = (if length (lt_towrite t) > 25 then t\<lparr>lt_towrite := take 2 (lt_towrite t)\<rparr> else t)"

definition lt_output_all :: "nat list \<Rightarrow> log_thread \<Rightarrow> log_thread" where
  "lt_output_all ks t =
     t\<lparr>lt_output := fold (\<lambda>b. LogFile_append ks (fb_text b)) (lt_towrite t) (lt_output t)\<rparr>"

definition lt_reuse1 :: "log_thread \<Rightarrow> log_thread res" where
  "lt_reuse1 t = (case lt_new1 t of Some _ \<Rightarrow> Inr t
     | None \<Rightarrow> if lt_towrite t = [] then Inl AssertFailed
         else Inr (t\<lparr>lt_new1 := Some (fb_reset (last (lt_towrite t))), lt_towrite := butlast (lt_towrite t)\<rparr>))"

definition lt_reuse2 :: "log_thread \<Rightarrow> log_thread res" where
  "lt_reuse2 t = (case lt_new2 t of Some _ \<Rightarrow> Inr t
     | None \<Rightarrow> if lt_towrite t = [] then Inl AssertFailed
         else Inr (t\<lparr>lt_new2 := Some (fb_reset (last (lt_towrite t))), lt_towrite := butlast (lt_towrite t)\<rparr>))"

definition lt_write :: "nat list \<Rightarrow> log_thread \<Rightarrow> log_thread res" where
  "lt_write ks t =
     (if lt_towrite t = [] then Inl AssertFailed
      else let t = lt_output_all ks (lt_drop t);
               t = (if length (lt_towrite t) > 2 then t\<lparr>lt_towrite := take 2 (lt_towrite t)\<rparr> else t)
           in rbind (lt_reuse1 t) (\<lambda>t. rbind (lt_reuse2 t) (\<lambda>t.
                Inr (t\<lparr>lt_towrite := [], lt_output := LogFile_flush (lt_output t)\<rparr>))))"

section \<open>Writing to the file\<close>

lemma take_drop_min: "take k xs @ drop (min k (length xs)) xs = xs"
  by (simp add: min_def)

lemma af_loop_all: "0 \<notin> set ks \<Longrightarrow> af_text (af_loop ks line f) = af_text f @ line"
  by (induction ks line f rule: af_loop.induct) (auto simp: af_write_def take_drop_min)

lemma AppendFile_append_all: "0 \<notin> set ks \<Longrightarrow> af_text (AppendFile_append ks line f) = af_text f @ line"
  by (auto simp: AppendFile_append_def af_write_def af_loop_all take_drop_min split: list.splits)

lemma LogFile_append_all:
  "0 \<notin> set ks \<Longrightarrow> af_text (lf_file (LogFile_append ks line l)) = af_text (lf_file l) @ line"
  by (simp add: LogFile_append_def Let_def AppendFile_append_all AppendFile_flush_def)

lemma LogFile_fold_all:
  "0 \<notin> set ks \<Longrightarrow> af_text (lf_file (fold (\<lambda>b. LogFile_append ks (fb_text b)) bs l)) =
   af_text (lf_file l) @ concat (map fb_text bs)"
  by (induction bs arbitrary: l) (simp_all add: LogFile_append_all)

section \<open>Both sides together\<close>

datatype log_phase = Head | Swapped

text \<open>
  \<open>as_lines\<close>: the lines appended so far; \<open>as_kept\<close>: no round has dropped a buffer. A line of
  \<open>append\<close> is shorter than a buffer (the logger's lines have less than 4000 bytes).
\<close>

record async_system =
  as_log :: async_log
  as_thread :: log_thread
  as_phase :: log_phase
  as_lines :: "block list"
  as_kept :: bool

definition async_start :: async_system where
  "async_start = \<lparr>as_log = al_start AsyncLogging, as_thread = lt_init, as_phase = Head, as_lines = [], as_kept = True\<rparr>"

inductive al_step :: "async_system \<Rightarrow> async_system \<Rightarrow> bool" where
  append: "length line < kLargeBuffer \<Longrightarrow>
    al_step s (s\<lparr>as_log := al_append line (as_log s), as_lines := as_lines s @ [line]\<rparr>)"
| swap: "as_phase s = Head \<Longrightarrow> lt_check (as_thread s) = Inr () \<Longrightarrow> lt_swap (as_log s) (as_thread s) = Inr (a, t) \<Longrightarrow>
    al_step s (s\<lparr>as_log := a, as_thread := t, as_phase := Swapped\<rparr>)"
| round: "as_phase s = Swapped \<Longrightarrow> 0 \<notin> set ks \<Longrightarrow> lt_write ks (as_thread s) = Inr t \<Longrightarrow>
    al_step s (s\<lparr>as_thread := t, as_phase := Head,
      as_kept := (as_kept s \<and> length (lt_towrite (as_thread s)) \<le> 25)\<rparr>)"

text \<open>
  A buffer is well formed when it has its size and is not full. At the head of the loop the thread has
  two empty buffers; if the log has no spare one then a full one waits, and after the swap this one makes
  up for the second.
\<close>

definition fb_ok :: "fixedbuf \<Rightarrow> bool" where
  "fb_ok b \<longleftrightarrow> fb_size b = kLargeBuffer \<and> length (fb_text b) < kLargeBuffer"

definition fb_fresh :: "fixedbuf option \<Rightarrow> bool" where
  "fb_fresh b = (case b of None \<Rightarrow> False | Some b \<Rightarrow> fb_size b = kLargeBuffer \<and> fb_text b = [])"

definition al_ok :: "async_log \<Rightarrow> bool" where
  "al_ok a \<longleftrightarrow> fb_ok (al_current a) \<and> (\<forall>b \<in> set (al_buffers a). fb_ok b) \<and>
     (if al_next a = None then al_buffers a \<noteq> [] else fb_fresh (al_next a))"

definition lt_ok :: "log_phase \<Rightarrow> log_thread \<Rightarrow> bool" where
  "lt_ok ph t \<longleftrightarrow> (\<forall>b \<in> set (lt_towrite t). fb_ok b) \<and>
     (case ph of Head \<Rightarrow> fb_fresh (lt_new1 t) \<and> fb_fresh (lt_new2 t) \<and> lt_towrite t = []
      | Swapped \<Rightarrow> lt_new1 t = None \<and> lt_towrite t \<noteq> [] \<and>
          (if lt_new2 t = None then 2 \<le> length (lt_towrite t) else fb_fresh (lt_new2 t)))"

definition log_text :: "async_system \<Rightarrow> block" where
  "log_text s = af_text (lf_file (lt_output (as_thread s))) @ concat (map fb_text (lt_towrite (as_thread s))) @
     concat (map fb_text (al_buffers (as_log s))) @ fb_text (al_current (as_log s))"

definition as_inv :: "async_system \<Rightarrow> bool" where
  "as_inv s \<longleftrightarrow> al_ok (as_log s) \<and> lt_ok (as_phase s) (as_thread s) \<and>
     (as_kept s \<longrightarrow> log_text s = concat (as_lines s))"

lemma as_inv_start: "as_inv async_start"
  by (simp add: as_inv_def async_start_def al_start_def AsyncLogging_def lt_init_def al_ok_def lt_ok_def
      fb_ok_def fb_fresh_def FixedBuffer_def log_text_def LogFile_def AppendFile_new_def kLargeBuffer_def)

lemma al_append_ok:
  assumes "al_ok a" "length line < kLargeBuffer"
  shows "al_ok (al_append line a) \<and>
    concat (map fb_text (al_buffers (al_append line a))) @ fb_text (al_current (al_append line a)) =
    concat (map fb_text (al_buffers a)) @ fb_text (al_current a) @ line"
  using assms
  by (auto simp: al_append_def Let_def al_ok_def fb_ok_def fb_fresh_def fb_append_def fb_avail_def FixedBuffer_def
      split: option.splits)

lemma lt_swap_ok:
  assumes "al_ok a" "lt_ok Head t"
  shows "\<exists>a' t'. lt_swap a t = Inr (a', t') \<and> al_ok a' \<and> lt_ok Swapped t' \<and> al_buffers a' = [] \<and>
    fb_text (al_current a') = [] \<and> lt_towrite t' = al_buffers a @ [al_current a] \<and> lt_output t' = lt_output t"
proof -
  obtain b1 b2 where b: "lt_new1 t = Some b1" "lt_new2 t = Some b2" "fb_size b1 = kLargeBuffer" "fb_text b1 = []"
      "fb_fresh (lt_new2 t)"
    using assms(2) by (auto simp: lt_ok_def fb_fresh_def split: option.splits)
  have pos: "0 < kLargeBuffer" by (simp add: kLargeBuffer_def)
  show ?thesis
  proof (cases "al_next a")
    case None
    then have "1 \<le> length (al_buffers a)" using assms(1) by (simp add: al_ok_def Suc_le_eq)
    then show ?thesis using assms(1) b pos None
      by (auto simp: lt_swap_def Let_def al_ok_def lt_ok_def fb_ok_def)
  next
    case (Some b3)
    then show ?thesis using assms(1) b pos
      by (auto simp: lt_swap_def Let_def al_ok_def lt_ok_def fb_ok_def)
  qed
qed

lemma lt_check_ok: "lt_ok Head t \<Longrightarrow> lt_check t = Inr ()"
  by (auto simp: lt_check_def lt_ok_def fb_fresh_def empty_buffer_def fb_length_def split: option.splits)

text \<open>The part after the mutex finds the buffers it needs, whatever the number of buffers written.\<close>

lemma lt_reuse_ok:
  assumes "lt_new1 t = None" "lt_towrite t \<noteq> []" "\<forall>b \<in> set (lt_towrite t). fb_size b = kLargeBuffer"
    and "if lt_new2 t = None then 2 \<le> length (lt_towrite t) else fb_fresh (lt_new2 t)"
  shows "\<exists>b1 b2 t'. rbind (lt_reuse1 t) lt_reuse2 = Inr t' \<and> lt_new1 t' = Some b1 \<and> lt_new2 t' = Some b2 \<and>
    fb_fresh (Some b1) \<and> fb_fresh (Some b2) \<and> lt_output t' = lt_output t"
proof -
  let ?w = "lt_towrite t"
  let ?t1 = "t\<lparr>lt_new1 := Some (fb_reset (last ?w)), lt_towrite := butlast ?w\<rparr>"
  have r1: "lt_reuse1 t = Inr ?t1" using assms(1,2) by (simp add: lt_reuse1_def)
  have b1: "fb_fresh (Some (fb_reset (last ?w)))" using assms(2,3) by (simp add: fb_fresh_def fb_reset_def)
  show ?thesis
  proof (cases "lt_new2 t")
    case None
    then have l: "2 \<le> length ?w" using assms(4) by simp
    then have "butlast ?w \<noteq> []" by (cases ?w rule: rev_cases) auto
    moreover have "last (butlast ?w) \<in> set ?w" using calculation by (metis in_set_butlastD last_in_set)
    ultimately have "lt_reuse2 ?t1 = Inr (?t1\<lparr>lt_new2 := Some (fb_reset (last (butlast ?w))), lt_towrite := butlast (butlast ?w)\<rparr>)"
      "fb_fresh (Some (fb_reset (last (butlast ?w))))"
      using None assms(3) by (simp_all add: lt_reuse2_def fb_fresh_def fb_reset_def)
    then show ?thesis using r1 b1 by simp
  next
    case (Some b2)
    then show ?thesis using r1 b1 assms(4) by (simp add: lt_reuse2_def)
  qed
qed

lemma lt_write_ok:
  assumes "lt_ok Swapped t" "0 \<notin> set ks"
  shows "\<exists>t'. lt_write ks t = Inr t' \<and> lt_ok Head t' \<and>
    af_text (lf_file (lt_output t')) = af_text (lf_file (lt_output t)) @
      concat (map fb_text (if length (lt_towrite t) > 25 then take 2 (lt_towrite t) else lt_towrite t)) \<and>
    af_flushed (lf_file (lt_output t')) = length (af_text (lf_file (lt_output t')))"
proof -
  let ?d = "lt_drop t"
  let ?o = "lt_output_all ks ?d"
  define r where "r = (if length (lt_towrite ?o) > 2 then ?o\<lparr>lt_towrite := take 2 (lt_towrite ?o)\<rparr> else ?o)"
  have t: "lt_new1 t = None" "lt_towrite t \<noteq> []" "\<forall>b \<in> set (lt_towrite t). fb_size b = kLargeBuffer"
    "if lt_new2 t = None then 2 \<le> length (lt_towrite t) else fb_fresh (lt_new2 t)"
    using assms(1) by (auto simp: lt_ok_def fb_ok_def)
  have d: "lt_towrite ?d = (if length (lt_towrite t) > 25 then take 2 (lt_towrite t) else lt_towrite t)"
    "lt_new1 ?d = lt_new1 t" "lt_new2 ?d = lt_new2 t" "lt_output ?d = lt_output t"
    by (simp_all add: lt_drop_def)
  have o: "lt_towrite ?o = lt_towrite ?d" "lt_new1 ?o = None" "lt_new2 ?o = lt_new2 t"
    "af_text (lf_file (lt_output ?o)) = af_text (lf_file (lt_output t)) @ concat (map fb_text (lt_towrite ?d))"
    using t(1) LogFile_fold_all [OF assms(2)] by (simp_all add: lt_output_all_def d(2-4))
  have r: "lt_towrite r = take 2 (lt_towrite t)" "lt_new1 r = None" "lt_new2 r = lt_new2 t" "lt_output r = lt_output ?o"
    using o(1-3) d(1) by (simp_all add: r_def)
  have "lt_towrite r \<noteq> []" using r(1) t(2) by simp
  moreover have "\<forall>b \<in> set (lt_towrite r). fb_size b = kLargeBuffer"
    using t(3) set_take_subset [of 2 "lt_towrite t"] unfolding r(1) by blast
  moreover have "if lt_new2 r = None then 2 \<le> length (lt_towrite r) else fb_fresh (lt_new2 r)"
    using t(4) unfolding r(1,3) by (simp split: if_splits)
  ultimately obtain b1 b2 t' where t': "rbind (lt_reuse1 r) lt_reuse2 = Inr t'" "lt_new1 t' = Some b1"
      "lt_new2 t' = Some b2" "fb_fresh (Some b1)" "fb_fresh (Some b2)" "lt_output t' = lt_output r"
    using lt_reuse_ok [OF r(2)] by blast
  have "lt_write ks t = rbind (rbind (lt_reuse1 r) lt_reuse2)
      (\<lambda>t. Inr (t\<lparr>lt_towrite := [], lt_output := LogFile_flush (lt_output t)\<rparr>))"
    using t(2) unfolding lt_write_def Let_def r_def by (simp add: rbind_assoc)
  then have "lt_write ks t = Inr (t'\<lparr>lt_towrite := [], lt_output := LogFile_flush (lt_output t')\<rparr>)"
    using t'(1) by simp
  then show ?thesis
    using t' r(4) o(4) d(1) by (simp add: lt_ok_def LogFile_flush_def AppendFile_flush_def)
qed

lemma as_inv_step: "al_step s s' \<Longrightarrow> as_inv s \<Longrightarrow> as_inv s'"
proof (induction rule: al_step.induct)
  case (append line s)
  then show ?case using al_append_ok [of "as_log s" line]
    by (auto simp: as_inv_def log_text_def)
next
  case (swap s a t)
  then show ?case using lt_swap_ok [of "as_log s" "as_thread s"]
    by (auto simp: as_inv_def log_text_def lt_ok_def)
next
  case (round s ks t)
  then show ?case using lt_write_ok [of "as_thread s" ks]
    by (auto simp: as_inv_def log_text_def lt_ok_def split: if_splits)
qed

lemma as_inv_reach: "al_step\<^sup>*\<^sup>* s s' \<Longrightarrow> as_inv s \<Longrightarrow> as_inv s'"
  by (induction rule: rtranclp_induct) (auto intro: as_inv_step)

end
