(* ===== verification/LogProps.thy ===== *)
theory LogProps
  imports AsyncLog
begin

text \<open>
  Properties of the log: the integers of a line read back, a line is what was put into it, and the
  logging thread finds its buffers, keeps the order of the lines and writes them within a round.
\<close>

section \<open>Lines\<close>

text \<open>C39: A number of any of the integer types, the most negative one included, is written as digits and
  sign that read back as the number, in at most 21 bytes, which with the final zero is inside the 32
  bytes that the stream asks for.\<close>

theorem decimal_roundtrip:
  "read_int (convert v) = v \<and> set (convert_loop v) \<subseteq> {d. is_digit d} \<and>
   (- (2 ^ 63) \<le> v \<and> v < 2 ^ 64 \<longrightarrow> int (length (convert v)) + 1 \<le> kMaxNumericSize)"
proof -
  have "length (convert v) \<le> 21" if "- (2 ^ 63) \<le> v" "v < 2 ^ 64"
    by (rule length_convert) (use that in simp)
  then show ?thesis
    using read_convert [of v] convert_loop_digits [of v] by (auto simp: kMaxNumericSize_def)
qed

theorem decimal_roundtrip_witness:
  "read_int (convert (- 9223372036854775808)) = - 9223372036854775808 \<and>
   int (length (convert (- 9223372036854775808))) + 1 \<le> 32"
  using decimal_roundtrip [of "- 9223372036854775808"] by (simp add: kMaxNumericSize_def)







section \<open>The asynchronous log\<close>

text \<open>C8: Whatever the order in which threads append lines and the logging thread runs, none of its
  asserts fails and no null pointer is met; and until a round has dropped buffers, the file, the buffers
  being written and the buffers being filled hold together exactly the lines appended, in their order.\<close>

theorem async_log_order:
  assumes "al_step\<^sup>*\<^sup>* async_start s" "0 \<notin> set ks"
  shows "(as_phase s = Head \<longrightarrow> lt_check (as_thread s) = Inr () \<and>
      (\<exists>a t. lt_swap (as_log s) (as_thread s) = Inr (a, t))) \<and>
    (as_phase s = Swapped \<longrightarrow> (\<exists>t. lt_write ks (as_thread s) = Inr t)) \<and>
    (as_kept s \<longrightarrow> log_text s = concat (as_lines s))"
proof -
  have "as_inv s" by (rule as_inv_reach [OF assms(1) as_inv_start])
  then show ?thesis
    using lt_check_ok [of "as_thread s"] lt_swap_ok [of "as_log s" "as_thread s"]
      lt_write_ok [OF _ assms(2), of "as_thread s"]
    by (fastforce simp: as_inv_def)
qed

definition async_sample :: async_system where
  "async_sample = async_start\<lparr>as_log := al_append [72] (al_start AsyncLogging), as_lines := [[72]]\<rparr>"

lemma async_sample_reached: "al_step\<^sup>*\<^sup>* async_start async_sample"
proof -
  have "al_step async_start
      (async_start\<lparr>as_log := al_append [72] (as_log async_start), as_lines := as_lines async_start @ [[72]]\<rparr>)"
    by (rule al_step.append) (simp add: kLargeBuffer_def)
  then show ?thesis by (simp add: async_sample_def async_start_def)
qed

theorem async_log_order_witness:
  "lt_check (as_thread async_sample) = Inr () \<and> log_text async_sample = [72]"
proof -
  have "as_phase async_sample = Head" "as_kept async_sample" "as_lines async_sample = [[72]]"
    by (simp_all add: async_sample_def async_start_def)
  then show ?thesis using async_log_order [OF async_sample_reached, of "[]"] by simp
qed

text \<open>C9: One round of the logging thread, whatever buffers its fwrite calls split: when at most 24 full
  buffers wait, every line appended before the round is in the file and flushed after it; with more, only
  the first two buffers are written and the rest is lost.\<close>

theorem log_round_writes:
  assumes "al_step\<^sup>*\<^sup>* async_start s" "as_phase s = Head" "0 \<notin> set ks"
  shows "\<exists>a t t'. lt_swap (as_log s) (as_thread s) = Inr (a, t) \<and> lt_write ks t = Inr t' \<and>
    (as_kept s \<and> length (al_buffers (as_log s)) \<le> 24 \<longrightarrow>
      af_text (lf_file (lt_output t')) = concat (as_lines s)) \<and>
    (24 < length (al_buffers (as_log s)) \<longrightarrow>
      af_text (lf_file (lt_output t')) = af_text (lf_file (lt_output (as_thread s))) @
        concat (map fb_text (take 2 (al_buffers (as_log s))))) \<and>
    af_flushed (lf_file (lt_output t')) = length (af_text (lf_file (lt_output t')))"
proof -
  have inv: "as_inv s" by (rule as_inv_reach [OF assms(1) as_inv_start])
  then have ok: "al_ok (as_log s)" "lt_ok Head (as_thread s)" "as_kept s \<Longrightarrow> log_text s = concat (as_lines s)"
    using assms(2) by (auto simp: as_inv_def)
  have e: "lt_towrite (as_thread s) = []" using ok(2) by (simp add: lt_ok_def)
  from lt_swap_ok [OF ok(1,2)] obtain a t where
    a: "lt_swap (as_log s) (as_thread s) = Inr (a, t)" "lt_ok Swapped t"
      "lt_towrite t = al_buffers (as_log s) @ [al_current (as_log s)]" "lt_output t = lt_output (as_thread s)"
    by blast
  from lt_write_ok [OF a(2) assms(3)] obtain t' where
    t: "lt_write ks t = Inr t'"
      "af_text (lf_file (lt_output t')) = af_text (lf_file (lt_output t)) @
        concat (map fb_text (if length (lt_towrite t) > 25 then take 2 (lt_towrite t) else lt_towrite t))"
      "af_flushed (lf_file (lt_output t')) = length (af_text (lf_file (lt_output t')))"
    by blast
  have "log_text s = af_text (lf_file (lt_output t)) @ concat (map fb_text (lt_towrite t))"
    by (simp add: log_text_def e a(3,4))
  then show ?thesis using a(1,3,4) t ok(3) by (intro exI [of _ a] exI [of _ t] exI [of _ t']) auto
qed

theorem log_round_writes_witness:
  "\<exists>a t t'. lt_swap (as_log async_sample) (as_thread async_sample) = Inr (a, t) \<and> lt_write [1] t = Inr t' \<and>
     af_text (lf_file (lt_output t')) = [72] \<and> af_flushed (lf_file (lt_output t')) = 1"
proof -
  have s: "as_phase async_sample = Head" "as_kept async_sample" "as_lines async_sample = [[72]]"
    "length (al_buffers (as_log async_sample)) \<le> 24"
    by (simp_all add: async_sample_def async_start_def al_append_def Let_def al_start_def AsyncLogging_def
        fb_avail_def FixedBuffer_def kLargeBuffer_def)
  then show ?thesis using log_round_writes [OF async_sample_reached s(1), of "[1]"] by fastforce
qed

end
