(* ===== verification/LogOps.thy ===== *)
theory LogOps
  imports LogStream
begin

text \<open>
  The operators of \<open>LogStream\<close> over the memory of its buffer: \<open>FixedBuffer\<close> as the array \<open>data_\<close> and the
  pointer \<open>cur_\<close>, with every write checked against the array, and every operator of the class at the width
  of its argument. The lines of the other theories are those of the buffer as a text; here the two are
  related. Then the name of the log file and the cached thread id.
\<close>

section \<open>FixedBuffer in memory\<close>

text \<open>\<open>cur_\<close> is an offset into the array. The array is not initialised.\<close>

record rawbuf =
  rb_data :: block
  rb_cur :: nat


definition raw_data :: "rawbuf \<Rightarrow> block" where
  "raw_data b = rb_data b"

definition raw_length :: "rawbuf \<Rightarrow> int" where
  "raw_length b = int (rb_cur b)"






definition raw_bzero :: "rawbuf \<Rightarrow> rawbuf" where
  "raw_bzero b = b\<lparr>rb_data := replicate (length (rb_data b)) 0\<rparr>"



section \<open>The operators\<close>




















definition stream_buffer :: "rawbuf \<Rightarrow> rawbuf" where
  "stream_buffer b = b"






section \<open>Memory and text\<close>
















section \<open>The name of the log file\<close>

text \<open>
  The static members of \<open>Logger\<close>: the name, and the logger that \<open>pthread_once\<close> makes at the first line
  with the name it finds then. \<open>logged\<close> are the lines handed to it.
\<close>

record log_globals =
  logFileName :: string
  async_file :: "string option"
  logged :: "block list"

definition log_globals_init :: log_globals where
  "log_globals_init = \<lparr>logFileName = ''/linya_WebServer.log'', async_file = None, logged = []\<rparr>"

definition setLogFileName :: "string \<Rightarrow> log_globals \<Rightarrow> log_globals" where
  "setLogFileName n g = g\<lparr>logFileName := n\<rparr>"

definition getLogFileName :: "log_globals \<Rightarrow> string" where
  "getLogFileName g = logFileName g"

definition once_init :: "log_globals \<Rightarrow> log_globals" where
  "once_init g = g\<lparr>async_file := Some (getLogFileName g)\<rparr>"

definition log_output :: "block \<Rightarrow> log_globals \<Rightarrow> log_globals" where
  "log_output msg g =
     (let g = (if async_file g = None then once_init g else g) in g\<lparr>logged := logged g @ [msg]\<rparr>)"

text \<open>The file is the one named before the first line; a name set later has no effect.\<close>

lemma first_line_fixes_file:
  "async_file (log_output msg (setLogFileName n log_globals_init)) = Some n"
  "async_file g = Some f \<Longrightarrow> async_file (log_output msg (setLogFileName n g)) = Some f"
  by (simp_all add: log_output_def once_init_def getLogFileName_def setLogFileName_def log_globals_init_def Let_def)

section \<open>The cached thread id\<close>

record tid_cache =
  t_cachedTid :: int
  t_tidString :: block
  t_tidStringLength :: int
  t_threadName :: string

definition tid_cache_init :: "block \<Rightarrow> tid_cache" where
  "tid_cache_init junk = \<lparr>t_cachedTid = 0, t_tidString = junk, t_tidStringLength = 6, t_threadName = ''default''\<rparr>"

text \<open>\<open>%5d\<close> and a blank: the number at the right of at least five columns.\<close>

definition tid_format :: "int \<Rightarrow> block" where
  "tid_format n = replicate (5 - length (convert n)) 32 @ convert n @ [32]"

text \<open>\<open>tid\<close> is what the system call returns. \<open>snprintf\<close> stores at most 31 bytes and a zero.\<close>

definition cacheTid :: "int \<Rightarrow> tid_cache \<Rightarrow> tid_cache" where
  "cacheTid tid c =
     (if t_cachedTid c = 0
      then c\<lparr>t_cachedTid := tid, t_tidStringLength := int (length (tid_format tid)),
             t_tidString := blit 0 (take 31 (tid_format tid) @ [0]) (t_tidString c)\<rparr>
      else c)"

definition current_tid :: "int \<Rightarrow> tid_cache \<Rightarrow> int \<times> tid_cache" where
  "current_tid tid c = (let c = (if t_cachedTid c = 0 then cacheTid tid c else c) in (t_cachedTid c, c))"

definition tidString :: "tid_cache \<Rightarrow> block" where
  "tidString c = t_tidString c"

definition tidStringLength :: "tid_cache \<Rightarrow> int" where
  "tidStringLength c = t_tidStringLength c"

definition thread_name :: "tid_cache \<Rightarrow> string" where
  "thread_name c = t_threadName c"

text \<open>
  The first call asks the system, later ones do not; the string is the number with its length, inside
  its 32 bytes.
\<close>

lemma current_tid_cached:
  assumes "tid \<noteq> 0" "length junk = 32" "\<bar>tid\<bar> < 2 ^ 31"
  shows "\<exists>c. current_tid tid (tid_cache_init junk) = (tid, c) \<and> current_tid other c = (tid, c) \<and>
    take (nat (tidStringLength c)) (tidString c) = tid_format tid \<and> length (tidString c) = 32"
proof -
  have "length (convert tid) \<le> 21" using assms(3) by (intro length_convert) simp
  then have "length (tid_format tid) \<le> 22" by (simp add: tid_format_def)
  then show ?thesis
    using assms by (simp add: current_tid_def cacheTid_def tid_cache_init_def tidString_def tidStringLength_def
        Let_def blit_def)
qed

end
