(* ===== verification/PollServer.thy ===== *)
theory PollServer
  imports GroupServer
begin

unbundle bit_operations_syntax

text \<open>
  The first chat server, histroy/version-0.0.1/server.cpp: one thread polls the listening socket and at
  most five clients, keeps each client's data under its descriptor, and lets what one client sends be
  written to the others when they can be written to. The clients' data hold pointers into each other:
  such a pointer is the index of the client it points to.
\<close>

section \<open>State\<close>

definition USER_LIMIT :: int where "USER_LIMIT = 5"
definition FD_LIMIT :: int where "FD_LIMIT = 10"
definition BUFFSIZE :: nat where "BUFFSIZE = 128"

definition POLLIN :: "16 word" where "POLLIN = 1"
definition POLLOUT :: "16 word" where "POLLOUT = 4"
definition POLLERR :: "16 word" where "POLLERR = 8"
definition POLLHUP :: "16 word" where "POLLHUP = 16"
definition POLLNVAL :: "16 word" where "POLLNVAL = 32"
definition POLLRDHUP :: "16 word" where "POLLRDHUP = 0x2000"

lemmas poll_flags = POLLIN_def POLLOUT_def POLLERR_def POLLHUP_def POLLNVAL_def POLLRDHUP_def

record pollfd =
  pf_fd :: int
  pf_events :: "16 word"
  pf_revents :: "16 word"

text \<open>A pointer that was never set, the null pointer, or one into the data of a client.\<close>

datatype cptr = Unset | Null | Into int

record client_data =
  cd_address :: sockaddr
  cd_write_post :: cptr
  cd_buf :: block
  cd_write_addr :: cptr

record pollserver =
  ps_users :: "client_data list"
  ps_fds :: "pollfd list"
  ps_count :: int
  ps_closed :: "int list"
  ps_sent :: "(int \<times> block) list"

definition has :: "16 word \<Rightarrow> 16 word \<Rightarrow> bool" where
  "has w f \<longleftrightarrow> w AND f \<noteq> 0"

text \<open>\<open>main\<close> up to the loop; \<open>junk\<close> is what \<open>new\<close> finds in memory.\<close>

definition ps_init :: "client_data list \<Rightarrow> int \<Rightarrow> pollserver" where
  "ps_init junk sock =
     \<lparr>ps_users = junk,
      ps_fds = \<lparr>pf_fd = sock, pf_events = POLLIN OR POLLERR, pf_revents = 0\<rparr> #
        replicate (nat USER_LIMIT) \<lparr>pf_fd = -1, pf_events = 0, pf_revents = 0\<rparr>,
      ps_count = 0, ps_closed = [], ps_sent = []\<rparr>"

section \<open>Arrays\<close>

definition fds_at :: "int \<Rightarrow> pollserver \<Rightarrow> pollfd res" where
  "fds_at i s = (if 0 \<le> i \<and> i < int (length (ps_fds s)) then Inr (ps_fds s ! nat i) else Inl OutOfBounds)"

definition fds_put :: "int \<Rightarrow> pollfd \<Rightarrow> pollserver \<Rightarrow> pollserver res" where
  "fds_put i p s = (if 0 \<le> i \<and> i < int (length (ps_fds s)) then Inr (s\<lparr>ps_fds := (ps_fds s)[nat i := p]\<rparr>)
     else Inl OutOfBounds)"

definition users_at :: "int \<Rightarrow> pollserver \<Rightarrow> client_data res" where
  "users_at k s = (if 0 \<le> k \<and> k < int (length (ps_users s)) then Inr (ps_users s ! nat k) else Inl OutOfBounds)"

definition users_put :: "int \<Rightarrow> client_data \<Rightarrow> pollserver \<Rightarrow> pollserver res" where
  "users_put k u s = (if 0 \<le> k \<and> k < int (length (ps_users s)) then Inr (s\<lparr>ps_users := (ps_users s)[nat k := u]\<rparr>)
     else Inl OutOfBounds)"

section \<open>New clients\<close>

text \<open>
  \<open>poll\<close> reports, of what has happened on a descriptor, what was asked for, and errors always; only
  the first \<open>user_count + 1\<close> entries are looked at.
\<close>

definition ps_poll :: "(int \<Rightarrow> 16 word) \<Rightarrow> pollserver \<Rightarrow> pollserver" where
  "ps_poll rv s =
     s\<lparr>ps_fds := map (\<lambda>p. p\<lparr>pf_revents := rv (pf_fd p) AND (pf_events p OR POLLERR OR POLLHUP OR POLLNVAL)\<rparr>)
                   (take (nat (ps_count s + 1)) (ps_fds s)) @ drop (nat (ps_count s + 1)) (ps_fds s)\<rparr>"

text \<open>The boolean tells that the loop over the clients is skipped.\<close>

definition ps_accept :: "int \<Rightarrow> sockaddr \<Rightarrow> pollserver \<Rightarrow> (bool \<times> pollserver) res" where
  "ps_accept connfd peer s =
     (if connfd < 0 then Inr (True, s)
      else if ps_count s \<ge> USER_LIMIT
      then Inr (True, s\<lparr>ps_sent := ps_sent s @ [(connfd, str_bytes ''User count reached limit'')],
                       ps_closed := ps_closed s @ [connfd]\<rparr>)
      else let s = s\<lparr>ps_count := ps_count s + 1\<rparr> in
        rbind (users_at connfd s) (\<lambda>u. rbind (users_put connfd (u\<lparr>cd_address := peer\<rparr>) s) (\<lambda>s.
          rbind (fds_put (ps_count s) \<lparr>pf_fd = connfd, pf_events = POLLIN OR POLLERR OR POLLRDHUP, pf_revents = 0\<rparr> s)
            (\<lambda>s. Inr (False, s)))))"

section \<open>The clients\<close>

text \<open>A client is removed: the data of the last one are copied over its own, and so is its entry.\<close>

definition ps_remove :: "int \<Rightarrow> pollserver \<Rightarrow> pollserver res" where
  "ps_remove i s =
     rbind (fds_at i s) (\<lambda>p. rbind (fds_at (ps_count s) s) (\<lambda>l.
       rbind (users_at (pf_fd l) s) (\<lambda>u. rbind (users_put (pf_fd p) u s) (\<lambda>s.
         rbind (fds_put i l (s\<lparr>ps_closed := ps_closed s @ [pf_fd p]\<rparr>)) (\<lambda>s.
           Inr (s\<lparr>ps_count := ps_count s - 1\<rparr>))))))"

text \<open>\<open>events |= ~POLLIN\<close> and \<open>events |= POLLOUT\<close>, and the pointers to the sender.\<close>

definition ps_mark :: "int \<Rightarrow> int \<Rightarrow> pollserver \<Rightarrow> pollserver res" where
  "ps_mark connfd j s =
     rbind (fds_at j s) (\<lambda>p.
       if pf_fd p = connfd then Inr s
       else rbind (fds_put j (p\<lparr>pf_events := (pf_events p OR NOT POLLIN) OR POLLOUT\<rparr>) s) (\<lambda>s.
         rbind (users_at (pf_fd p) s) (\<lambda>u.
           users_put (pf_fd p) (u\<lparr>cd_write_post := Into connfd, cd_write_addr := Into connfd\<rparr>) s)))"

text \<open>A client can be read; \<open>rd\<close> is what \<open>read\<close> finds, \<open>None\<close> if it fails. The boolean: it was removed.\<close>

definition ps_read :: "block option \<Rightarrow> int \<Rightarrow> pollserver \<Rightarrow> (bool \<times> pollserver) res" where
  "ps_read rd i s =
     rbind (fds_at i s) (\<lambda>p. let connfd = pf_fd p in
       rbind (users_at connfd s) (\<lambda>u. rbind (users_put connfd (u\<lparr>cd_buf := replicate BUFFSIZE 0\<rparr>) s) (\<lambda>s.
         case rd of None \<Rightarrow> rbind (ps_remove i s) (\<lambda>s. Inr (True, s))
         | Some rx \<Rightarrow>
             let d = take (BUFFSIZE - 1) rx in
             if d = [] then Inr (False, s)
             else rbind (users_put connfd
                          (u\<lparr>cd_buf := (blit 0 d (replicate BUFFSIZE 0))[length d - 1 := 0]\<rparr>) s) (\<lambda>s.
                  rbind (rfold (ps_mark connfd) [1..ps_count s] s) (\<lambda>s. Inr (False, s))))))"

text \<open>
  A client can be written to; \<open>ntoa\<close> is \<open>inet_ntoa\<close>. The string is put together in a buffer of 158
  bytes, of which 157 are written whatever its length.
\<close>

definition ps_string :: "(32 word \<Rightarrow> block) \<Rightarrow> sockaddr \<Rightarrow> block \<Rightarrow> block res" where
  "ps_string ntoa addr post =
     rbind (c_str post) (\<lambda>msg. let str = ntoa (sa_ip addr) @ str_bytes '' say:'' @ msg in
       if length str < BUFFSIZE + 30 then Inr (str @ replicate (BUFFSIZE + 30 - length str) 0) else Inl OutOfBounds)"

definition ps_send :: "(32 word \<Rightarrow> block) \<Rightarrow> int \<Rightarrow> pollfd \<Rightarrow> client_data \<Rightarrow> int \<Rightarrow> int \<Rightarrow> pollserver \<Rightarrow> pollserver res" where
  "ps_send ntoa i p u k k' s =
     rbind (users_at k' s) (\<lambda>ua. rbind (users_at k s) (\<lambda>ub.
       rbind (ps_string ntoa (cd_address ua) (cd_buf ub)) (\<lambda>buf.
         rbind (users_put (pf_fd p) (u\<lparr>cd_write_post := Null, cd_write_addr := Null\<rparr>)
                 (s\<lparr>ps_sent := ps_sent s @ [(pf_fd p, take (BUFFSIZE + 29) buf)]\<rparr>)) (\<lambda>s.
           fds_put i (p\<lparr>pf_events := (pf_events p OR NOT POLLOUT) OR POLLIN\<rparr>) s))))"

definition ps_write :: "(32 word \<Rightarrow> block) \<Rightarrow> int \<Rightarrow> pollserver \<Rightarrow> pollserver res" where
  "ps_write ntoa i s =
     rbind (fds_at i s) (\<lambda>p. rbind (users_at (pf_fd p) s) (\<lambda>u. case cd_write_post u of
         Null \<Rightarrow> Inr s
       | Unset \<Rightarrow> Inl UninitRead
       | Into k \<Rightarrow> (case cd_write_addr u of
             Into k' \<Rightarrow> ps_send ntoa i p u k k' s
           | Null \<Rightarrow> Inl NullDeref
           | Unset \<Rightarrow> Inl UninitRead)))"

definition ps_visit :: "(32 word \<Rightarrow> block) \<Rightarrow> (int \<Rightarrow> block option) \<Rightarrow> int \<Rightarrow> pollserver \<Rightarrow> (bool \<times> pollserver) res" where
  "ps_visit ntoa rd i s =
     rbind (fds_at i s) (\<lambda>p.
       if has (pf_revents p) POLLERR then Inr (False, s)
       else if has (pf_revents p) POLLRDHUP then rbind (ps_remove i s) (\<lambda>s. Inr (True, s))
       else if 0 < i \<and> has (pf_revents p) POLLIN then ps_read (rd (pf_fd p)) i s
       else if has (pf_revents p) POLLOUT then rbind (ps_write ntoa i s) (\<lambda>s. Inr (False, s))
       else Inr (False, s))"

text \<open>The loop over the entries: an entry that was filled with the last one is looked at again.\<close>

lemma fds_put_count [simp]: "fds_put i p s = Inr s' \<Longrightarrow> ps_count s' = ps_count s"
  by (auto simp: fds_put_def split: if_splits)

lemma users_put_count [simp]: "users_put k u s = Inr s' \<Longrightarrow> ps_count s' = ps_count s"
  by (auto simp: users_put_def split: if_splits)

lemma ps_remove_count: "ps_remove i s = Inr s' \<Longrightarrow> ps_count s' = ps_count s - 1"
  by (auto simp: ps_remove_def res_simps)

lemma ps_mark_count: "ps_mark c j s = Inr s' \<Longrightarrow> ps_count s' = ps_count s"
  by (auto simp: ps_mark_def res_simps split: if_splits)

lemma ps_marks_count: "rfold (ps_mark c) js s = Inr s' \<Longrightarrow> ps_count s' = ps_count s"
  by (induction js arbitrary: s) (auto simp: res_simps dest: ps_mark_count)

lemma ps_read_count: "ps_read rd i s = Inr (rm, s') \<Longrightarrow> ps_count s' = ps_count s - of_bool rm"
  by (auto simp: ps_read_def res_simps Let_def dest!: ps_remove_count ps_marks_count split: option.splits if_splits)

lemma ps_send_count: "ps_send ntoa i p u k k' s = Inr s' \<Longrightarrow> ps_count s' = ps_count s"
  by (auto simp: ps_send_def res_simps)

lemma ps_write_count:
  assumes "ps_write ntoa i s = Inr s'"
  shows "ps_count s' = ps_count s"
proof -
  from assms obtain p u where "fds_at i s = Inr p" "users_at (pf_fd p) s = Inr u"
    by (auto simp: ps_write_def rbind_eq_Inr_iff simp del: rbind_Inr)
  with assms show ?thesis
    by (cases "cd_write_post u"; cases "cd_write_addr u") (auto simp: ps_write_def dest: ps_send_count)
qed

lemma ps_visit_count: "ps_visit ntoa rd i s = Inr (rm, s') \<Longrightarrow> ps_count s' = ps_count s - of_bool rm"
  by (auto simp: ps_visit_def res_simps dest: ps_remove_count ps_read_count ps_write_count split: if_splits)

function ps_loop :: "(32 word \<Rightarrow> block) \<Rightarrow> (int \<Rightarrow> block option) \<Rightarrow> int \<Rightarrow> pollserver \<Rightarrow> pollserver res" where
  "ps_loop ntoa rd i s =
     (if i < ps_count s + 1
      then rbind (ps_visit ntoa rd i s) (\<lambda>r. ps_loop ntoa rd (if fst r then i else i + 1) (snd r))
      else Inr s)"
  by auto

termination
proof (relation "measure (\<lambda>(ntoa, rd, i, s). nat (ps_count s + 1 - i))")
  fix ntoa rd i s and r :: "bool \<times> pollserver"
  assume "i < ps_count s + 1" "ps_visit ntoa rd i s = Inr r"
  then show "((ntoa, rd, if fst r then i else i + 1, snd r), ntoa, rd, i, s)
      \<in> measure (\<lambda>(ntoa, rd, i, s). nat (ps_count s + 1 - i))"
    using ps_visit_count [of ntoa rd i s "fst r" "snd r"] by auto
qed simp

declare ps_loop.simps [simp del]

definition ps_iter ::
  "(32 word \<Rightarrow> block) \<Rightarrow> (int \<Rightarrow> 16 word) \<Rightarrow> int \<times> sockaddr \<Rightarrow> (int \<Rightarrow> block option) \<Rightarrow> pollserver \<Rightarrow> pollserver res"
where
  "ps_iter ntoa rv acc rd s =
     (let s = ps_poll rv s in
      rbind (fds_at 0 s) (\<lambda>p0.
        rbind (if has (pf_revents p0) POLLIN then ps_accept (fst acc) (snd acc) s else Inr (False, s)) (\<lambda>r.
          if fst r then Inr (snd r) else ps_loop ntoa rd 0 (snd r))))"

section \<open>The client\<close>

text \<open>
  client.c passes what is typed on to the server and prints what it reads, at most 157 bytes at a time,
  up to the first zero; the last byte read is overwritten by one.
\<close>

definition pc_show :: "block \<Rightarrow> block option" where
  "pc_show rx =
     (let d = take (BUFFSIZE + 30 - 1) rx in
      if d = [] then None else Some (c_string (d[length d - 1 := 0] @ replicate (BUFFSIZE + 30 - length d) 0)))"

end
