(* ===== verification/PollProps.thy ===== *)
theory PollProps
  imports PollServer
begin

unbundle bit_operations_syntax

text \<open>
  Properties of the first server: what one client sends is written to all the others in the next round,
  with the sender's address; and what becomes of it when the sender leaves in between.
\<close>

section \<open>Flags and entries\<close>

lemma poll_exps:
  "POLLIN = 2 ^ 0" "POLLOUT = 2 ^ 2" "POLLERR = 2 ^ 3" "POLLHUP = 2 ^ 4" "POLLNVAL = 2 ^ 5" "POLLRDHUP = 2 ^ 13"
  by (simp_all add: poll_flags)

lemma has_exp: "has w (2 ^ n) \<longleftrightarrow> bit w n"
  by (simp only: has_def and_exp_eq_0_iff_not_bit not_not)

lemma has_bits:
  "has w POLLIN \<longleftrightarrow> bit w 0" "has w POLLOUT \<longleftrightarrow> bit w 2" "has w POLLERR \<longleftrightarrow> bit w 3"
  "has w POLLRDHUP \<longleftrightarrow> bit w 13"
  by (simp_all only: poll_exps has_exp)

lemma poll_bits:
  "bit POLLIN n \<longleftrightarrow> n = 0" "bit POLLOUT n \<longleftrightarrow> n = 2" "bit POLLERR n \<longleftrightarrow> n = 3" "bit POLLHUP n \<longleftrightarrow> n = 4"
  "bit POLLNVAL n \<longleftrightarrow> n = 5"
  by (auto simp only: poll_exps bit_exp_iff possible_bit_word) simp_all

definition entry :: "pollserver \<Rightarrow> int \<Rightarrow> pollfd" where
  "entry s j = ps_fds s ! nat j"

definition client :: "pollserver \<Rightarrow> int \<Rightarrow> client_data" where
  "client s k = ps_users s ! nat k"

text \<open>The arrays have their sizes and the clients in use have different descriptors inside the array.\<close>

definition ps_ok :: "pollserver \<Rightarrow> bool" where
  "ps_ok s \<longleftrightarrow> length (ps_fds s) = 6 \<and> length (ps_users s) = 10 \<and> 0 \<le> ps_count s \<and> ps_count s \<le> 5 \<and>
     (\<forall>j \<in> {1..ps_count s}. 0 \<le> pf_fd (entry s j) \<and> pf_fd (entry s j) < 10 \<and> has (pf_events (entry s j)) POLLIN) \<and>
     inj_on (\<lambda>j. pf_fd (entry s j)) {1..ps_count s} \<and> pf_fd (entry s 0) \<notin> (\<lambda>j. pf_fd (entry s j)) ` {1..ps_count s}"

lemma fds_at_ok: "ps_ok s \<Longrightarrow> 0 \<le> j \<Longrightarrow> j \<le> ps_count s \<Longrightarrow> fds_at j s = Inr (entry s j)"
  by (simp add: fds_at_def ps_ok_def entry_def)

lemma ps_init_ok: "length junk = 10 \<Longrightarrow> ps_ok (ps_init junk sock)"
  by (simp add: ps_ok_def ps_init_def USER_LIMIT_def)

text \<open>A new client with a descriptor of its own and inside the array; a sixth one is sent away.\<close>

lemma ps_accept_ok:
  assumes "ps_ok s" "0 \<le> fd" "fd < 10" "\<forall>j \<in> {0..ps_count s}. pf_fd (entry s j) \<noteq> fd"
  shows "\<exists>full s'. ps_accept fd peer s = Inr (full, s') \<and> ps_ok s' \<and> (full \<longleftrightarrow> ps_count s = 5) \<and>
    ps_count s' = min 5 (ps_count s + 1) \<and>
    (\<not> full \<longrightarrow> pf_fd (entry s' (ps_count s + 1)) = fd \<and> cd_address (client s' fd) = peer)"
proof (cases "ps_count s = 5")
  case True
  then show ?thesis using assms(1,2) by (auto simp: ps_accept_def USER_LIMIT_def ps_ok_def entry_def)
next
  case False
  let ?n = "ps_count s + 1"
  let ?p = "\<lparr>pf_fd = fd, pf_events = POLLIN OR POLLERR OR POLLRDHUP, pf_revents = 0\<rparr>"
  let ?s = "s\<lparr>ps_count := ?n, ps_users := (ps_users s)[nat fd := (client s fd)\<lparr>cd_address := peer\<rparr>],
    ps_fds := (ps_fds s)[nat ?n := ?p]\<rparr>"
  have n: "length (ps_fds s) = 6" "length (ps_users s) = 10" "0 \<le> ps_count s" "ps_count s < 5"
    using assms(1) False by (auto simp: ps_ok_def)
  have acc: "ps_accept fd peer s = Inr (False, ?s)"
  proof -
    let ?s1 = "s\<lparr>ps_count := ?n\<rparr>"
    let ?s2 = "?s1\<lparr>ps_users := (ps_users s)[nat fd := (client s fd)\<lparr>cd_address := peer\<rparr>]\<rparr>"
    have "users_at fd ?s1 = Inr (client s fd)" using n assms(2,3) by (simp add: users_at_def client_def)
    moreover have "users_put fd ((client s fd)\<lparr>cd_address := peer\<rparr>) ?s1 = Inr ?s2"
      using n assms(2,3) by (simp add: users_put_def)
    moreover have "fds_put ?n ?p ?s2 = Inr ?s" using n by (simp add: fds_put_def)
    moreover have "\<not> fd < 0" "\<not> USER_LIMIT \<le> ps_count s" using assms(2) n(4) by (simp_all add: USER_LIMIT_def)
    moreover have "ps_count ?s1 = ?n" "ps_count ?s2 = ?n" by simp_all
    ultimately show ?thesis unfolding ps_accept_def Let_def by (simp only: if_False rbind_Inr)
  qed
  have e: "entry ?s j = (if j = ?n then ?p else entry s j)" if "0 \<le> j" for j
    using n that by (auto simp: entry_def nth_list_update)
  have split: "{1..?n} = insert ?n {1..ps_count s}" using n(3) by auto
  have ev: "has (POLLIN OR POLLERR OR POLLRDHUP) POLLIN" by (simp add: has_bits bit_or_iff poll_bits)
  define t where "t = ?s"
  have t: "length (ps_fds t) = 6" "length (ps_users t) = 10" "ps_count t = ?n" "entry t 0 = entry s 0" "entry t ?n = ?p"
    using n e [of 0] e [of ?n] by (simp_all add: t_def)
  have old: "entry t j = entry s j" if "j \<in> {1..ps_count s}" for j using that e [of j] by (simp add: t_def)
  have in_s: "\<forall>j \<in> {1..ps_count s}. 0 \<le> pf_fd (entry s j) \<and> pf_fd (entry s j) < 10 \<and> has (pf_events (entry s j)) POLLIN"
    "inj_on (\<lambda>j. pf_fd (entry s j)) {1..ps_count s}"
    "pf_fd (entry s 0) \<notin> (\<lambda>j. pf_fd (entry s j)) ` {1..ps_count s}"
    using assms(1) unfolding ps_ok_def by blast+
  have im: "(\<lambda>j. pf_fd (entry t j)) ` {1..ps_count s} = (\<lambda>j. pf_fd (entry s j)) ` {1..ps_count s}"
    by (rule image_cong) (simp_all add: old)
  have new: "fd \<notin> (\<lambda>j. pf_fd (entry t j)) ` {1..ps_count s}" "pf_fd (entry s 0) \<noteq> fd"
    unfolding im using assms(4) n(3) by auto
  have "inj_on (\<lambda>j. pf_fd (entry t j)) {1..ps_count s}"
    using in_s(2) inj_on_cong [of "{1..ps_count s}" "\<lambda>j. pf_fd (entry t j)" "\<lambda>j. pf_fd (entry s j)"] old by simp
  then have "inj_on (\<lambda>j. pf_fd (entry t j)) {1..?n}"
    unfolding split using new(1) t(5) by (auto simp: inj_on_insert)
  moreover have "pf_fd (entry t 0) \<notin> (\<lambda>j. pf_fd (entry t j)) ` {1..?n}"
    unfolding split image_insert im t(4,5) using in_s(3) new(2) by simp
  moreover have "\<forall>j \<in> {1..?n}. 0 \<le> pf_fd (entry t j) \<and> pf_fd (entry t j) < 10 \<and> has (pf_events (entry t j)) POLLIN"
    unfolding split using in_s(1) old t(5) assms(2,3) ev by simp
  ultimately have "ps_ok t" unfolding ps_ok_def t(1-3) using n by simp
  then have "ps_ok ?s" by (simp only: t_def)
  then show ?thesis using acc n e [of ?n] assms(2,3) by (auto simp: client_def)
qed

section \<open>The loop\<close>



text \<open>What an operation leaves alone: the sizes, the descriptors and the reported events.\<close>

definition same_shape :: "pollserver \<Rightarrow> pollserver \<Rightarrow> bool" where
  "same_shape s s' \<longleftrightarrow> length (ps_fds s') = length (ps_fds s) \<and> length (ps_users s') = length (ps_users s) \<and>
     ps_count s' = ps_count s \<and> ps_closed s' = ps_closed s \<and>
     (\<forall>j. pf_fd (entry s' j) = pf_fd (entry s j) \<and> pf_revents (entry s' j) = pf_revents (entry s j)) \<and>
     (\<forall>k. cd_buf (client s' k) = cd_buf (client s k) \<and> cd_address (client s' k) = cd_address (client s k))"

lemma same_shape_refl [simp]: "same_shape s s"
  by (simp add: same_shape_def)


lemma ps_send_shape:
  assumes "ps_send ntoa i p u k k' s = Inr s'" "fds_at i s = Inr p" "users_at (pf_fd p) s = Inr u"
  shows "same_shape s s'"
  using assms
  by (auto simp: ps_send_def res_simps fds_put_def users_put_def fds_at_def users_at_def same_shape_def entry_def
      client_def nth_list_update split: if_splits)

lemma ps_write_shape:
  assumes "ps_write ntoa i s = Inr s'"
  shows "same_shape s s'"
proof -
  from assms obtain p u where "fds_at i s = Inr p" "users_at (pf_fd p) s = Inr u"
    by (auto simp: ps_write_def rbind_eq_Inr_iff simp del: rbind_Inr)
  with assms show ?thesis
    by (cases "cd_write_post u"; cases "cd_write_addr u") (auto simp: ps_write_def dest: ps_send_shape)
qed


section \<open>A client that says something\<close>






section \<open>Writing to the others\<close>

lemma ps_write_pending:
  assumes "length (ps_fds s) = 6" "length (ps_users s) = 10" "0 \<le> j" "j < 6" "0 \<le> pf_fd (entry s j)"
    "pf_fd (entry s j) < 10" "0 \<le> c" "c < 10"
    and "ps_string ntoa (cd_address (client s c)) (cd_buf (client s c)) = Inr buf"
    and "cd_write_post (client s (pf_fd (entry s j))) = Null \<or>
      cd_write_post (client s (pf_fd (entry s j))) = Into c \<and> cd_write_addr (client s (pf_fd (entry s j))) = Into c"
  shows "\<exists>t. ps_write ntoa j s = Inr t \<and> same_shape s t \<and>
    ps_sent t = ps_sent s @ (if cd_write_post (client s (pf_fd (entry s j))) = Into c
      then [(pf_fd (entry s j), take (BUFFSIZE + 29) buf)] else []) \<and>
    (\<forall>k \<ge> 0. k \<noteq> pf_fd (entry s j) \<longrightarrow> client t k = client s k)"
proof -
  have at: "fds_at j s = Inr (entry s j)" using assms by (simp add: fds_at_def entry_def)
  have ua: "users_at k s = Inr (client s k)" if "0 \<le> k" "k < 10" for k
    using that assms(2) by (simp add: users_at_def client_def)
  show ?thesis
  proof (cases "cd_write_post (client s (pf_fd (entry s j))) = Null")
    case True
    then show ?thesis using at ua assms(5,6) by (simp add: ps_write_def)
  next
    case False
    then have p: "cd_write_post (client s (pf_fd (entry s j))) = Into c" "cd_write_addr (client s (pf_fd (entry s j))) = Into c"
      using assms(10) by simp_all
    then have w: "ps_write ntoa j s = ps_send ntoa j (entry s j) (client s (pf_fd (entry s j))) c c s"
      using at ua assms(5,6) by (simp add: ps_write_def)
    obtain t where t: "ps_write ntoa j s = Inr t" "ps_sent t = ps_sent s @ [(pf_fd (entry s j), take (BUFFSIZE + 29) buf)]"
      "\<forall>k \<ge> 0. k \<noteq> pf_fd (entry s j) \<longrightarrow> client t k = client s k"
      unfolding w ps_send_def
      using ua assms by (auto simp: users_put_def fds_put_def client_def nat_eq_iff2)
    show ?thesis using t ps_write_shape [OF t(1)] p(1) by auto
  qed
qed


section \<open>Two rounds\<close>





definition relayed :: "(32 word \<Rightarrow> block) \<Rightarrow> sockaddr \<Rightarrow> block \<Rightarrow> block" where
  "relayed ntoa addr msg =
     (let str = ntoa (sa_ip addr) @ str_bytes '' say:'' @ msg in take 157 (str @ replicate (158 - length str) 0))"



lemma ps_string_relayed:
  assumes "0 \<notin> set msg" "length msg \<le> 127" "length (ntoa (sa_ip addr)) \<le> 15"
  shows "\<exists>buf. ps_string ntoa addr (msg @ 0 # r) = Inr buf \<and> take (BUFFSIZE + 29) buf = relayed ntoa addr msg"
  using assms by (simp add: ps_string_def relayed_def Let_def BUFFSIZE_def)


text \<open>The client prints exactly the address and the message: the zeros that fill up the 157 bytes end them.\<close>

lemma c_string_filled:
  assumes "0 \<notin> set str"
  shows "c_string ((str @ replicate (Suc k) 0)[length str + k := 0] @ zs) = str"
proof -
  have "(replicate (Suc k) (0::byte))[k := 0] = replicate (Suc k) 0"
    by (rule nth_equalityI) (auto simp: nth_list_update simp del: replicate_Suc)
  then have "(str @ replicate (Suc k) 0)[length str + k := 0] @ zs = str @ 0 # replicate k 0 @ zs"
    by (simp add: list_update_append del: replicate_Suc) simp
  moreover have "takeWhile (\<lambda>c. c \<noteq> 0) str = str" using assms by (auto simp: takeWhile_eq_all_conv)
  ultimately show ?thesis by (simp add: c_string_def takeWhile_tail)
qed

lemma relayed_shown:
  assumes "0 \<notin> set msg" "length msg \<le> 127" "length (ntoa (sa_ip addr)) \<le> 15" "0 \<notin> set (ntoa (sa_ip addr))"
  shows "pc_show (relayed ntoa addr msg @ rest) = Some (ntoa (sa_ip addr) @ str_bytes '' say:'' @ msg)"
proof -
  define str where "str = ntoa (sa_ip addr) @ str_bytes '' say:'' @ msg"
  have n: "length str \<le> 147" using assms by (simp add: str_def)
  then obtain k where k: "157 - length str = Suc k" by (cases "157 - length str") auto
  have r: "relayed ntoa addr msg = str @ replicate (Suc k) 0"
    using n k by (simp add: relayed_def Let_def str_def [symmetric] del: replicate_Suc)
  have l: "length (relayed ntoa addr msg) = 157" "length (relayed ntoa addr msg) - 1 = length str + k"
    using k n by (simp_all add: r)
  have z: "0 \<notin> set str" using assms(1,4) by (auto simp: str_def str_bytes_def of_char_def)
  have t: "take (BUFFSIZE + 30 - 1) (relayed ntoa addr msg @ rest) = relayed ntoa addr msg"
    using l(1) by (simp add: BUFFSIZE_def)
  have "relayed ntoa addr msg \<noteq> []" using l(1) by force
  then show ?thesis
    unfolding pc_show_def t Let_def l(2) str_def [symmetric] using c_string_filled [OF z] by (simp only: r if_False)
qed

text \<open>Three clients on the descriptors 4, 5 and 6; 3 is the listening socket.\<close>

definition sample_polled :: pollserver where
  "sample_polled =
     (let u = \<lparr>cd_address = \<lparr>sa_ip = 7, sa_port = 8\<rparr>, cd_write_post = Unset, cd_buf = [], cd_write_addr = Unset\<rparr>;
          p = \<lambda>fd. \<lparr>pf_fd = fd, pf_events = POLLIN OR POLLERR OR POLLRDHUP, pf_revents = 0\<rparr>
      in \<lparr>ps_users = replicate 10 u, ps_fds = [p 3, p 4, p 5, p 6, p (-1), p (-1)], ps_count = 3, ps_closed = [],
          ps_sent = []\<rparr>)"

lemma upto_3: "{1..3::int} = {1, 2, 3}"
  by auto

lemma sample_polled_ok: "ps_ok sample_polled"
  by (simp add: ps_ok_def sample_polled_def Let_def entry_def upto_3 has_bits bit_or_iff poll_bits inj_on_def
      numeral_2_eq_2 numeral_3_eq_3)


text \<open>A client that leaves before its message has been passed on: its data are overwritten with those
  of the last client, to which the pointers of the others now lead. They are sent what the last client
  said before, under the last client's address; and if that one has never spoken, the bytes after its
  buffer are read.\<close>

theorem sender_leaves:
  assumes "ps_ok s" "i \<in> {1..ps_count s}" "j \<in> {1..ps_count s}" "j \<noteq> i" "j \<noteq> ps_count s"
    and "cd_write_post (client s (pf_fd (entry s j))) = Into (pf_fd (entry s i))"
    and "cd_write_addr (client s (pf_fd (entry s j))) = Into (pf_fd (entry s i))"
    and "l = client s (pf_fd (entry s (ps_count s)))" "length (ntoa (sa_ip (cd_address l))) \<le> 15"
  shows "\<exists>s1. ps_remove i s = Inr s1 \<and> entry s1 j = entry s j \<and>
    (\<forall>m r. cd_buf l = m @ 0 # r \<and> 0 \<notin> set m \<and> length m \<le> 127 \<longrightarrow>
       (\<exists>s2. ps_write ntoa j s1 = Inr s2 \<and>
          ps_sent s2 = ps_sent s @ [(pf_fd (entry s j), relayed ntoa (cd_address l) m)])) \<and>
    (0 \<notin> set (cd_buf l) \<longrightarrow> ps_write ntoa j s1 = Inl OutOfBounds)"
proof -
  let ?a = "pf_fd (entry s i)" and ?b = "pf_fd (entry s j)" and ?n = "ps_count s"
  define s1 where "s1 = s\<lparr>ps_users := (ps_users s)[nat ?a := l], ps_closed := ps_closed s @ [?a],
      ps_fds := (ps_fds s)[nat i := entry s ?n], ps_count := ?n - 1\<rparr>"
  have ok: "length (ps_fds s) = 6" "length (ps_users s) = 10" "?n \<le> 5" "0 \<le> ?a" "?a < 10" "0 \<le> ?b" "?b < 10"
      "0 \<le> pf_fd (entry s ?n)" "pf_fd (entry s ?n) < 10" "?a \<noteq> ?b"
    using assms(1-4) by (auto simp: ps_ok_def inj_on_def)
  have at: "fds_at m s = Inr (entry s m)" if "0 \<le> m" "m \<le> ?n" for m by (rule fds_at_ok [OF assms(1) that])
  have rm: "ps_remove i s = Inr s1"
    using at [of i] at [of ?n] assms(2) ok
    by (simp add: ps_remove_def users_at_def users_put_def fds_put_def s1_def assms(8) client_def)
  have e: "entry s1 j = entry s j" using assms(2-4) by (simp add: s1_def entry_def nat_eq_iff2)
  have c: "client s1 ?a = l" "client s1 ?b = client s ?b"
    using ok by (simp_all add: s1_def client_def nat_eq_iff2)
  have l1: "length (ps_fds s1) = 6" "length (ps_users s1) = 10" "ps_sent s1 = ps_sent s"
    using ok by (simp_all add: s1_def)
  have jr: "0 \<le> j" "j < 6" using assms(3) ok(3) by auto
  have at1: "fds_at j s1 = Inr (entry s j)" using jr l1 e by (simp add: fds_at_def entry_def)
  have ua: "users_at ?b s1 = Inr (client s ?b)" "users_at ?a s1 = Inr l"
    using ok l1 c by (simp_all add: users_at_def client_def)
  have w: "ps_write ntoa j s1 = ps_send ntoa j (entry s j) (client s ?b) ?a ?a s1"
    using at1 ua assms(6,7) by (simp add: ps_write_def)
  have "\<exists>s2. ps_write ntoa j s1 = Inr s2 \<and> ps_sent s2 = ps_sent s @ [(?b, relayed ntoa (cd_address l) m)]"
    if m: "cd_buf l = m @ 0 # r" "0 \<notin> set m" "length m \<le> 127" for m r
  proof -
    from ps_string_relayed [of m ntoa "cd_address l", OF m(2,3) assms(9)] obtain buf where
      b: "ps_string ntoa (cd_address l) (cd_buf l) = Inr buf" "take (BUFFSIZE + 29) buf = relayed ntoa (cd_address l) m"
      unfolding m(1) by blast
    from ps_write_pending [of s1 j ?a ntoa buf] obtain t where
      "ps_write ntoa j s1 = Inr t" "ps_sent t = ps_sent s1 @ [(?b, take (BUFFSIZE + 29) buf)]"
      using l1 jr e c ok assms(6,7) b(1) by auto
    then show ?thesis using b(2) l1(3) by simp
  qed
  moreover have "ps_write ntoa j s1 = Inl OutOfBounds" if "0 \<notin> set (cd_buf l)"
    using c_str_no_zero [OF that] ua unfolding w ps_send_def ps_string_def by simp
  ultimately show ?thesis using rm e by blast
qed

theorem sender_leaves_witness:
  "\<exists>s1. ps_remove 1 (sample_polled\<lparr>ps_users := (ps_users sample_polled)[5 := (client sample_polled 5)
       \<lparr>cd_write_post := Into 4, cd_write_addr := Into 4\<rparr>]\<rparr>) = Inr s1 \<and>
     ps_write (\<lambda>_. [49]) 2 s1 = Inl OutOfBounds"
proof -
  let ?s = "sample_polled\<lparr>ps_users := (ps_users sample_polled)[5 := (client sample_polled 5)
       \<lparr>cd_write_post := Into 4, cd_write_addr := Into 4\<rparr>]\<rparr>"
  have s: "entry ?s = entry sample_polled" "ps_count ?s = 3" by (simp_all add: entry_def fun_eq_iff sample_polled_def Let_def)
  have f: "pf_fd (entry ?s 1) = 4" "pf_fd (entry ?s 2) = 5" "pf_fd (entry ?s 3) = 6"
    by (simp_all add: sample_polled_def Let_def entry_def numeral_2_eq_2 numeral_3_eq_3)
  have ok: "ps_ok ?s" using sample_polled_ok unfolding ps_ok_def s by (simp add: sample_polled_def Let_def)
  have c: "cd_write_post (client ?s 5) = Into 4" "cd_write_addr (client ?s 5) = Into 4" "cd_buf (client ?s 6) = []"
    by (simp_all add: client_def sample_polled_def Let_def)
  from sender_leaves [OF ok, of 1 2 "client ?s 6" "\<lambda>_. [49]"] s f c show ?thesis by auto
qed

end
