(* ===== verification/PollClient.thy ===== *)
theory PollClient
  imports PollServer "HOL-Library.Sublist"
begin

text \<open>
  The client of the first server, client.c: one loop around \<open>poll\<close> on the standard input and the
  connection. What is typed goes through a pipe, by two calls of \<open>splice\<close> that copy nothing into the
  program; what comes from the server is printed.
\<close>

section \<open>The state\<close>

text \<open>
  \<open>pc_stdin\<close>: what has been typed and not read yet, \<open>pc_stdin_eof\<close>: whether no more will come;
  \<open>pc_pipe\<close>: the contents of the pipe; \<open>pc_sent\<close>: what has gone to the server; \<open>pc_rx\<close>, \<open>pc_rx_eof\<close>: what
  the server has sent and whether it has closed; \<open>pc_out\<close>: the lines printed.
\<close>

record pollclient =
  pc_stdin :: block
  pc_stdin_eof :: bool
  pc_pipe :: block
  pc_sent :: block
  pc_rx :: block
  pc_rx_eof :: bool
  pc_out :: "block list"

datatype pc_result = Goes_on pollclient | Blocked pollclient | Left_loop pollclient

definition pc_init :: pollclient where
  "pc_init = \<lparr>pc_stdin = [], pc_stdin_eof = False, pc_pipe = [], pc_sent = [], pc_rx = [],
     pc_rx_eof = False, pc_out = []\<rparr>"

definition SPLICE_MAX :: nat where
  "SPLICE_MAX = 32768"

text \<open>
  \<open>splice\<close> from the standard input to the pipe: as much as is there, up to the limit; nothing at its end.
  \<open>None\<close>: the call waits, because there is nothing to read and more may come.
\<close>

definition splice_in :: "pollclient \<Rightarrow> pollclient option" where
  "splice_in c =
     (if pc_stdin c = [] \<and> \<not> pc_stdin_eof c then None
      else Some (c\<lparr>pc_pipe := pc_pipe c @ take SPLICE_MAX (pc_stdin c), pc_stdin := drop SPLICE_MAX (pc_stdin c)\<rparr>))"

text \<open>
  \<open>splice\<close> from the pipe to the connection moves at least one byte; \<open>k\<close> is how many more the connection
  takes. An empty pipe whose writing end is open makes the call wait, here for ever: the only writer is the
  program itself.
\<close>

definition splice_out :: "nat \<Rightarrow> pollclient \<Rightarrow> pollclient option" where
  "splice_out k c =
     (if pc_pipe c = [] then None
      else let n = min (Suc k) SPLICE_MAX
           in Some (c\<lparr>pc_sent := pc_sent c @ take n (pc_pipe c), pc_pipe := drop n (pc_pipe c)\<rparr>))"

section \<open>One pass of the loop\<close>

text \<open>What \<open>poll\<close> reports: its return value and the flags it sets.\<close>

record pc_poll =
  pp_ret :: int
  pp_stdin_in :: bool
  pp_conn_in :: bool
  pp_conn_rdhup :: bool

definition pc_typed :: "nat \<Rightarrow> pollclient \<Rightarrow> pc_result" where
  "pc_typed k c = (case splice_in c of None \<Rightarrow> Blocked c
     | Some c \<Rightarrow> (case splice_out k c of None \<Rightarrow> Blocked c | Some c \<Rightarrow> Goes_on c))"

definition pc_received :: "pollclient \<Rightarrow> pollclient" where
  "pc_received c = (case pc_show (pc_rx c) of None \<Rightarrow> c
     | Some line \<Rightarrow> c\<lparr>pc_out := pc_out c @ [line], pc_rx := drop (BUFFSIZE + 30 - 1) (pc_rx c)\<rparr>)"

definition pc_iter :: "pc_poll \<Rightarrow> nat \<Rightarrow> pollclient \<Rightarrow> pc_result" where
  "pc_iter p k c =
     (if pp_ret p < 0 then Left_loop c
      else case (if pp_stdin_in p then pc_typed k c else Goes_on c) of
        Goes_on c \<Rightarrow>
          if pp_conn_in p then Goes_on (pc_received c)
          else if pp_conn_rdhup p then Left_loop c
          else Goes_on c
      | r \<Rightarrow> r)"

text \<open>Arguments, socket and connection: the value that \<open>main\<close> returns if it does not reach the loop.\<close>

definition pc_begin :: "nat \<Rightarrow> int \<Rightarrow> int \<Rightarrow> int \<Rightarrow> int option" where
  "pc_begin argc connfd connected piped =
     (if argc \<noteq> 3 then Some 0
      else if connfd < 0 then Some 1
      else if connected < 0 then Some 2
      else if piped < 0 then Some 3
      else None)"

text \<open>What \<open>poll\<close> reports truly: input is readable at its end as well, and so is a closed connection.\<close>

definition poll_true :: "pollclient \<Rightarrow> pc_poll \<Rightarrow> bool" where
  "poll_true c p \<longleftrightarrow> pp_ret p \<ge> 0 \<and> (pp_stdin_in p \<longleftrightarrow> pc_stdin c \<noteq> [] \<or> pc_stdin_eof c) \<and>
     (pp_conn_in p \<longleftrightarrow> pc_rx c \<noteq> [] \<or> pc_rx_eof c) \<and> (pp_conn_rdhup p \<longleftrightarrow> pc_rx_eof c)"

section \<open>Runs\<close>

datatype pc_event = Types block | Closes_stdin | Sends block | Server_closes | Pass pc_poll nat

fun pc_step :: "pc_event \<Rightarrow> pollclient \<Rightarrow> pc_result" where
  "pc_step (Types d) c = Goes_on (if pc_stdin_eof c then c else c\<lparr>pc_stdin := pc_stdin c @ d\<rparr>)"
| "pc_step Closes_stdin c = Goes_on (c\<lparr>pc_stdin_eof := True\<rparr>)"
| "pc_step (Sends d) c = Goes_on (if pc_rx_eof c then c else c\<lparr>pc_rx := pc_rx c @ d\<rparr>)"
| "pc_step Server_closes c = Goes_on (c\<lparr>pc_rx_eof := True\<rparr>)"
| "pc_step (Pass p k) c = pc_iter p k c"

fun pc_run :: "pc_event list \<Rightarrow> pollclient \<Rightarrow> pc_result" where
  "pc_run [] c = Goes_on c"
| "pc_run (e # es) c = (case pc_step e c of Goes_on c \<Rightarrow> pc_run es c | r \<Rightarrow> r)"

fun result_state :: "pc_result \<Rightarrow> pollclient" where
  "result_state (Goes_on c) = c"
| "result_state (Blocked c) = c"
| "result_state (Left_loop c) = c"

fun typed_bytes :: "bool \<Rightarrow> pc_event list \<Rightarrow> block" where
  "typed_bytes closed [] = []"
| "typed_bytes closed (Types d # es) = (if closed then [] else d) @ typed_bytes closed es"
| "typed_bytes closed (Closes_stdin # es) = typed_bytes True es"
| "typed_bytes closed (_ # es) = typed_bytes closed es"

definition pc_stream :: "pollclient \<Rightarrow> block" where
  "pc_stream c = pc_sent c @ pc_pipe c @ pc_stdin c"

lemma splice_in_stream: "splice_in c = Some c' \<Longrightarrow> pc_stream c' = pc_stream c \<and> pc_stdin_eof c' = pc_stdin_eof c"
  by (auto simp: splice_in_def pc_stream_def split: if_splits)

lemma splice_out_stream: "splice_out k c = Some c' \<Longrightarrow> pc_stream c' = pc_stream c \<and> pc_stdin_eof c' = pc_stdin_eof c"
  by (auto simp: splice_out_def pc_stream_def Let_def split: if_splits)

lemma pc_iter_stream:
  "pc_stream (result_state (pc_iter p k c)) = pc_stream c \<and>
   pc_stdin_eof (result_state (pc_iter p k c)) = pc_stdin_eof c"
proof -
  have rec: "pc_stream (pc_received c) = pc_stream c \<and> pc_stdin_eof (pc_received c) = pc_stdin_eof c" for c
    by (simp add: pc_received_def pc_stream_def split: option.split)
  show ?thesis
    by (auto simp: pc_iter_def pc_typed_def rec split: option.split dest!: splice_in_stream splice_out_stream)
qed

lemma pc_run_stream:
  "prefix (pc_stream (result_state (pc_run es c))) (pc_stream c @ typed_bytes (pc_stdin_eof c) es) \<and>
   (\<forall>c'. pc_run es c = Goes_on c' \<longrightarrow> pc_stream c' = pc_stream c @ typed_bytes (pc_stdin_eof c) es)"
proof (induction es arbitrary: c)
  case Nil
  then show ?case by simp
next
  case (Cons e es)
  show ?case
  proof (cases e)
    case (Types d)
    then show ?thesis
      using Cons.IH [of c] Cons.IH [of "c\<lparr>pc_stdin := pc_stdin c @ d\<rparr>"]
      by (cases "pc_stdin_eof c") (simp_all add: pc_stream_def)
  next
    case Closes_stdin
    then show ?thesis using Cons.IH [of "c\<lparr>pc_stdin_eof := True\<rparr>"] by (simp add: pc_stream_def)
  next
    case (Sends d)
    then show ?thesis
      using Cons.IH [of c] Cons.IH [of "c\<lparr>pc_rx := pc_rx c @ d\<rparr>"] by (simp add: pc_stream_def)
  next
    case Server_closes
    then show ?thesis using Cons.IH [of "c\<lparr>pc_rx_eof := True\<rparr>"] by (simp add: pc_stream_def)
  next
    case (Pass p k)
    then show ?thesis
      using pc_iter_stream [of p k c] Cons.IH [of "result_state (pc_iter p k c)"]
      by (cases "pc_iter p k c") auto
  qed
qed

text \<open>Whatever is typed, however it is cut up and however little the connection takes at a time,
  the client sends it unchanged and in order: what has gone to the server is the beginning of what was typed,
  and the rest is in the pipe or not read yet.\<close>

theorem poll_client_sends_in_order:
  "prefix (pc_sent (result_state (pc_run es pc_init))) (typed_bytes False es) \<and>
   (case pc_run es pc_init of Goes_on c \<Rightarrow> pc_sent c @ pc_pipe c @ pc_stdin c = typed_bytes False es
    | r \<Rightarrow> prefix (pc_sent (result_state r) @ pc_pipe (result_state r) @ pc_stdin (result_state r))
             (typed_bytes False es))"
  using pc_run_stream [of es pc_init]
  by (auto simp: pc_stream_def pc_init_def prefix_def split: pc_result.split)

text \<open>
  How a session ends. At the end of the standard input the client waits for ever in its second
  \<open>splice\<close>, and it never learns that the server has closed: a closed connection is readable, so the test
  for it in the \<open>else\<close> branch is not reached.
\<close>

lemma stdin_end_blocks:
  assumes "pc_stdin c = []" "pc_stdin_eof c" "pc_pipe c = []" "poll_true c p"
  shows "pc_iter p k c = Blocked c"
  using assms by (simp add: pc_iter_def pc_typed_def splice_in_def splice_out_def poll_true_def)

lemma server_close_unnoticed:
  assumes "poll_true c p"
  shows "pc_iter p k c \<noteq> Left_loop c'"
  using assms by (auto simp: pc_iter_def pc_typed_def poll_true_def split: option.split pc_result.split)

text \<open>A byte that the connection did not take leaves only when something else is typed.\<close>

lemma leftover_waits:
  assumes "pc_stdin c = []" "\<not> pc_stdin_eof c" "poll_true c p"
  shows "pc_pipe (result_state (pc_iter p k c)) = pc_pipe c"
  using assms by (auto simp: pc_iter_def poll_true_def pc_received_def split: option.split)

end
