(* ===== verification/ThreadWrap.thy ===== *)
theory ThreadWrap
  imports CBytes
begin

text \<open>
  The thread wrapper of histroy/version-0.0.1: \<open>CountDownLatch\<close>, \<open>Thread\<close> and the data of a new thread
  (Thread.cpp). A thread that is started hands its id back through a pointer, and \<open>start\<close> waits for it on
  a latch. The two threads are cut where they hold the latch's mutex; waiting on the condition variable
  gives the mutex up, and only \<open>notifyAll\<close> (or a spurious wake-up) ends it.
\<close>

section \<open>CountDownLatch\<close>

record latch =
  la_count :: int
  la_asleep :: bool

definition CountDownLatch :: "int \<Rightarrow> latch" where
  "CountDownLatch n = \<lparr>la_count = n, la_asleep = False\<rparr>"

text \<open>
  One test of the loop in \<open>wait\<close>: the boolean tells that the loop is over, otherwise the caller sleeps.
\<close>

definition latch_wait :: "latch \<Rightarrow> bool \<times> latch" where
  "latch_wait l = (if la_count l > 0 then (False, l\<lparr>la_asleep := True\<rparr>) else (True, l))"

definition countDown :: "latch \<Rightarrow> latch" where
  "countDown l =
     (let l = l\<lparr>la_count := la_count l - 1\<rparr> in if la_count l = 0 then l\<lparr>la_asleep := False\<rparr> else l)"

section \<open>Thread\<close>

record wthread =
  th_started :: bool
  th_joined :: bool
  th_tid :: int
  th_name :: string
  th_latch :: latch

definition setDefaultName :: "string \<Rightarrow> string" where
  "setDefaultName n = (if n = '''' then ''Thread'' else n)"

definition Thread :: "string \<Rightarrow> wthread" where
  "Thread n = \<lparr>th_started = False, th_joined = False, th_tid = 0, th_name = setDefaultName n,
     th_latch = CountDownLatch 1\<rparr>"

text \<open>\<open>start\<close> up to the wait; \<open>rc\<close> is what \<open>pthread_create\<close> returns. The boolean: the thread runs.\<close>

definition thread_start :: "int \<Rightarrow> wthread \<Rightarrow> (bool \<times> wthread) res" where
  "thread_start rc t =
     rbind (guard (\<not> th_started t) AssertFailed) (\<lambda>_.
       let t = t\<lparr>th_started := True\<rparr> in
       if rc \<noteq> 0 then Inr (False, t\<lparr>th_started := False\<rparr>) else Inr (True, t))"

definition thread_started :: "wthread \<Rightarrow> unit res" where
  "thread_started t = guard (th_tid t > 0) AssertFailed"

definition thread_join :: "int \<Rightarrow> wthread \<Rightarrow> (int \<times> wthread) res" where
  "thread_join rc t =
     rbind (guard (th_started t) AssertFailed) (\<lambda>_. rbind (guard (\<not> th_joined t) AssertFailed) (\<lambda>_.
       Inr (rc, t\<lparr>th_joined := True\<rparr>)))"

text \<open>The destructor detaches a thread that was started and not joined.\<close>

definition thread_detaches :: "wthread \<Rightarrow> bool" where
  "thread_detaches t \<longleftrightarrow> th_started t \<and> \<not> th_joined t"

section \<open>Starting a thread\<close>

text \<open>
  The pointers of \<open>ThreadData\<close> are set to null once used; \<open>cd_gone\<close> tells that \<open>startThread\<close> has deleted
  it. The parent tests the latch, sleeps, or has returned from \<open>start\<close>.
\<close>

datatype parent = Testing | Asleep | Returned
datatype child = New | HasTid | CountedDown | Running | Finished

record start_system =
  st_thread :: wthread
  st_parent :: parent
  st_child :: child

definition start_init :: "string \<Rightarrow> start_system" where
  "start_init n = \<lparr>st_thread = (Thread n)\<lparr>th_started := True\<rparr>, st_parent = Testing, st_child = New\<rparr>"

text \<open>\<open>tid\<close> is what \<open>gettid\<close> returns in the new thread.\<close>

inductive start_step :: "int \<Rightarrow> start_system \<Rightarrow> start_system \<Rightarrow> bool" for tid where
  test: "st_parent s = Testing \<Longrightarrow> latch_wait (th_latch (st_thread s)) = (over, l) \<Longrightarrow>
    start_step tid s (s\<lparr>st_thread := (st_thread s)\<lparr>th_latch := l\<rparr>, st_parent := (if over then Returned else Asleep)\<rparr>)"
| wake: "st_parent s = Asleep \<Longrightarrow> \<not> la_asleep (th_latch (st_thread s)) \<Longrightarrow>
    start_step tid s (s\<lparr>st_parent := Testing\<rparr>)"
| spurious: "st_parent s = Asleep \<Longrightarrow>
    start_step tid s (s\<lparr>st_thread := (st_thread s)\<lparr>th_latch := (th_latch (st_thread s))\<lparr>la_asleep := False\<rparr>\<rparr>,
      st_parent := Testing\<rparr>)"
| set_tid: "st_child s = New \<Longrightarrow>
    start_step tid s (s\<lparr>st_thread := (st_thread s)\<lparr>th_tid := tid\<rparr>, st_child := HasTid\<rparr>)"
| count: "st_child s = HasTid \<Longrightarrow>
    start_step tid s (s\<lparr>st_thread := (st_thread s)\<lparr>th_latch := countDown (th_latch (st_thread s))\<rparr>,
      st_child := CountedDown\<rparr>)"
| run: "st_child s = CountedDown \<Longrightarrow> start_step tid s (s\<lparr>st_child := Running\<rparr>)"
| finish: "st_child s = Running \<Longrightarrow> start_step tid s (s\<lparr>st_child := Finished\<rparr>)"

definition start_inv :: "int \<Rightarrow> start_system \<Rightarrow> bool" where
  "start_inv tid s \<longleftrightarrow>
     th_started (st_thread s) \<and>
     la_count (th_latch (st_thread s)) = (if st_child s = New \<or> st_child s = HasTid then 1 else 0) \<and>
     (st_child s \<noteq> New \<longrightarrow> th_tid (st_thread s) = tid) \<and>
     (st_parent s = Returned \<longrightarrow> la_count (th_latch (st_thread s)) = 0) \<and>
     (la_asleep (th_latch (st_thread s)) \<longrightarrow> st_parent s = Asleep \<and> la_count (th_latch (st_thread s)) = 1)"

lemma start_inv_init: "start_inv tid (start_init n)"
  by (simp add: start_inv_def start_init_def Thread_def CountDownLatch_def)

lemma start_inv_step: "start_step tid s s' \<Longrightarrow> start_inv tid s \<Longrightarrow> start_inv tid s'"
  by (induction rule: start_step.induct)
    (auto simp: start_inv_def latch_wait_def countDown_def Let_def split: if_splits)

lemma start_inv_reach: "(start_step tid)\<^sup>*\<^sup>* s s' \<Longrightarrow> start_inv tid s \<Longrightarrow> start_inv tid s'"
  by (induction rule: rtranclp_induct) (auto intro: start_inv_step)

text \<open>C30: Whatever the interleaving, when \<open>start\<close> returns the id of the new thread is there, so that its
  assert holds; once the new thread has counted down the parent is not left asleep; and nothing is stuck
  before both are through.\<close>

theorem start_returns_with_tid:
  assumes "(start_step tid)\<^sup>*\<^sup>* (start_init n) s" "0 < tid"
  shows "(st_parent s = Returned \<longrightarrow> thread_started (st_thread s) = Inr ()) \<and>
    (st_child s \<notin> {New, HasTid} \<longrightarrow> \<not> la_asleep (th_latch (st_thread s))) \<and>
    ((\<nexists>s'. start_step tid s s') \<longrightarrow> st_parent s = Returned \<and> st_child s = Finished)"
proof -
  have inv: "start_inv tid s" by (rule start_inv_reach [OF assms(1) start_inv_init])
  have "st_parent s = Returned \<and> st_child s = Finished" if stuck: "\<nexists>s'. start_step tid s s'"
  proof
    have "st_parent s \<noteq> Testing" using stuck start_step.test [of s _ _ tid] by (metis surj_pair)
    moreover have "st_parent s \<noteq> Asleep" using stuck start_step.spurious [of s tid] by blast
    ultimately show "st_parent s = Returned" by (cases "st_parent s") auto
    show "st_child s = Finished"
      using stuck start_step.set_tid [of s tid] start_step.count [of s tid] start_step.run [of s tid]
        start_step.finish [of s tid] by (cases "st_child s") blast+
  qed
  moreover have "thread_started (st_thread s) = Inr ()" if "st_parent s = Returned"
    using inv that assms(2) by (auto simp: start_inv_def thread_started_def split: if_splits)
  ultimately show ?thesis using inv by (auto simp: start_inv_def)
qed

text \<open>The parent sleeps before the new thread counts down.\<close>

definition sample_started :: start_system where
  "sample_started = \<lparr>st_thread = (Thread ''log'')\<lparr>th_started := True, th_tid := 42,
     th_latch := CountDownLatch 0\<rparr>, st_parent = Returned, st_child = CountedDown\<rparr>"

lemma sample_started_reached: "(start_step 42)\<^sup>*\<^sup>* (start_init ''log'') sample_started"
proof -
  let ?t = "\<lambda>c a. (Thread ''log'')\<lparr>th_started := True, th_tid := c, th_latch := \<lparr>la_count = 1, la_asleep = a\<rparr>\<rparr>"
  let ?s1 = "\<lparr>st_thread = ?t 0 True, st_parent = Asleep, st_child = New\<rparr>"
  let ?s2 = "\<lparr>st_thread = ?t 42 True, st_parent = Asleep, st_child = HasTid\<rparr>"
  let ?s3 = "sample_started\<lparr>st_parent := Asleep\<rparr>"
  let ?s4 = "sample_started\<lparr>st_parent := Testing\<rparr>"
  have "start_step 42 (start_init ''log'') ?s1"
    using start_step.test [of "start_init ''log''" False "\<lparr>la_count = 1, la_asleep = True\<rparr>" 42]
    by (simp add: start_init_def Thread_def CountDownLatch_def latch_wait_def)
  moreover have "start_step 42 ?s1 ?s2" using start_step.set_tid [of ?s1 42] by (simp add: Thread_def)
  moreover have "start_step 42 ?s2 ?s3"
    using start_step.count [of ?s2 42]
    by (simp add: sample_started_def Thread_def CountDownLatch_def countDown_def)
  moreover have "start_step 42 ?s3 ?s4"
    using start_step.wake [of ?s3 42] by (simp add: sample_started_def CountDownLatch_def)
  moreover have "start_step 42 ?s4 sample_started"
    using start_step.test [of ?s4 True "CountDownLatch 0" 42]
    by (simp add: sample_started_def CountDownLatch_def latch_wait_def)
  ultimately show ?thesis by (meson converse_rtranclp_into_rtranclp rtranclp.rtrancl_refl)
qed

theorem start_returns_with_tid_witness: "thread_started (st_thread sample_started) = Inr ()"
  using start_returns_with_tid [OF sample_started_reached] by (simp add: sample_started_def)

end
