(* ===== verification/OldClient.thy ===== *)
theory OldClient
  imports GroupClient
begin

text \<open>
  The client of histroy/version-0.0.2: datagrams (UdpClient.cpp), the four threads and the signal handler
  (UdpClientMain.cpp) and the windows (window.cpp). The class of the messages is declared in
  comm/dataType.h, which is not part of the repository: its two conversions are arguments, and its fields
  are those that the code uses.
\<close>

section \<open>Datagrams\<close>

definition SIZE :: nat where
  "SIZE = 1024"

text \<open>
  \<open>recvData\<close>: \<open>dgram\<close> is \<open>None\<close> if \<open>recvfrom\<close> fails. The last byte received is overwritten by a zero, which for
  an empty datagram is the one before the buffer; the bytes up to the first zero are appended.
\<close>

definition uc_recvData :: "block option \<Rightarrow> block \<Rightarrow> (int \<times> block) res" where
  "uc_recvData dgram outString = (case dgram of None \<Rightarrow> Inr (- 1, outString)
     | Some rx \<Rightarrow>
         let d = take SIZE rx; buf = d @ replicate (SIZE - length d) 0 in
         if d = [] then Inl OutOfBounds
         else Inr (int (length d), outString @ c_string (buf[length d - 1 := 0])))"

definition uc_sendData :: "block \<Rightarrow> int \<Rightarrow> int \<times> block list" where
  "uc_sendData inString rc = (rc, if rc < 0 then [] else [inString])"

section \<open>The threads\<close>

record datatype_msg =
  dt_nick_name :: block
  dt_school :: block
  dt_msg :: block
  dt_cmd :: block

text \<open>
  \<open>oc_rows\<close>: the lines in the output window, \<open>oc_step\<close> the next row; \<open>oc_friends\<close>: \<open>circle_friend\<close>, a
  \<open>std::set\<close>.
\<close>

record oldclient =
  oc_send :: datatype_msg
  oc_friends :: "block set"
  oc_step :: int
  oc_rows :: "(int \<times> block) list"

definition name_school :: "datatype_msg \<Rightarrow> block" where
  "name_school m = dt_nick_name m @ str_bytes ''-'' @ dt_school m"

definition oc_line :: "datatype_msg \<Rightarrow> block" where
  "oc_line m = name_school m @ str_bytes '': '' @ dt_msg m"

text \<open>\<open>output_run\<close> for one datagram; \<open>y\<close> is the height of the window. A full window is drawn anew.\<close>

definition oc_show :: "int \<Rightarrow> block \<Rightarrow> oldclient \<Rightarrow> oldclient res" where
  "oc_show y line c =
     (let c = c\<lparr>oc_rows := oc_rows c @ [(oc_step c, line)], oc_step := oc_step c + 1\<rparr> in
      if y = 0 then Inl DivByZero
      else let step = oc_step c smod y in
        Inr (if step = 0 then c\<lparr>oc_rows := [(1, line)], oc_step := 2\<rparr> else c\<lparr>oc_step := step\<rparr>))"

definition output_run_iter :: "(block \<Rightarrow> datatype_msg) \<Rightarrow> int \<Rightarrow> block option \<Rightarrow> oldclient \<Rightarrow> oldclient res" where
  "output_run_iter str_to_val y dgram c =
     rbind (uc_recvData dgram []) (\<lambda>(_, msg).
       let m = str_to_val msg in
       if dt_cmd m = str_bytes ''QUIT'' then Inr (c\<lparr>oc_friends := oc_friends c - {name_school m}\<rparr>)
       else oc_show y (oc_line m) (c\<lparr>oc_friends := insert (name_school m) (oc_friends c)\<rparr>))"

text \<open>One pass of \<open>friendList_run\<close> over the friends in their order.\<close>

fun friendList_pass :: "int \<Rightarrow> block list \<Rightarrow> int \<Rightarrow> (int \<times> block) list \<Rightarrow> ((int \<times> block) list) res" where
  "friendList_pass y [] step rows = Inr rows"
| "friendList_pass y (f # fs) step rows =
     (if y = 0 then Inl DivByZero
      else let step' = (step + 1) smod y in
        if step' = 0 then friendList_pass y fs 2 [(1, f)]
        else friendList_pass y fs step' (rows @ [(step, f)]))"

definition input_run_iter :: "(datatype_msg \<Rightarrow> block) \<Rightarrow> block \<Rightarrow> int \<Rightarrow> oldclient \<Rightarrow> block list \<times> oldclient" where
  "input_run_iter val_to_str msg rc c =
     (let c = c\<lparr>oc_send := (oc_send c)\<lparr>dt_msg := msg\<rparr>\<rparr>
      in (snd (uc_sendData (val_to_str (oc_send c)) rc), c))"

definition hander :: "(datatype_msg \<Rightarrow> block) \<Rightarrow> int \<Rightarrow> oldclient \<Rightarrow> block list \<times> stop" where
  "hander val_to_str rc c =
     (let m = (oc_send c)\<lparr>dt_cmd := str_bytes ''QUIT'', dt_msg := str_bytes ''None''\<rparr>
      in (snd (uc_sendData (val_to_str m) rc), Exited 1))"

text \<open>\<open>header_run\<close>: the column of the title in a window of \<open>x\<close> columns.\<close>

definition header_step :: "int \<Rightarrow> int \<Rightarrow> int res" where
  "header_step x step = (if x - 1 = 0 then Inl DivByZero else Inr ((step + 1) smod (x - 1)))"

definition old_main :: "block \<Rightarrow> block \<Rightarrow> oldclient" where
  "old_main nick school =
     \<lparr>oc_send = \<lparr>dt_nick_name = nick, dt_school = school, dt_msg = [], dt_cmd = str_bytes ''None''\<rparr>,
      oc_friends = {}, oc_step = 1, oc_rows = []\<rparr>"

section \<open>Windows\<close>

definition createHeader :: "int \<Rightarrow> int \<Rightarrow> window" where
  "createHeader ln co = \<lparr>w_h = ln sdiv 5, w_w = co, w_y = 0, w_x = 0\<rparr>"

definition createOutput :: "int \<Rightarrow> int \<Rightarrow> window" where
  "createOutput ln co = \<lparr>w_h = ln * 3 sdiv 5, w_w = co * 2 sdiv 3, w_y = ln sdiv 5, w_x = 0\<rparr>"

definition createFriendList :: "int \<Rightarrow> int \<Rightarrow> window" where
  "createFriendList ln co = \<lparr>w_h = ln * 3 sdiv 5, w_w = co * 1 sdiv 3, w_y = ln sdiv 5, w_x = co * 2 sdiv 3\<rparr>"

definition createInput :: "int \<Rightarrow> int \<Rightarrow> window" where
  "createInput ln co = \<lparr>w_h = ln sdiv 5, w_w = co, w_y = ln * 4 sdiv 5, w_x = 0\<rparr>"

section \<open>Lemmas\<close>

text \<open>What is received is what was sent without its last byte, which the client that sends does not allow for.\<close>

lemma uc_recv_cut:
  assumes "d \<noteq> []" "length d \<le> SIZE" "0 \<notin> set (butlast d)"
  shows "uc_recvData (Some d) s = Inr (int (length d), s @ butlast d)"
proof -
  have t: "take SIZE d = d" using assms(2) by simp
  have "(d @ replicate (SIZE - length d) 0)[length d - 1 := 0] = d[length d - 1 := 0] @ replicate (SIZE - length d) 0"
    using assms(1) by (simp add: list_update_append)
  also have "d[length d - 1 := 0] = butlast d @ [0]"
    using assms(1) by (cases d rule: rev_cases) simp_all
  finally have e: "(d @ replicate (SIZE - length d) 0)[length d - 1 := 0] = butlast d @ 0 # replicate (SIZE - length d) 0"
    by simp
  have "takeWhile (\<lambda>c. c \<noteq> 0) (butlast d) = butlast d" using assms(3) by (auto simp: takeWhile_eq_all_conv)
  then have "c_string (butlast d @ 0 # replicate (SIZE - length d) 0) = butlast d"
    by (simp add: c_string_def takeWhile_tail)
  then show ?thesis unfolding uc_recvData_def option.case Let_def t if_not_P [OF assms(1)] e by simp
qed

lemma uc_recv_empty: "uc_recvData (Some []) s = Inl OutOfBounds"
  by (simp add: uc_recvData_def Let_def)

text \<open>The rows of the window stay between its borders, whatever comes in.\<close>

definition rows_ok :: "int \<Rightarrow> oldclient \<Rightarrow> bool" where
  "rows_ok y c \<longleftrightarrow> 1 \<le> oc_step c \<and> oc_step c < y \<and> (\<forall>(r, _) \<in> set (oc_rows c). 1 \<le> r \<and> r < y)"

lemma oc_show_ok:
  assumes "3 \<le> y" "rows_ok y c"
  shows "\<exists>c'. oc_show y line c = Inr c' \<and> rows_ok y c' \<and> snd (last (oc_rows c')) = line \<and>
    oc_friends c' = oc_friends c"
proof -
  have "(oc_step c + 1) smod y = (oc_step c + 1) mod y"
    using assms by (simp add: signed_modulo_int_def rows_ok_def)
  moreover have "(oc_step c + 1) mod y = (if oc_step c + 1 = y then 0 else oc_step c + 1)"
    using assms by (auto simp: rows_ok_def)
  ultimately show ?thesis using assms by (auto simp: oc_show_def Let_def rows_ok_def)
qed

lemma output_run_ok:
  assumes "3 \<le> y" "rows_ok y c" "d \<noteq> []" "length d \<le> SIZE" "0 \<notin> set (butlast d)" "m = str_to_val (butlast d)"
  shows "\<exists>c'. output_run_iter str_to_val y (Some d) c = Inr c' \<and> rows_ok y c' \<and>
    (if dt_cmd m = str_bytes ''QUIT'' then oc_friends c' = oc_friends c - {name_school m}
     else oc_friends c' = insert (name_school m) (oc_friends c) \<and> snd (last (oc_rows c')) = oc_line m)"
proof -
  have r: "uc_recvData (Some d) [] = Inr (int (length d), butlast d)" using uc_recv_cut [OF assms(3-5), of "[]"] by simp
  have ok: "rows_ok y (c\<lparr>oc_friends := F\<rparr>)" for F using assms(2) by (simp add: rows_ok_def)
  show ?thesis
    using oc_show_ok [OF assms(1) ok [of "insert (name_school m) (oc_friends c)"], of "oc_line m"] ok assms(6)
    by (auto simp: output_run_iter_def r Let_def)
qed

text \<open>The title: the columns repeat from 0 to \<open>x - 2\<close>; a window of one column ends the program.\<close>

lemma header_step_range: "2 < x \<Longrightarrow> 0 \<le> step \<Longrightarrow> step < x - 1 \<Longrightarrow>
  \<exists>s'. header_step x step = Inr s' \<and> 0 \<le> s' \<and> s' < x - 1"
  by (auto simp: header_step_def signed_modulo_int_def)

end
