(* ===== verification/Screen.thy ===== *)
theory Screen
  imports OldClient
begin

text \<open>
  What the graphical clients ask of the ncurses library: \<open>Version\<close> of include/version.h with the threads of
  src/client.cpp and the test of test/txproj_version.cpp, and \<open>myWindow\<close> of histroy/version-0.0.2 with the
  threads of UdpClientMain.cpp. The library is not part of the repository: a run is the list of the calls
  made, a window is its number in the order of creation, and what the library says of the size of a
  window and what it stores of a typed line are arguments.
\<close>

section \<open>Calls of the library\<close>

datatype curses =
    Initscr
  | Endwin
  | Curs_set int
  | Newwin window
  | Delwin nat
  | Box nat byte byte
  | Wrefresh nat
  | Mvwaddstr nat int int block
  | Wmove nat int int
  | Wclrtoeol nat

text \<open>\<open>LINES\<close> and \<open>COLS\<close>, the windows made so far and the calls.\<close>

record screen =
  sc_lines :: int
  sc_cols :: int
  sc_windows :: "window list"
  sc_calls :: "curses list"

definition screen_new :: "int \<Rightarrow> int \<Rightarrow> screen" where
  "screen_new ln co = \<lparr>sc_lines = ln, sc_cols = co, sc_windows = [], sc_calls = []\<rparr>"

definition ask :: "curses \<Rightarrow> screen \<Rightarrow> screen" where
  "ask c s = s\<lparr>sc_calls := sc_calls s @ [c]\<rparr>"

definition newwin :: "window \<Rightarrow> screen \<Rightarrow> nat \<times> screen" where
  "newwin w s = (length (sc_windows s), (ask (Newwin w) s)\<lparr>sc_windows := sc_windows s @ [w]\<rparr>)"

text \<open>
  \<open>wgetnstr(w, buf, n)\<close>: \<open>stored\<close> is what the library stores for a limit of \<open>n\<close>, its final zero included,
  into an array of \<open>n\<close> bytes; the result is the string in it.
\<close>

definition read_line :: "(nat \<Rightarrow> block) \<Rightarrow> nat \<Rightarrow> block \<Rightarrow> block res" where
  "read_line stored n buf = rbind (c_memcpy 0 (stored n) buf (int (length (stored n)))) c_str"

section \<open>Version\<close>

text \<open>The four members are windows; the constructor leaves them unset.\<close>

record version =
  v_header :: "nat option"
  v_output :: "nat option"
  v_input :: "nat option"
  v_online :: "nat option"

definition Version :: "screen \<Rightarrow> version \<times> screen" where
  "Version s = (\<lparr>v_header = None, v_output = None, v_input = None, v_online = None\<rparr>, ask Initscr s)"

definition Version_copy :: "version \<Rightarrow> version" where
  "Version_copy rhx = \<lparr>v_header = v_header rhx, v_output = v_output rhx, v_input = v_input rhx, v_online = v_online rhx\<rparr>"

definition Version_end :: "screen \<Rightarrow> screen" where
  "Version_end s = ask Endwin s"

definition getHeader :: "version \<Rightarrow> nat option" where "getHeader v = v_header v"
definition getOutput :: "version \<Rightarrow> nat option" where "getOutput v = v_output v"
definition getInput :: "version \<Rightarrow> nat option" where "getInput v = v_input v"
definition getOnline :: "version \<Rightarrow> nat option" where "getOnline v = v_online v"

text \<open>A new window with the border of dollar and equals signs, shown at once.\<close>

definition draw_window :: "window \<Rightarrow> screen \<Rightarrow> nat \<times> screen" where
  "draw_window w s =
     (let (n, s) = newwin w s in (n, ask (Wrefresh n) (ask (Box n (of_char CHR ''$'') (of_char CHR ''='')) s)))"

definition ver_drawHeader :: "version \<times> screen \<Rightarrow> version \<times> screen" where
  "ver_drawHeader vs = (case vs of (v, s) \<Rightarrow>
     let (n, s) = draw_window (drawHeader (sc_lines s) (sc_cols s)) s in (v\<lparr>v_header := Some n\<rparr>, s))"

definition ver_drawOutput :: "version \<times> screen \<Rightarrow> version \<times> screen" where
  "ver_drawOutput vs = (case vs of (v, s) \<Rightarrow>
     let (n, s) = draw_window (drawOutput (sc_lines s) (sc_cols s)) s in (v\<lparr>v_output := Some n\<rparr>, s))"

definition ver_drawInput :: "version \<times> screen \<Rightarrow> version \<times> screen" where
  "ver_drawInput vs = (case vs of (v, s) \<Rightarrow>
     let (n, s) = draw_window (drawInput (sc_lines s) (sc_cols s)) s in (v\<lparr>v_input := Some n\<rparr>, s))"

definition ver_drawOnline :: "version \<times> screen \<Rightarrow> version \<times> screen" where
  "ver_drawOnline vs = (case vs of (v, s) \<Rightarrow>
     let (n, s) = draw_window (drawOnline (sc_lines s) (sc_cols s)) s in (v\<lparr>v_online := Some n\<rparr>, s))"

text \<open>A window that was never drawn is an uninitialised pointer.\<close>

definition putStringOfVersion :: "nat option \<Rightarrow> int \<Rightarrow> int \<Rightarrow> block \<Rightarrow> screen \<Rightarrow> screen res" where
  "putStringOfVersion w y x str s = (case w of None \<Rightarrow> Inl UninitRead
     | Some n \<Rightarrow> Inr (ask (Wrefresh n) (ask (Mvwaddstr n y x str) s)))"

definition VERSION_SIZE :: nat where
  "VERSION_SIZE = 1024"

definition getStringOfVersion :: "(nat \<Rightarrow> block) \<Rightarrow> block \<Rightarrow> nat option \<Rightarrow> block res" where
  "getStringOfVersion stored junk w = (case w of None \<Rightarrow> Inl UninitRead
     | Some n \<Rightarrow> read_line stored VERSION_SIZE junk)"

section \<open>The threads of src/client.cpp\<close>

definition title_string :: block where
  "title_string = str_bytes ''Welcome To My ChatRoom''"

text \<open>\<open>sz\<close> is \<open>getmaxyx\<close> on a window.\<close>

definition RunHeader_begin :: "version \<times> screen \<Rightarrow> (64 word \<times> int) \<times> version \<times> screen" where
  "RunHeader_begin vs = ((1, 0), ver_drawHeader vs)"

definition RunHeader_pass ::
  "(window \<Rightarrow> int \<times> int) \<Rightarrow> (64 word \<times> int) \<times> version \<times> screen \<Rightarrow> ((64 word \<times> int) \<times> version \<times> screen) res"
where
  "RunHeader_pass sz st = (case st of ((i, dir), vs) \<Rightarrow>
     let (v, s) = ver_drawHeader vs;
         (y, x) = sz (drawHeader (sc_lines s) (sc_cols s))
     in rbind (putStringOfVersion (getHeader v) (y sdiv 2) (sint (ucast i :: i32)) title_string s) (\<lambda>s.
          Inr (RunHeader_iter (word_of_int x) (word_of_nat (length title_string)) (i, dir), v, s)))"

definition RunInput_begin :: "version \<times> screen \<Rightarrow> version \<times> screen" where
  "RunInput_begin vs = ver_drawInput vs"

text \<open>One line: the prompt, the line typed, the datagram sent, and the window drawn anew.\<close>

definition RunInput_pass ::
  "(info \<Rightarrow> block) \<Rightarrow> (nat \<Rightarrow> block) \<Rightarrow> block \<Rightarrow> gclient \<Rightarrow> version \<times> screen \<Rightarrow> (block \<times> version \<times> screen) res"
where
  "RunInput_pass ser stored junk c vs = (case vs of (v, s) \<Rightarrow>
     rbind (putStringOfVersion (getInput v) 1 2 (str_bytes ''Please Enter$ '') s) (\<lambda>s.
       rbind (getStringOfVersion stored junk (getInput v)) (\<lambda>str.
         Inr (RunInput_iter ser str c, ver_drawInput (v, s)))))"

definition RunOutputOnline_begin :: "version \<times> screen \<Rightarrow> version \<times> screen" where
  "RunOutputOnline_begin vs = ver_drawOnline (ver_drawOutput vs)"

text \<open>The list of users online: the window drawn anew and one row for each.\<close>

definition show_online :: "block list \<Rightarrow> version \<times> screen \<Rightarrow> (version \<times> screen) res" where
  "show_online online vs = (case ver_drawOnline vs of (v, s) \<Rightarrow>
     rbind (rfold (\<lambda>(j, f) s. putStringOfVersion (getOnline v) (int j + 1) 2 f s) (zip [0..<length online] online) s)
       (\<lambda>s. Inr (v, s)))"

text \<open>
  \<open>main\<close>: with a wrong number of arguments it prints the first one, which is a null pointer if there is
  none. Otherwise it asks for the names, sets the signal handler, opens the socket and the screen, and runs
  the three threads until the handler has set \<open>is_quit\<close>.
\<close>

datatype gclient_call =
    Ask_for string | On_interrupt string | Open_socket string string | Open_screen | Start string
  | Wait_for_quit | Cancel string

definition gclient_main :: "string list \<Rightarrow> int res + gclient_call list" where
  "gclient_main args =
     (if length args \<noteq> 3 then Inl (if length args < 2 then Inl NullDeref else Inr 1)
      else Inr [Ask_for ''nick_name'', Ask_for ''school'', On_interrupt ''SendQuit'',
                Open_socket (args ! 1) (args ! 2), Open_screen,
                Start ''RunHeader'', Start ''RunOutputOnline'', Start ''RunInput'', Wait_for_quit,
                Cancel ''RunHeader'', Cancel ''RunOutputOnline'', Cancel ''RunInput''])"

section \<open>The test of the windows\<close>

definition txproj_begin :: "version \<times> screen \<Rightarrow> (64 word \<times> int) \<times> version \<times> screen" where
  "txproj_begin vs = ((1, 0), ver_drawInput (ver_drawOnline (ver_drawOutput (ver_drawHeader vs))))"

definition txproj_pass ::
  "(window \<Rightarrow> int \<times> int) \<Rightarrow> (64 word \<times> int) \<times> version \<times> screen \<Rightarrow> ((64 word \<times> int) \<times> version \<times> screen) res"
where
  "txproj_pass sz st = (case st of ((i, dir), vs) \<Rightarrow>
     let (v, s) = ver_drawHeader vs;
         (y, x) = sz (drawHeader (sc_lines s) (sc_cols s))
     in rbind (putStringOfVersion (getHeader v) (y sdiv 2) 65 (str_bytes ''Multiplayer chat room'') s) (\<lambda>s.
        rbind (putStringOfVersion (getInput v) 1 55 (str_bytes ''userInPut'') s) (\<lambda>s.
        rbind (putStringOfVersion (getOnline v) 1 15 (str_bytes ''olineList'') s) (\<lambda>s.
        rbind (putStringOfVersion (getOutput v) 1 55 (str_bytes ''userOutPut'') s) (\<lambda>s.
          Inr (RunHeader_iter (word_of_int x) (word_of_nat (length ''Multiplayer chat room'')) (i, dir), v, s))))))"

section \<open>myWindow\<close>

text \<open>
  The object is global, so that its four pointers start as null pointers; the library returns an error for
  a null window and does nothing.
\<close>

record mywindow =
  w_header :: "nat option"
  w_output :: "nat option"
  w_friendList :: "nat option"
  w_input :: "nat option"

definition myWindow :: "screen \<Rightarrow> mywindow \<times> screen" where
  "myWindow s =
     (\<lparr>w_header = None, w_output = None, w_friendList = None, w_input = None\<rparr>, ask (Curs_set 0) (ask Initscr s))"

definition delwin :: "nat option \<Rightarrow> screen \<Rightarrow> screen res" where
  "delwin w s = (case w of None \<Rightarrow> Inr s | Some n \<Rightarrow> Inr (ask (Delwin n) s))"

definition myWindow_end :: "mywindow \<Rightarrow> screen \<Rightarrow> screen res" where
  "myWindow_end w s =
     rbind (delwin (w_header w) s) (\<lambda>s. rbind (delwin (w_output w) s) (\<lambda>s.
       rbind (delwin (w_friendList w) s) (\<lambda>s. rbind (delwin (w_input w) s) (\<lambda>s. Inr (ask Endwin s)))))"

definition createNewWin :: "window \<Rightarrow> screen \<Rightarrow> nat \<times> screen" where
  "createNewWin w s = (let (n, s) = newwin w s in (n, ask (Box n 0 0) s))"

definition my_createHeader :: "mywindow \<times> screen \<Rightarrow> mywindow \<times> screen" where
  "my_createHeader ws = (case ws of (w, s) \<Rightarrow>
     let (n, s) = createNewWin (createHeader (sc_lines s) (sc_cols s)) s in (w\<lparr>w_header := Some n\<rparr>, s))"

definition my_createOutput :: "mywindow \<times> screen \<Rightarrow> mywindow \<times> screen" where
  "my_createOutput ws = (case ws of (w, s) \<Rightarrow>
     let (n, s) = createNewWin (createOutput (sc_lines s) (sc_cols s)) s in (w\<lparr>w_output := Some n\<rparr>, s))"

definition my_createFriendList :: "mywindow \<times> screen \<Rightarrow> mywindow \<times> screen" where
  "my_createFriendList ws = (case ws of (w, s) \<Rightarrow>
     let (n, s) = createNewWin (createFriendList (sc_lines s) (sc_cols s)) s in (w\<lparr>w_friendList := Some n\<rparr>, s))"

definition my_createInput :: "mywindow \<times> screen \<Rightarrow> mywindow \<times> screen" where
  "my_createInput ws = (case ws of (w, s) \<Rightarrow>
     let (n, s) = createNewWin (createInput (sc_lines s) (sc_cols s)) s in (w\<lparr>w_input := Some n\<rparr>, s))"

definition myWinRefresh :: "nat option \<Rightarrow> screen \<Rightarrow> screen res" where
  "myWinRefresh w s = (case w of None \<Rightarrow> Inr s | Some n \<Rightarrow> Inr (ask (Wrefresh n) s))"

definition putStrToWin :: "nat option \<Rightarrow> int \<Rightarrow> int \<Rightarrow> block \<Rightarrow> screen \<Rightarrow> screen res" where
  "putStrToWin w y x msg s = (case w of None \<Rightarrow> Inr s | Some n \<Rightarrow> Inr (ask (Mvwaddstr n y x msg) s))"

text \<open>\<open>while (line-- > 0)\<close>.\<close>

fun clear_lines :: "nat \<Rightarrow> int \<Rightarrow> nat \<Rightarrow> screen \<Rightarrow> screen" where
  "clear_lines n begin' 0 s = s"
| "clear_lines n begin' (Suc k) s = clear_lines n (begin' + 1) k (ask (Wclrtoeol n) (ask (Wmove n begin' 0) s))"

definition clearWinLine :: "nat option \<Rightarrow> int \<Rightarrow> int \<Rightarrow> screen \<Rightarrow> screen res" where
  "clearWinLine w begin' line s = (case w of None \<Rightarrow> Inr s
     | Some n \<Rightarrow> Inr (clear_lines n begin' (nat line) s))"

definition getWinStr :: "(nat \<Rightarrow> block) \<Rightarrow> nat option \<Rightarrow> block res" where
  "getWinStr stored w = (case w of None \<Rightarrow> Inr [] | Some n \<Rightarrow> read_line stored 1024 (replicate 1024 0))"

text \<open>The program of window.cpp that is compiled for debugging: the four windows in turn, and a line read back.\<close>

definition window_main ::
  "(window \<Rightarrow> int \<times> int) \<Rightarrow> (nat \<Rightarrow> block) \<Rightarrow> mywindow \<times> screen \<Rightarrow> (mywindow \<times> screen) res"
where
  "window_main sz stored ws =
     (let (w, s) = my_createHeader ws;
          (y, x) = sz (createHeader (sc_lines s) (sc_cols s));
          startY = y sdiv 2;
          startX = x * 2 sdiv 5
      in rbind (myWinRefresh (w_header w) s) (\<lambda>s.
         rbind (putStrToWin (w_header w) startY startX (str_bytes ''welecom to chat sys!'') s) (\<lambda>s.
         rbind (myWinRefresh (w_header w) s) (\<lambda>s.
         let (w, s) = my_createInput (my_createFriendList (my_createOutput (w, s)))
         in rbind (myWinRefresh (w_output w) s) (\<lambda>s.
            rbind (myWinRefresh (w_friendList w) s) (\<lambda>s.
            rbind (myWinRefresh (w_input w) s) (\<lambda>s.
            rbind (getWinStr stored (w_header w)) (\<lambda>str.
            rbind (myWinRefresh (w_header w) s) (\<lambda>s.
            rbind (clearWinLine (w_header w) startY 1 s) (\<lambda>s.
            rbind (myWinRefresh (w_header w) s) (\<lambda>s.
            rbind (putStrToWin (w_header w) 0 0 str s) (\<lambda>s.
            rbind (myWinRefresh (w_header w) s) (\<lambda>s. Inr (w, s))))))))))))))"

section \<open>The threads of UdpClientMain.cpp\<close>

definition header_run_pass :: "(window \<Rightarrow> int \<times> int) \<Rightarrow> int \<times> mywindow \<times> screen \<Rightarrow> (int \<times> mywindow \<times> screen) res" where
  "header_run_pass sz st = (case st of (step, ws) \<Rightarrow>
     let (w, s) = my_createHeader ws;
         (y, x) = sz (createHeader (sc_lines s) (sc_cols s))
     in rbind (myWinRefresh (w_header w) s) (\<lambda>s.
        rbind (putStrToWin (w_header w) (y * 4 sdiv 10) step (str_bytes ''welecom to chat sys!'') s) (\<lambda>s.
        rbind (myWinRefresh (w_header w) s) (\<lambda>s.
        rbind (header_step x step) (\<lambda>step.
        rbind (clearWinLine (w_header w) (y * 4 sdiv 10) 1 s) (\<lambda>s.
        rbind (myWinRefresh (w_header w) s) (\<lambda>s. Inr (step, w, s))))))))"

definition output_run_begin :: "mywindow \<times> screen \<Rightarrow> (mywindow \<times> screen) res" where
  "output_run_begin ws = (case my_createOutput ws of (w, s) \<Rightarrow>
     rbind (myWinRefresh (w_output w) s) (\<lambda>s. Inr (w, s)))"

definition friendList_begin :: "mywindow \<times> screen \<Rightarrow> (mywindow \<times> screen) res" where
  "friendList_begin ws = (case my_createFriendList ws of (w, s) \<Rightarrow>
     rbind (myWinRefresh (w_friendList w) s) (\<lambda>s. Inr (w, s)))"

definition input_run_pass ::
  "(datatype_msg \<Rightarrow> block) \<Rightarrow> (nat \<Rightarrow> block) \<Rightarrow> int \<Rightarrow> oldclient \<Rightarrow> mywindow \<times> screen \<Rightarrow>
   (block list \<times> oldclient \<times> mywindow \<times> screen) res"
where
  "input_run_pass val_to_str stored rc c ws = (case my_createInput ws of (w, s) \<Rightarrow>
     rbind (myWinRefresh (w_input w) s) (\<lambda>s.
     rbind (putStrToWin (w_input w) 1 1 (str_bytes ''Please Enter: '') s) (\<lambda>s.
     rbind (myWinRefresh (w_input w) s) (\<lambda>s.
     rbind (getWinStr stored (w_input w)) (\<lambda>msg.
       let (sent, c) = input_run_iter val_to_str msg rc c in Inr (sent, c, w, s))))))"

text \<open>\<open>main\<close> prints its usage for a wrong number of arguments, goes on and reads four of them all the same.\<close>

definition old_client_args :: "string list \<Rightarrow> (bool \<times> string \<times> string \<times> string \<times> string) res" where
  "old_client_args args =
     (if length args < 5 then Inl NullDeref
      else Inr (length args \<noteq> 5, args ! 1, args ! 2, args ! 3, args ! 4))"

section \<open>Lemmas\<close>

lemmas screen_defs = ask_def newwin_def draw_window_def ver_drawHeader_def ver_drawOutput_def ver_drawInput_def
  ver_drawOnline_def putStringOfVersion_def createNewWin_def my_createHeader_def my_createOutput_def
  my_createFriendList_def my_createInput_def myWinRefresh_def putStrToWin_def
  getHeader_def getOutput_def getInput_def getOnline_def

text \<open>
  A line as long as the limit does not fit: the library stores a zero behind as many characters as the
  limit, and the array has no place for it.
\<close>

lemma full_line_overflows:
  assumes "\<And>n. stored n = take n typed @ [0]" "length typed \<ge> n" "length buf = n"
  shows "read_line stored n buf = Inl OutOfBounds"
  using assms by (simp add: read_line_def c_memcpy_def)

lemma getWinStr_overflows:
  "(\<And>n. stored n = take n typed @ [0]) \<Longrightarrow> 1024 \<le> length typed \<Longrightarrow> getWinStr stored (Some w) = Inl OutOfBounds"
  by (simp add: getWinStr_def full_line_overflows [of stored typed 1024])

lemma short_line_read:
  assumes "stored n = typed @ [0]" "length typed < n" "length buf = n" "0 \<notin> set typed"
  shows "read_line stored n buf = Inr typed"
proof -
  have "c_memcpy 0 (stored n) buf (int (length (stored n))) = Inr (typed @ 0 # drop (length typed + 1) buf)"
    using assms by (simp add: c_memcpy_def blit_def)
  then show ?thesis using assms(4) by (simp add: read_line_def)
qed

text \<open>Every pass of the title makes a window and none is ever deleted.\<close>

lemma RunHeader_pass_windows:
  "\<exists>st'. RunHeader_pass sz st = Inr st' \<and>
     length (sc_windows (snd (snd st'))) = Suc (length (sc_windows (snd (snd st)))) \<and>
     (\<forall>n. Delwin n \<in> set (sc_calls (snd (snd st'))) \<longrightarrow> Delwin n \<in> set (sc_calls (snd (snd st))))"
  by (auto simp: RunHeader_pass_def screen_defs Let_def split: prod.splits)

fun RunHeader_passes ::
  "(window \<Rightarrow> int \<times> int) \<Rightarrow> nat \<Rightarrow> (64 word \<times> int) \<times> version \<times> screen \<Rightarrow> ((64 word \<times> int) \<times> version \<times> screen) res"
where
  "RunHeader_passes sz 0 st = Inr st"
| "RunHeader_passes sz (Suc n) st = rbind (RunHeader_pass sz st) (RunHeader_passes sz n)"

lemma header_thread_leaks:
  "\<exists>st'. RunHeader_passes sz n st = Inr st' \<and>
     length (sc_windows (snd (snd st'))) = n + length (sc_windows (snd (snd st))) \<and>
     (\<forall>m. Delwin m \<in> set (sc_calls (snd (snd st'))) \<longrightarrow> Delwin m \<in> set (sc_calls (snd (snd st))))"
proof (induction n arbitrary: st)
  case 0
  show ?case by simp
next
  case (Suc n)
  obtain st1 where "RunHeader_pass sz st = Inr st1"
    "length (sc_windows (snd (snd st1))) = Suc (length (sc_windows (snd (snd st))))"
    "\<forall>m. Delwin m \<in> set (sc_calls (snd (snd st1))) \<longrightarrow> Delwin m \<in> set (sc_calls (snd (snd st)))"
    using RunHeader_pass_windows by blast
  then show ?case using Suc.IH [of st1] by auto
qed

text \<open>The list of users: each in its row of the window just drawn.\<close>

lemma show_online_calls:
  "\<exists>v' s' n. show_online online (v, s) = Inr (v', s') \<and> v_online v' = Some n \<and>
     (\<forall>j < length online. Mvwaddstr n (int j + 1) 2 (online ! j) \<in> set (sc_calls s'))"
proof -
  have put: "\<exists>s'. rfold (\<lambda>(j, f) s. putStringOfVersion (Some n) (int j + 1) 2 f s) xs s = Inr s' \<and>
      set (sc_calls s) \<subseteq> set (sc_calls s') \<and>
      (\<forall>(j, f) \<in> set xs. Mvwaddstr n (int j + 1) 2 f \<in> set (sc_calls s'))" for xs s n
  proof (induction xs arbitrary: s)
    case Nil
    show ?case by simp
  next
    case (Cons jf xs)
    obtain j f where jf: "jf = (j, f)" by force
    obtain s1 where s1: "putStringOfVersion (Some n) (int j + 1) 2 f s = Inr s1"
      "set (sc_calls s) \<subseteq> set (sc_calls s1)" "Mvwaddstr n (int j + 1) 2 f \<in> set (sc_calls s1)"
      by (auto simp: screen_defs)
    then show ?case using Cons.IH [of s1] by (fastforce simp: jf)
  qed
  obtain v1 s1 n where d: "ver_drawOnline (v, s) = (v1, s1)" "v_online v1 = Some n"
    by (auto simp: screen_defs Let_def)
  obtain s' where "rfold (\<lambda>(j, f) s. putStringOfVersion (Some n) (int j + 1) 2 f s) (zip [0..<length online] online) s1 = Inr s'"
    "\<forall>(j, f) \<in> set (zip [0..<length online] online). Mvwaddstr n (int j + 1) 2 f \<in> set (sc_calls s')"
    using put by blast
  then show ?thesis using d
    by (fastforce simp: show_online_def getOnline_def set_zip)
qed

text \<open>The destructor of \<open>myWindow\<close> deletes the windows that the object still points to, those drawn last.\<close>

lemma myWindow_end_deletes_last:
  "\<exists>s'. myWindow_end w s = Inr s' \<and> sc_calls s' = sc_calls s @
     map Delwin (List.map_filter id [w_header w, w_output w, w_friendList w, w_input w]) @ [Endwin]"
  by (auto simp: myWindow_end_def delwin_def ask_def List.map_filter_simps split: option.split)

lemma txproj_pass_runs:
  "\<exists>st'. txproj_pass sz (txproj_begin (Version (screen_new ln co))) = Inr st'"
  by (simp add: txproj_pass_def txproj_begin_def Version_def screen_defs Let_def split_def)

lemma window_main_shows_line:
  assumes "\<And>n. stored n = typed @ [0]" "length typed < 1024" "0 \<notin> set typed"
  shows "\<exists>w s n. window_main sz stored (myWindow (screen_new ln co)) = Inr (w, s) \<and> w_header w = Some n \<and>
    Mvwaddstr n 0 0 typed \<in> set (sc_calls s)"
proof -
  have "read_line stored 1024 (replicate 1024 0) = Inr typed"
    using assms by (intro short_line_read) simp_all
  then show ?thesis
    by (simp add: window_main_def myWindow_def screen_defs getWinStr_def clearWinLine_def Let_def split_def
        numeral_eq_Suc)
qed

end
