(* ===== verification/Boot.thy ===== *)
theory Boot
  imports Kernel
begin

text \<open>
  How the programs start: sockets are opened, options set, threads created. A run of such code is a list of
  system calls; what each call returns is decided by the kernel, which may depend on all calls before.
  Covered are the chat server (accept.cpp, io.cpp, cmd.cpp, main.cpp), its client and its load generator, the
  echo server, the group chat and the servers and clients of the earlier versions.
\<close>

unbundle bit_operations_syntax

section \<open>System calls\<close>

datatype sock_kind = Stream | Dgram

datatype call =
    Socket sock_kind
  | Setsockopt int
  | Bind int int
  | Listen int int
  | Close int
  | Epoll_create int
  | Epoll_add int int "32 word"
  | Thread_create string
  | Thread_join string
  | Fork
  | Sigaction int
  | Mkdir string
  | Getfl int
  | Setfl int "32 word"
  | Sem_destroy string

type_synonym kernel = "call list \<Rightarrow> call \<Rightarrow> int"

text \<open>Start code returns a value or leaves the program through \<open>exit\<close>; the list is the calls so far.\<close>

datatype 'a ending = Returns 'a | Exits int

type_synonym 'a boot = "kernel \<Rightarrow> call list \<Rightarrow> 'a ending \<times> call list"

definition pure :: "'a \<Rightarrow> 'a boot" where
  "pure x = (\<lambda>k tr. (Returns x, tr))"

definition exit_with :: "int \<Rightarrow> 'a boot" where
  "exit_with n = (\<lambda>k tr. (Exits n, tr))"

definition sys :: "call \<Rightarrow> (int \<Rightarrow> 'a boot) \<Rightarrow> 'a boot" where
  "sys c f = (\<lambda>k tr. f (k tr c) k (tr @ [c]))"

definition after :: "'a boot \<Rightarrow> ('a \<Rightarrow> 'b boot) \<Rightarrow> 'b boot" where
  "after p f = (\<lambda>k tr. case p k tr of (Exits n, tr) \<Rightarrow> (Exits n, tr) | (Returns x, tr) \<Rightarrow> f x k tr)"

lemmas boot_simps = pure_def exit_with_def sys_def after_def

text \<open>\<open>pthread_create\<close> whose failure ends the program.\<close>

definition start_thread :: "string \<Rightarrow> unit boot" where
  "start_thread f = sys (Thread_create f) (\<lambda>ret. if ret \<noteq> 0 then exit_with 1 else pure ())"

fun start_threads :: "string list \<Rightarrow> unit boot" where
  "start_threads [] = pure ()"
| "start_threads (f # fs) = after (start_thread f) (\<lambda>_. start_threads fs)"

section \<open>The chat server\<close>

definition LISTENNUM :: int where "LISTENNUM = 1000"
definition PORT :: int where "PORT = 8884"

text \<open>The constructor of \<open>CCmd\<close> opens the UDP socket and tests no result.\<close>

definition CCmd_socket :: "int boot" where
  "CCmd_socket = sys (Socket Dgram) (\<lambda>fd. sys (Bind fd 8888) (\<lambda>_. pure fd))"

definition CAccept_start :: "int boot" where
  "CAccept_start =
     sys (Socket Stream) (\<lambda>fd.
       if fd < 0 then exit_with 1
       else sys (Setsockopt fd) (\<lambda>_.
         sys (Bind fd PORT) (\<lambda>ret.
           if ret < 0 then exit_with 1
           else sys (Listen fd LISTENNUM) (\<lambda>ret.
             if ret < 0 then exit_with 1
             else after (start_thread ''CAccept::startAccept'') (\<lambda>_. pure fd)))))"

text \<open>The beginnings of the threads, before their loops.\<close>

definition funcAccept_begin :: "int \<Rightarrow> int boot" where
  "funcAccept_begin listenfd =
     sys (Epoll_create 11000) (\<lambda>epfd. sys (Epoll_add epfd listenfd (EPOLLIN OR EPOLLET)) (\<lambda>_. pure epfd))"

definition startRequest_begin :: "int boot" where
  "startRequest_begin = sys (Epoll_create 11000) pure"

definition CIo_start :: "unit boot" where
  "CIo_start = start_threads [''CIo::startRequest'', ''CIo::startUdp'', ''CIo::startUdpSend'']"

definition CCmd_start :: "unit boot" where
  "CCmd_start = start_thread ''CCmd::startCmd''"

definition chat_main :: "int boot" where
  "chat_main =
     after CCmd_socket (\<lambda>udp. after CAccept_start (\<lambda>fd. after CIo_start (\<lambda>_. after CCmd_start (\<lambda>_. pure fd))))"

section \<open>The client and the load generator\<close>

text \<open>The constructor of \<open>ClientStart\<close>: two sockets.\<close>

definition ClientStart_sockets :: "(int \<times> int) boot" where
  "ClientStart_sockets = sys (Socket Stream) (\<lambda>fd. sys (Socket Dgram) (\<lambda>udp. pure (fd, udp)))"

definition IOStart :: "unit boot" where
  "IOStart = start_threads [''IOModel::start'', ''IOModel::startudprecv'', ''IOModel::startudpsend'']"

definition Cmdstart :: "unit boot" where
  "Cmdstart = start_threads [''CmdModel::start'', ''CmdModel::startSendFile'', ''CmdModel::startWriteFile'', ''CmdModel::startDealUdp'']"

text \<open>After the login, which is \<open>ClientStart_start\<close> of the client's state.\<close>

definition client_main :: "unit boot" where
  "client_main = after IOStart (\<lambda>_. after Cmdstart (\<lambda>_.
     sys (Thread_join ''IOModel::start'') (\<lambda>_. sys (Thread_join ''IOModel::startudprecv'') (\<lambda>_.
       sys (Thread_join ''CmdModel::start'') (\<lambda>_. pure ())))))"

definition LoginModel_start :: "unit boot" where
  "LoginModel_start = start_thread ''LoginModel::startLogin''"

definition Cmdmodel_start :: "unit boot" where
  "Cmdmodel_start = start_threads [''Cmdmodel::startCmd'', ''Cmdmodel::startSetList'']"

definition Iomodel_start :: "unit boot" where
  "Iomodel_start = start_thread ''Iomodel::startIo''"

definition tester_main :: "unit boot" where
  "tester_main = after LoginModel_start (\<lambda>_. sys (Thread_join ''LoginModel::startLogin'') (\<lambda>_.
     after Cmdmodel_start (\<lambda>_. after Iomodel_start (\<lambda>_.
       sys (Thread_join ''Cmdmodel::startCmd'') (\<lambda>_. sys (Thread_join ''Iomodel::startIo'') (\<lambda>_. pure ()))))))"

section \<open>The functions of the threads\<close>

text \<open>
  \<open>pthread_create\<close> is given static member functions that call a method of the object and then reach their
  end without a \<open>return\<close>. A name and the method called; \<open>CIo::startUdpSend\<close> has its call commented out.
\<close>

type_synonym entries = "(string \<times> string option) list"

definition CAccept_entries :: entries where
  "CAccept_entries = [(''CAccept::startAccept'', Some ''funcAccept'')]"

definition CIo_entries :: entries where
  "CIo_entries = [(''CIo::startRequest'', Some ''startRequestFunc''), (''CIo::startUdp'', Some ''startUdpFunc''),
     (''CIo::startUdpSend'', None)]"

definition CCmd_entries :: entries where
  "CCmd_entries = [(''CCmd::startCmd'', Some ''startDealCmd'')]"

definition IOModel_entries :: entries where
  "IOModel_entries = [(''IOModel::start'', Some ''Start''), (''IOModel::startudprecv'', Some ''Startudprecv''),
     (''IOModel::startudpsend'', Some ''Startudpsend'')]"

definition CmdModel_entries :: entries where
  "CmdModel_entries = [(''CmdModel::startSendFile'', Some ''StartSendFile''), (''CmdModel::start'', Some ''Start''),
     (''CmdModel::startWriteFile'', Some ''StartWriteFile''), (''CmdModel::startDealUdp'', Some ''startDealUdpPack'')]"

definition LoginModel_entries :: entries where
  "LoginModel_entries = [(''LoginModel::startLogin'', Some ''funcConnect'')]"

definition Cmdmodel_entries :: entries where
  "Cmdmodel_entries = [(''Cmdmodel::startCmd'', Some ''funcCmd''), (''Cmdmodel::startSetList'', Some ''setListHasLogined'')]"

definition Iomodel_entries :: entries where
  "Iomodel_entries = [(''Iomodel::startIo'', Some ''funcIo'')]"

section \<open>The echo server\<close>

definition DEFAULTPORT :: int where "DEFAULTPORT = 5000"

definition setup_server_socket :: "int \<Rightarrow> int boot" where
  "setup_server_socket port =
     sys (Socket Stream) (\<lambda>sock.
       if sock < 0 then exit_with (- 1)
       else sys (Setsockopt sock) (\<lambda>_.
         sys (Bind sock port) (\<lambda>ret.
           if ret < 0 then sys (Close sock) (\<lambda>_. exit_with (- 1))
           else sys (Listen sock 1024) (\<lambda>ret.
             if ret < 0 then sys (Close sock) (\<lambda>_. exit_with (- 1))
             else pure sock))))"

text \<open>
  The loop of forks, in the process that runs it: its result is the number of turns in which this process
  was the child, which is all a process knows of the others.
\<close>

fun fork_loop :: "nat \<Rightarrow> nat boot" where
  "fork_loop 0 = pure 0"
| "fork_loop (Suc n) = sys Fork (\<lambda>pid. after (fork_loop n) (\<lambda>c. pure (if pid = 0 then Suc c else c)))"

text \<open>
  The processes that the loop makes: a process before turn \<open>n\<close> from the end becomes two, itself with the
  child's number and the child with 0, and both go on with the rest of the loop. Each is what its calls of
  \<open>fork\<close> returned.
\<close>

fun fork_tree :: "nat \<Rightarrow> int list \<Rightarrow> int list list" where
  "fork_tree 0 rs = [rs]"
| "fork_tree (Suc n) rs = fork_tree n (rs @ [1]) @ fork_tree n (rs @ [0])"

definition echo_processes :: "int \<Rightarrow> int list list" where
  "echo_processes procs = fork_tree (nat (procs - 1)) []"

definition echo_begin :: "int \<Rightarrow> int \<Rightarrow> (int \<times> int) boot" where
  "echo_begin port procs =
     after (setup_server_socket port) (\<lambda>listen. after (fork_loop (nat (procs - 1))) (\<lambda>_.
       sys (Epoll_create 128) (\<lambda>epfd.
         if epfd < 0 then exit_with (- 1)
         else sys (Epoll_add epfd listen EPOLLIN) (\<lambda>_. pure (listen, epfd)))))"

section \<open>The first server and its client\<close>

definition startup :: "int \<Rightarrow> int boot" where
  "startup port =
     sys (Socket Stream) (\<lambda>sock.
       if sock < 0 then exit_with 1
       else sys (Setsockopt sock) (\<lambda>ret.
         if ret < 0 then exit_with 2
         else sys (Bind sock port) (\<lambda>ret.
           if ret < 0 then exit_with 3
           else sys (Listen sock 5) (\<lambda>ret.
             if ret < 0 then exit_with 4 else pure sock))))"

section \<open>The group chat and the client of version 0.0.2\<close>

text \<open>\<open>initServer\<close> returns nothing: the caller does not learn that it failed.\<close>

definition initServer :: "int \<Rightarrow> int boot" where
  "initServer port =
     sys (Socket Dgram) (\<lambda>sock.
       if sock < 0 then pure sock
       else sys (Bind sock port) (\<lambda>ret. pure sock))"

definition group_main :: "int \<Rightarrow> int boot" where
  "group_main port =
     after (initServer port) (\<lambda>sock.
       sys (Thread_create ''recvMessage'') (\<lambda>_. sys (Thread_create ''sendMessage'') (\<lambda>_.
         sys (Thread_join ''recvMessage'') (\<lambda>_. sys (Thread_join ''sendMessage'') (\<lambda>_. pure sock)))))"

definition initClient :: "int boot" where
  "initClient = sys (Socket Dgram) (\<lambda>sock. if sock < 0 then pure sock else pure sock)"

definition initclient :: "int boot" where
  "initclient = sys (Socket Dgram) (\<lambda>sock. if sock < 0 then exit_with 1 else pure sock)"

definition old_client_threads :: "unit boot" where
  "old_client_threads =
     sys (Thread_create ''header_run'') (\<lambda>_. sys (Thread_create ''output_run'') (\<lambda>_.
     sys (Thread_create ''friendList_run'') (\<lambda>_. sys (Thread_create ''input_run'') (\<lambda>_.
     sys (Thread_join ''header_run'') (\<lambda>_. sys (Thread_join ''output_run'') (\<lambda>_.
     sys (Thread_join ''friendList_run'') (\<lambda>_. sys (Thread_join ''input_run'') (\<lambda>_. pure ()))))))))"

end
