(* ===== verification/BootProps.thy ===== *)
theory BootProps
  imports Boot "HOL-Library.Sublist"
begin

text \<open>
  What the start code promises. A script is a list of calls, each with the test its result has to pass; the
  start of the chat server is shown to follow a script, so that no thread exists before the socket
  listens. Then the other servers' sockets, and how many processes the echo server forks.
\<close>

section \<open>Scripts\<close>

type_synonym script = "(call \<times> (int \<Rightarrow> bool)) list"

fun script_run :: "script \<Rightarrow> kernel \<Rightarrow> call list \<Rightarrow> bool \<times> call list" where
  "script_run [] k tr = (True, tr)"
| "script_run ((c, ok) # s) k tr =
     (if ok (k tr c) then script_run s k (tr @ [c]) else (False, tr @ [c]))"

lemma script_run_append:
  "script_run (s @ s') k tr =
     (case script_run s k tr of (False, tr) \<Rightarrow> (False, tr) | (True, tr) \<Rightarrow> script_run s' k tr)"
  by (induction s k tr rule: script_run.induct) auto

text \<open>A run of a script makes its calls in order, up to the first one that fails.\<close>

definition stops_at_first_failure :: "script \<Rightarrow> kernel \<Rightarrow> call list \<Rightarrow> bool \<Rightarrow> bool" where
  "stops_at_first_failure s k tr ok \<longleftrightarrow> prefix tr (map fst s) \<and> (ok \<longrightarrow> tr = map fst s) \<and>
     (\<forall>i < length tr. snd (s ! i) (k (take i tr) (tr ! i)) \<longleftrightarrow> ok \<or> Suc i < length tr) \<and> (\<not> ok \<longrightarrow> tr \<noteq> [])"

lemma script_run_extends: "snd (script_run s k tr) = tr @ drop (length tr) (snd (script_run s k tr))"
proof (induction s k tr rule: script_run.induct)
  case (2 c ok s k tr)
  then show ?case
    by (cases "ok (k tr c)") (simp_all, metis append.assoc append_eq_conv_conj length_append_singleton)
qed simp

lemma script_run_stops:
  assumes "script_run s' k (map fst s) = (ok, tr)" "\<And>i. i < length s \<Longrightarrow> snd (s ! i) (k (map fst (take i s)) (fst (s ! i)))"
  shows "stops_at_first_failure (s @ s') k tr ok"
  using assms
proof (induction s' arbitrary: s)
  case Nil
  then show ?case by (auto simp: stops_at_first_failure_def take_map)
next
  case (Cons cok s')
  obtain c f where cok: "cok = (c, f)" by force
  show ?case
  proof (cases "f (k (map fst s) c)")
    case True
    have "script_run s' k (map fst (s @ [cok])) = (ok, tr)" using Cons.prems(1) cok True by simp
    moreover have "snd ((s @ [cok]) ! i) (k (map fst (take i (s @ [cok]))) (fst ((s @ [cok]) ! i)))"
      if "i < length (s @ [cok])" for i
      using that Cons.prems(2) True cok by (cases "i < length s") (auto simp: nth_append less_Suc_eq)
    ultimately show ?thesis using Cons.IH [of "s @ [cok]"] by simp
  next
    case False
    then have tr: "ok = False" "tr = map fst s @ [c]" using Cons.prems(1) cok by auto
    have "snd ((s @ cok # s') ! i) (k (take i tr) (tr ! i)) \<longleftrightarrow> i < length s" if "i < length tr" for i
      using that Cons.prems(2) [of i] False cok
      by (cases "i < length s") (auto simp: tr nth_append take_map less_Suc_eq)
    then show ?thesis
      unfolding stops_at_first_failure_def by (auto simp: tr cok)
  qed
qed

lemma script_run_ok:
  "stops_at_first_failure s k (snd (script_run s k [])) (fst (script_run s k []))"
  using script_run_stops [of s k "[]"] by (cases "script_run s k []") simp

section \<open>The chat server\<close>

definition threads_script :: "string list \<Rightarrow> script" where
  "threads_script fs = map (\<lambda>f. (Thread_create f, \<lambda>r. r = 0)) fs"

definition chat_script :: "int \<Rightarrow> int \<Rightarrow> script" where
  "chat_script udp fd =
     [(Socket Dgram, \<lambda>_. True), (Bind udp 8888, \<lambda>_. True), (Socket Stream, \<lambda>r. r \<ge> 0),
      (Setsockopt fd, \<lambda>_. True), (Bind fd PORT, \<lambda>r. r \<ge> 0), (Listen fd LISTENNUM, \<lambda>r. r \<ge> 0)] @
     threads_script [''CAccept::startAccept'', ''CIo::startRequest'', ''CIo::startUdp'', ''CIo::startUdpSend'', ''CCmd::startCmd'']"

lemma start_threads_script:
  "start_threads fs k tr =
     (let (ok, tr) = script_run (threads_script fs) k tr in (if ok then Returns () else Exits 1, tr))"
  by (induction fs arbitrary: tr) (simp_all add: boot_simps start_thread_def threads_script_def)

lemma chat_main_script:
  defines "udp \<equiv> \<lambda>k. k [] (Socket Dgram)"
    and "fd \<equiv> \<lambda>k. k [Socket Dgram, Bind (k [] (Socket Dgram)) 8888] (Socket Stream)"
  shows "chat_main k [] = (let (ok, tr) = script_run (chat_script (udp k) (fd k)) k [] in
      (if ok then Returns (fd k) else Exits 1, tr))"
  by (simp add: chat_main_def CCmd_socket_def CAccept_start_def CIo_start_def CCmd_start_def
      start_thread_def chat_script_def threads_script_def boot_simps udp_def fd_def not_le)

text \<open>C28: However the kernel answers, the chat server makes the calls of its start in one order (UDP
  socket, listening socket, options, bind, listen, then the five threads) and either all of those that it
  tests succeed and \<open>main\<close> goes on with the listening socket, or the first one that fails is the last call
  made and the program exits with 1. So no thread runs before the socket listens.\<close>

theorem chat_start_in_order:
  assumes "chat_main k [] = (out, tr)"
  defines "udp \<equiv> k [] (Socket Dgram)"
    and "fd \<equiv> k [Socket Dgram, Bind (k [] (Socket Dgram)) 8888] (Socket Stream)"
  shows "stops_at_first_failure (chat_script udp fd) k tr (out = Returns fd) \<and>
    (out = Returns fd \<or> out = Exits 1) \<and>
    (\<forall>f. Thread_create f \<in> set tr \<longrightarrow> Listen fd LISTENNUM \<in> set tr \<and> k (take 5 tr) (Listen fd LISTENNUM) \<ge> 0)"
proof -
  let ?s = "chat_script udp fd"
  have run: "fst (script_run ?s k []) \<longleftrightarrow> out = Returns fd" "snd (script_run ?s k []) = tr"
    "out = Returns fd \<or> out = Exits 1"
    using chat_main_script [of k] assms(1) unfolding udp_def fd_def by (auto simp: Let_def split_def)
  have stops: "stops_at_first_failure ?s k tr (out = Returns fd)"
    using script_run_ok [of ?s k] by (simp add: run(1,2) [symmetric])
  have "Listen fd LISTENNUM \<in> set tr \<and> k (take 5 tr) (Listen fd LISTENNUM) \<ge> 0"
    if "Thread_create f \<in> set tr" for f
  proof -
    have tr: "prefix tr (map fst ?s)"
      and ok: "\<forall>i < length tr. snd (?s ! i) (k (take i tr) (tr ! i)) \<longleftrightarrow> out = Returns fd \<or> Suc i < length tr"
      using stops by (auto simp: stops_at_first_failure_def)
    have len: "6 < length tr"
    proof (rule ccontr)
      assume "\<not> 6 < length tr"
      then have "set tr \<subseteq> set (take 6 (map fst ?s))"
        using tr by (metis not_less prefix_def set_take_subset_set_take append_eq_conv_conj)
      then show False using that by (auto simp: chat_script_def numeral_eq_Suc)
    qed
    have "tr ! 5 = map fst ?s ! 5" using tr len by (auto simp: prefix_def nth_append)
    then have "tr ! 5 = Listen fd LISTENNUM" "snd (?s ! 5) = (\<lambda>r. r \<ge> 0)"
      by (simp_all add: chat_script_def numeral_eq_Suc)
    then show ?thesis using ok len nth_mem [of 5 tr] by (auto dest: spec [of _ 5])
  qed
  then show ?thesis using stops run(3) by blast
qed

theorem chat_start_in_order_witness:
  "let k = (\<lambda>tr c. case c of Socket Stream \<Rightarrow> 4 | Socket Dgram \<Rightarrow> 3 | Bind fd p \<Rightarrow> (if fd = 3 then - 1 else 0)
             | Thread_create f \<Rightarrow> (if f = ''CIo::startUdp'' then 11 else 0) | _ \<Rightarrow> 0) in
   \<exists>tr. chat_main k [] = (Exits 1, tr) \<and> length tr = 9 \<and> Listen 4 LISTENNUM \<in> set tr \<and>
     stops_at_first_failure (chat_script 3 4) k tr False"
proof -
  let ?k = "\<lambda>tr c. case c of Socket Stream \<Rightarrow> 4 | Socket Dgram \<Rightarrow> 3 | Bind fd p \<Rightarrow> (if fd = 3 then - 1 else 0)
             | Thread_create f \<Rightarrow> (if f = ''CIo::startUdp'' then 11 else 0) | _ \<Rightarrow> (0 :: int)"
  obtain tr where tr: "chat_main ?k [] = (Exits 1, tr)" "length tr = 9" "Thread_create ''CIo::startUdp'' \<in> set tr"
    by (simp add: chat_main_def CCmd_socket_def CAccept_start_def CIo_start_def start_thread_def boot_simps)
  show ?thesis
    using chat_start_in_order [OF tr(1)] tr unfolding Let_def by auto
qed

text \<open>
  Of the threads that the three programs create, each runs the loop of its module, but for the one that
  should send the datagrams of the server: no call of the server ever takes a datagram from a user's list.
\<close>

lemma threads_of_the_programs:
  "\<exists>tr. chat_main (\<lambda>_ _. 0) [] = (Returns 0, tr) \<and>
     List.map_filter (\<lambda>c. case c of Thread_create f \<Rightarrow> Some f | _ \<Rightarrow> None) tr =
       map fst (CAccept_entries @ CIo_entries @ CCmd_entries)"
  "List.map_filter (\<lambda>(f, m). case m of None \<Rightarrow> Some f | Some _ \<Rightarrow> None)
     (CAccept_entries @ CIo_entries @ CCmd_entries @ IOModel_entries @ CmdModel_entries @ LoginModel_entries @
      Cmdmodel_entries @ Iomodel_entries) = [''CIo::startUdpSend'']"
  by (simp_all add: chat_main_def CCmd_socket_def CAccept_start_def CIo_start_def CCmd_start_def start_thread_def
      boot_simps List.map_filter_simps CAccept_entries_def CIo_entries_def CCmd_entries_def IOModel_entries_def
      CmdModel_entries_def LoginModel_entries_def Cmdmodel_entries_def Iomodel_entries_def)

section \<open>The other sockets\<close>

text \<open>
  The echo server, the first server and the group server set up their sockets differently: the echo server
  closes the socket when it cannot listen and exits with -1, the first server tests the option as well and
  tells the failed call by its exit code, the group server says nothing and goes on.
\<close>

lemma setup_server_socket_outcome:
  assumes "setup_server_socket port k [] = (out, tr)"
  defines "fd \<equiv> k [] (Socket Stream)"
  shows "case out of
      Returns sock \<Rightarrow> sock = fd \<and> fd \<ge> 0 \<and> tr = [Socket Stream, Setsockopt fd, Bind fd port, Listen fd 1024]
    | Exits n \<Rightarrow> n = - 1 \<and> (fd \<ge> 0 \<longrightarrow> last tr = Close fd)"
  using assms by (auto simp: setup_server_socket_def boot_simps split: if_splits)

lemma startup_outcome:
  assumes "startup port k [] = (out, tr)"
  defines "fd \<equiv> k [] (Socket Stream)"
  shows "case out of
      Returns sock \<Rightarrow> sock = fd \<and> fd \<ge> 0 \<and> tr = [Socket Stream, Setsockopt fd, Bind fd port, Listen fd 5]
    | Exits n \<Rightarrow> n = int (length tr) \<and> last tr = [Socket Stream, Setsockopt fd, Bind fd port, Listen fd 5] ! (length tr - 1)"
  using assms by (auto simp: startup_def boot_simps split: if_splits)

lemma group_main_ignores_failure:
  "\<exists>tr. group_main port k [] = (Returns (k [] (Socket Dgram)), tr) \<and>
     Thread_create ''recvMessage'' \<in> set tr \<and> Thread_create ''sendMessage'' \<in> set tr"
  by (simp add: group_main_def initServer_def boot_simps)

text \<open>The load generator creates its other threads only after the login thread has ended.\<close>

lemma tester_threads_after_login:
  assumes "tester_main k [] = (out, tr)" "Thread_create ''Cmdmodel::startCmd'' \<in> set tr"
  shows "take 2 tr = [Thread_create ''LoginModel::startLogin'', Thread_join ''LoginModel::startLogin'']"
  using assms
  by (auto simp: tester_main_def LoginModel_start_def Cmdmodel_start_def Iomodel_start_def start_thread_def
      boot_simps split: if_splits)

section \<open>The processes of the echo server\<close>

lemma length_fork_tree: "length (fork_tree n rs) = 2 ^ n"
  by (induction n arbitrary: rs) simp_all

lemma fork_tree_prefix: "ps \<in> set (fork_tree n rs) \<Longrightarrow> \<exists>qs. ps = rs @ qs \<and> length qs = n \<and> set qs \<subseteq> {0, 1}"
proof (induction n arbitrary: rs)
  case 0
  then show ?case by simp
next
  case (Suc n)
  then consider "ps \<in> set (fork_tree n (rs @ [1]))" | "ps \<in> set (fork_tree n (rs @ [0]))" by auto
  then show ?case
  proof cases
    case 1
    from Suc.IH [OF 1] obtain qs where "ps = rs @ (1 # qs) \<and> length (1 # qs) = Suc n \<and> set (1 # qs) \<subseteq> {0, 1}"
      by auto
    then show ?thesis by blast
  next
    case 2
    from Suc.IH [OF 2] obtain qs where "ps = rs @ (0 # qs) \<and> length (0 # qs) = Suc n \<and> set (0 # qs) \<subseteq> {0, 1}"
      by auto
    then show ?thesis by blast
  qed
qed

lemma distinct_fork_tree: "distinct (fork_tree n rs)"
proof (induction n arbitrary: rs)
  case 0
  show ?case by simp
next
  case (Suc n)
  have "set (fork_tree n (rs @ [1])) \<inter> set (fork_tree n (rs @ [0])) = {}"
    using fork_tree_prefix [of _ n "rs @ [1]"] fork_tree_prefix [of _ n "rs @ [0]"]
    by (fastforce simp: disjoint_iff)
  with Suc show ?case by simp
qed

text \<open>What a process of the tree sees: its calls of \<open>fork\<close> return the numbers of its path.\<close>

definition fork_answers :: "int list \<Rightarrow> kernel" where
  "fork_answers rs tr c = rs ! length tr"

lemma fork_loop_path:
  assumes "length rs = m + n" "length tr = m"
  shows "fork_loop n (fork_answers rs) tr = (Returns (count_list (drop m rs) 0), tr @ replicate n Fork)"
  using assms
proof (induction n arbitrary: m tr)
  case 0
  then show ?case by (simp add: boot_simps)
next
  case (Suc n)
  have "drop m rs = rs ! m # drop (Suc m) rs" using Suc.prems by (simp add: Cons_nth_drop_Suc)
  moreover have "fork_loop n (fork_answers rs) (tr @ [Fork]) =
      (Returns (count_list (drop (Suc m) rs) 0), (tr @ [Fork]) @ replicate n Fork)"
    using Suc.prems by (intro Suc.IH) simp_all
  moreover have "fork_answers rs tr Fork = rs ! m" using Suc.prems(2) by (simp add: fork_answers_def)
  ultimately show ?case by (simp add: boot_simps)
qed

text \<open>The option for the number of processes does not give that number: every child goes on with the
  loop of its parent, so \<open>procs\<close> asks for \<open>2 ^ (procs - 1)\<close> processes, each a different path of returns of
  \<open>fork\<close> through the whole loop. The number is the one asked for only up to 2.\<close>

theorem fork_doubles:
  assumes "1 \<le> procs"
  shows "length (echo_processes procs) = 2 ^ nat (procs - 1) \<and> distinct (echo_processes procs) \<and>
    (\<forall>rs \<in> set (echo_processes procs). fork_loop (nat (procs - 1)) (fork_answers rs) [] =
       (Returns (count_list rs 0), replicate (nat (procs - 1)) Fork)) \<and>
    (int (length (echo_processes procs)) = procs \<longleftrightarrow> procs \<le> 2)"
proof -
  obtain n where n: "procs = int n + 1" "nat (procs - 1) = n"
    using assms that [of "nat (procs - 1)"] by simp
  have paths: "fork_loop n (fork_answers rs) [] = (Returns (count_list rs 0), replicate n Fork)"
    if "rs \<in> set (fork_tree n [])" for rs
    using fork_tree_prefix [OF that] fork_loop_path [of rs 0 n "[]"] by auto
  have "2 ^ n = Suc n \<longleftrightarrow> n \<le> 1"
  proof (cases "n \<le> 1")
    case True
    then have "n = 0 \<or> n = 1" by auto
    then show ?thesis by auto
  next
    case False
    then have "2 \<le> n" by simp
    then have "Suc n < 2 ^ n"
      by (induction n rule: dec_induct) simp_all
    then show ?thesis using False by simp
  qed
  then have "int (2 ^ n) = procs \<longleftrightarrow> procs \<le> 2"
    using n(1) by (metis of_nat_Suc of_nat_eq_iff add.commute add_le_cancel_right of_nat_1 of_nat_le_iff one_add_one)
  then show ?thesis
    using paths by (simp add: echo_processes_def n(2) length_fork_tree distinct_fork_tree)
qed

theorem fork_doubles_witness:
  "length (echo_processes 4) = 8 \<and> int (length (echo_processes 4)) \<noteq> 4"
  using fork_doubles [of 4] by simp

end
