(* ===== verification/Options.thy ===== *)
theory Options
  imports BootProps
begin

text \<open>
  The arguments of the programs: the options of the echo server, which it reads with \<open>getopt\<close>, and the ports
  and addresses that the others take by position. A port is read by \<open>atoi\<close> and cut to 16 bits by \<open>htons\<close> or
  by the type of a parameter.
\<close>

section \<open>atoi and getopt\<close>

text \<open>
  \<open>atoi\<close>: blanks, a sign, digits, the rest is ignored. A value outside \<open>int\<close> is undefined, which is \<open>None\<close>.
\<close>

definition is_blank :: "char \<Rightarrow> bool" where
  "is_blank c \<longleftrightarrow> c = CHR '' '' \<or> of_char c \<in> {9 .. 13 :: int}"

definition is_digit :: "char \<Rightarrow> bool" where
  "is_digit c \<longleftrightarrow> of_char c \<in> {48 .. 57 :: int}"

fun digits_value :: "int \<Rightarrow> string \<Rightarrow> int" where
  "digits_value n [] = n"
| "digits_value n (c # cs) = (if is_digit c then digits_value (10 * n + (of_char c - 48)) cs else n)"

definition atoi :: "string \<Rightarrow> int option" where
  "atoi str =
     (let str = dropWhile is_blank str;
          v = (case str of [] \<Rightarrow> 0
               | c # cs \<Rightarrow> if c = CHR ''-'' then - digits_value 0 cs
                          else if c = CHR ''+'' then digits_value 0 cs else digits_value 0 str)
      in if - (2 ^ 31) \<le> v \<and> v < 2 ^ 31 then Some v else None)"

text \<open>
  \<open>getopt\<close> for the options \<open>p:s:\<close>, each with an argument in the same word or the next: what the calls return
  one after the other, with \<open>optarg\<close>, up to the first unknown option or missing argument, which is a
  question mark. Words that are no options are passed over, and \<open>--\<close> ends the options.
\<close>

fun getopt :: "string list \<Rightarrow> (char \<times> string) list" where
  "getopt [] = []"
| "getopt (a # as) =
     (if a = ''--'' then []
      else if length a < 2 \<or> hd a \<noteq> CHR ''-'' then getopt as
      else if a ! 1 \<notin> set ''ps'' then [(CHR ''?'', [])]
      else if length a > 2 then (a ! 1, drop 2 a) # getopt as
      else case as of [] \<Rightarrow> [(CHR ''?'', [])] | b # bs \<Rightarrow> (a ! 1, b) # getopt bs)"

section \<open>The echo server\<close>

text \<open>\<open>None\<close>: an undefined \<open>atoi\<close>; \<open>Inl\<close>: \<open>main\<close> returns; \<open>Inr\<close>: port and number of processes.\<close>

fun echo_options :: "(char \<times> string) list \<Rightarrow> int \<times> int \<Rightarrow> (int + int \<times> int) option" where
  "echo_options [] pp = Some (Inr pp)"
| "echo_options ((opt, optarg) # os) (port, procs) =
     (if opt = CHR ''p'' then (case atoi optarg of None \<Rightarrow> None | Some port \<Rightarrow> echo_options os (port, procs))
      else if opt = CHR ''s'' then (case atoi optarg of None \<Rightarrow> None | Some procs \<Rightarrow> echo_options os (port, procs))
      else Some (Inl 1))"

definition echo_args :: "string list \<Rightarrow> (int + int \<times> int) option" where
  "echo_args argv = echo_options (getopt (tl argv)) (DEFAULTPORT, 1)"

section \<open>The other programs\<close>

text \<open>\<open>htons\<close> takes 16 bits.\<close>

definition htons :: "int \<Rightarrow> 16 word" where
  "htons n = word_of_int n"

definition group_args :: "string list \<Rightarrow> (int + 16 word) option" where
  "group_args argv =
     (if length argv \<noteq> 2 then Some (Inl 1)
      else case atoi (argv ! 1) of None \<Rightarrow> None | Some n \<Rightarrow> Some (Inr (word_of_int n)))"

definition poll_args :: "string list \<Rightarrow> (int + int \<times> string) option" where
  "poll_args argv =
     (if length argv \<noteq> 3 then Some (Inl 0)
      else case atoi (argv ! 2) of None \<Rightarrow> None | Some n \<Rightarrow> Some (Inr (n, argv ! 1)))"

section \<open>Lemmas\<close>

lemma getopt_shape: "(c, x) \<in> set (getopt as) \<Longrightarrow> c = CHR ''p'' \<or> c = CHR ''s'' \<or> c = CHR ''?''"
  by (induction as rule: getopt.induct) (auto split: if_splits list.splits)

text \<open>Of several options of one kind the last one counts.\<close>

lemma echo_options_append:
  "echo_options (xs @ ys) pp =
     (case echo_options xs pp of Some (Inr pp') \<Rightarrow> echo_options ys pp' | r \<Rightarrow> r)"
  by (induction xs pp rule: echo_options.induct) (auto split: option.split)

lemma last_port_counts:
  assumes "echo_options xs pp = Some (Inr (port', procs'))" "atoi a = Some n"
  shows "echo_options (xs @ [(CHR ''p'', a)]) pp = Some (Inr (n, procs'))"
  using assms by (simp add: echo_options_append)

text \<open>
  A number of processes below 1, or one that is no number, starts a single process; a port above 65535 or
  a word that is no number is not refused but opens another port.
\<close>

lemma odd_arguments:
  "procs \<le> 1 \<Longrightarrow> echo_processes procs = [[]]"
  "atoi ''many'' = Some 0" "echo_args [''echo'', ''-s'', ''many''] = Some (Inr (5000, 0))"
  "htons (65536 + n) = htons n"
  "group_args [''server'', ''70000''] = Some (Inr 4464)"
  by (simp_all add: echo_processes_def atoi_def is_blank_def is_digit_def echo_args_def DEFAULTPORT_def htons_def
      group_args_def Let_def word_of_int_eq_iff)

lemma echo_args_examples:
  "echo_args [''echo''] = Some (Inr (5000, 1))"
  "echo_args [''echo'', ''-p80'', ''x'', ''-s'', ''4'', ''-p'', '' 81''] = Some (Inr (81, 4))"
  "echo_args [''echo'', ''-p''] = Some (Inl 1)" "echo_args [''echo'', ''-v''] = Some (Inl 1)"
  "echo_args [''echo'', ''-p'', ''3000000000''] = None"
  by (simp_all add: atoi_def is_blank_def is_digit_def echo_args_def DEFAULTPORT_def Let_def)

end
