(* ===== verification/Sketches.thy ===== *)
theory Sketches
  imports CBytes
begin

text \<open>
  tcpServer.c and listen_pthread.c: sketches of a server over connections made from UDP, written against
  functions (\<open>server_accept\<close>, \<open>recv_from_listen\<close> and others) that are nowhere in the repository. What these
  functions return and store is an argument; one pass of each of the two loops is modelled.
\<close>

text \<open>
  The main loop: \<open>server_accept\<close> can return without a connection; otherwise a thread is started for it.
  \<open>started\<close> are the connections that have a thread.
\<close>

definition accept_pass :: "'l option \<Rightarrow> 'l list \<Rightarrow> 'l list" where
  "accept_pass listen started = (case listen of None \<Rightarrow> started | Some l \<Rightarrow> started @ [l])"

text \<open>
  The loop of a thread: \<open>recv_from_listen\<close> returns \<open>ret\<close> and has stored \<open>d\<close> at the beginning of the 1204
  bytes of \<open>buf\<close>, which is not initialised and keeps its contents from pass to pass. Unless it returned -1
  the buffer is printed as a string, \<open>ret\<close> bytes of it are sent back, and it is printed again.
\<close>

definition LISTEN_BUF :: nat where
  "LISTEN_BUF = 1204"

definition listen_pass :: "int \<Rightarrow> block \<Rightarrow> block \<Rightarrow> (block option \<times> block) res" where
  "listen_pass ret d buf =
     rbind (c_memcpy 0 d buf (int (length d))) (\<lambda>buf.
       if ret = - 1 then Inr (None, buf)
       else rbind (c_str buf) (\<lambda>_.
         if 0 \<le> ret \<and> ret \<le> int (length buf) then Inr (Some (cells 0 (nat ret) buf), buf) else Inl OutOfBounds))"

fun listen_passes :: "(int \<times> block) list \<Rightarrow> block \<Rightarrow> (block list \<times> block) res" where
  "listen_passes [] buf = Inr ([], buf)"
| "listen_passes ((ret, d) # rs) buf = rbind (listen_pass ret d buf) (\<lambda>(sent, buf).
     rbind (listen_passes rs buf) (\<lambda>(out, buf). Inr ((case sent of None \<Rightarrow> out | Some x \<Rightarrow> x # out), buf)))"

text \<open>
  What is received is sent back, unchanged and in order, as long as a zero stays somewhere in the buffer
  for the two calls of \<open>printf\<close>; errors are passed over.
\<close>

lemma c_str_zero: "0 \<in> set b \<Longrightarrow> \<exists>s. c_str b = Inr s"
  by (metis split_list_first c_str_append)

lemma listen_passes_echo:
  assumes "length buf = LISTEN_BUF" "last buf = 0"
    and "\<forall>(ret, d) \<in> set rs. (ret = - 1 \<and> d = []) \<or> (ret = int (length d) \<and> length d < LISTEN_BUF)"
  shows "\<exists>buf'. listen_passes rs buf = Inr (map snd (filter (\<lambda>(ret, d). ret \<noteq> - 1) rs), buf') \<and>
    length buf' = LISTEN_BUF \<and> last buf' = 0"
  using assms
proof (induction rs arbitrary: buf)
  case Nil
  then show ?case by simp
next
  case (Cons r rs)
  obtain ret d where r: "r = (ret, d)" by force
  have d: "length d < LISTEN_BUF" using Cons.prems(3) r by (auto simp: LISTEN_BUF_def)
  let ?b = "blit 0 d buf"
  have b: "length ?b = LISTEN_BUF" "last ?b = 0"
    using d Cons.prems(1,2) by (auto simp: blit_def)
  moreover have "?b \<noteq> []" using b(1) by (auto simp: LISTEN_BUF_def)
  ultimately obtain s where s: "c_str ?b = Inr s"
    using c_str_zero [of ?b] last_in_set [of ?b] by auto
  have sent: "take (length d) ?b = d" by (simp add: blit_def)
  have "listen_pass ret d buf = Inr (if ret = - 1 then None else Some d, ?b)"
    using d s b(1) sent Cons.prems(1,3) r by (auto simp: listen_pass_def c_memcpy_def)
  then show ?case
    using Cons.IH [OF b] Cons.prems(3) r by auto
qed

text \<open>A message that fills the buffer without a zero is printed past its end.\<close>

lemma listen_pass_full:
  assumes "length buf = LISTEN_BUF" "length d = LISTEN_BUF" "0 \<notin> set d"
  shows "listen_pass (int LISTEN_BUF) d buf = Inl OutOfBounds"
  using assms by (simp add: listen_pass_def c_memcpy_def blit_def LISTEN_BUF_def c_str_no_zero)

end
