(* ===== verification/Mains.thy ===== *)
theory Mains
  imports Options Screen
begin

text \<open>
  The main functions of the group server, of the first server and of the client of version 0.0.2, from
  arguments to destructors, and what the headers userManger.h and log.h declare.
\<close>

section \<open>The group server\<close>

text \<open>\<open>~Server\<close> closes the socket and forgets the port; then the members are destroyed, the pool among
  them, whose default constructor never initialised the semaphores.\<close>

definition DataPool_end :: "unit boot" where
  "DataPool_end = sys (Sem_destroy ''_blankSem'') (\<lambda>_. sys (Sem_destroy ''_dataSem'') (\<lambda>_. pure ()))"

definition Server_end :: "int \<Rightarrow> int boot" where
  "Server_end sock = sys (Close sock) (\<lambda>_. after DataPool_end (\<lambda>_. pure (- 1)))"

definition Client_end :: "int \<Rightarrow> unit boot" where
  "Client_end sock = sys (Close sock) (\<lambda>_. pure ())"

text \<open>\<open>main\<close>: \<open>None\<close> if the conversion of the port is undefined, otherwise what it returns.\<close>

definition group_server_main :: "string list \<Rightarrow> int boot option" where
  "group_server_main argv =
     (case group_args argv of
        None \<Rightarrow> None
      | Some (Inl ret) \<Rightarrow> Some (pure ret)
      | Some (Inr port) \<Rightarrow>
          Some (after (group_main (uint port)) (\<lambda>sock. after (Server_end sock) (\<lambda>_. pure 0))))"

section \<open>The first server\<close>

definition O_NONBLOCK :: "32 word" where
  "O_NONBLOCK = 2048"

definition setnonblocking :: "int \<Rightarrow> int boot" where
  "setnonblocking fd =
     sys (Getfl fd) (\<lambda>old. sys (Setfl fd (or (word_of_int old) O_NONBLOCK)) (\<lambda>_. pure old))"

text \<open>\<open>main\<close> up to the loop: \<open>Inl\<close> the value returned for a wrong number of arguments, \<open>Inr\<close> the socket; after
  the loop the socket is closed.\<close>

definition poll_begin :: "string list \<Rightarrow> (int + int) boot option" where
  "poll_begin argv =
     (case poll_args argv of
        None \<Rightarrow> None
      | Some (Inl ret) \<Rightarrow> Some (sys (Mkdir ''./log'') (\<lambda>_. pure (Inl ret)))
      | Some (Inr (port, ip)) \<Rightarrow>
          Some (sys (Mkdir ''./log'') (\<lambda>_. after (startup port) (\<lambda>sock. pure (Inr sock)))))"

definition poll_end :: "int \<Rightarrow> int boot" where
  "poll_end sock = sys (Close sock) (\<lambda>_. pure 0)"

section \<open>The client of version 0.0.2\<close>

text \<open>\<open>main\<close>: a wrong number of arguments is reported, and then they are read all the same. The port is
  converted before the socket is opened; the handler for signal 2 is installed before the threads.\<close>

definition old_client_main :: "string list \<Rightarrow> (int boot option) res" where
  "old_client_main argv =
     rbind (old_client_args argv) (\<lambda>(usage, ip, port, nick, school).
       Inr (case atoi port of
              None \<Rightarrow> None
            | Some _ \<Rightarrow> Some (after initclient (\<lambda>sock. sys (Sigaction 2) (\<lambda>_.
                after old_client_threads (\<lambda>_. pure 0))))))"

section \<open>Declarations\<close>

text \<open>userManger.h: the states of a user, the messages of a registration and the tables. Nothing uses them.\<close>

definition USEROFFLINE :: int where
  "USEROFFLINE = 0"

definition USERLOGINED :: int where
  "USERLOGINED = 1"

definition USERONLINE :: int where
  "USERONLINE = 2"

text \<open>The name of a registration is a single character; the other two fields are arrays of 32.\<close>

record register_msg =
  rg_name :: byte
  rg_school :: block
  rg_password :: block

record login_msg =
  lg_id :: block
  lg_password :: block

record reply_msg =
  rp_status :: int
  rp_id :: block

record registered_user =
  ru_name :: block
  ru_school :: block

record user_manger =
  um_id :: int
  um_login_count :: int
  um_registerUser :: "block \<Rightarrow> registered_user option"
  um_onlineUser :: "registered_user list"

text \<open>log.h and log.cpp of version 0.0.1: four names, and numbers for them. Without \<open>DEBUG\<close>, which no build
  file sets, the function does nothing: the result is what it prints.\<close>

definition log_levels :: "(string \<times> nat) list" where
  "log_levels = [(''NORMAL'', 0), (''NOTICE'', 1), (''WARNING'', 2), (''FATAL'', 4)]"

definition lev :: "string list" where
  "lev = [''[normal] '', ''[notice] '', ''[warning] '', ''[fatal] '']"

definition print_log :: "string \<Rightarrow> int \<Rightarrow> string" where
  "print_log msg line = []"

section \<open>Lemmas\<close>

text \<open>The number of \<open>FATAL\<close> is not the place of its name, and is past the end of the names.\<close>

lemma FATAL_has_no_name:
  "(''FATAL'', n) \<in> set log_levels \<Longrightarrow> \<not> n < length lev"
  "(l, n) \<in> set log_levels \<Longrightarrow> l \<noteq> ''FATAL'' \<Longrightarrow> n < length lev"
  by (auto simp: log_levels_def lev_def)

text \<open>Nothing but the one flag changes.\<close>

lemma bit_O_NONBLOCK: "bit O_NONBLOCK i \<longleftrightarrow> i = 11"
proof -
  have eq: "O_NONBLOCK = push_bit 11 1" by (simp add: O_NONBLOCK_def)
  show ?thesis unfolding eq
    by (simp only: bit_push_bit_iff bit_1_iff) (auto simp: possible_bit_def)
qed

lemma setnonblocking_flags:
  "setnonblocking fd k tr = (Returns old, tr') \<Longrightarrow>
   \<exists>new. tr' = tr @ [Getfl fd, Setfl fd new] \<and> old = k tr (Getfl fd) \<and>
     (\<forall>i. bit new i \<longleftrightarrow> bit (word_of_int old :: 32 word) i \<or> i = 11)"
  by (auto simp: setnonblocking_def boot_simps bit_or_iff bit_O_NONBLOCK)

text \<open>Whatever the kernel answers, the group server closes the socket it opened once both of its threads have
  been joined, and no other; it does so also when the socket could not be opened.\<close>

lemma group_server_closes:
  assumes "group_server_main argv = Some p" "p k [] = (Returns 0, tr)"
  shows "\<exists>tr0 sock. tr = tr0 @ [Thread_join ''recvMessage'', Thread_join ''sendMessage'', Close sock,
      Sem_destroy ''_blankSem'', Sem_destroy ''_dataSem''] \<and> sock = k [] (Socket Dgram) \<and>
    (\<forall>fd. Close fd \<notin> set tr0)"
  using assms
  by (auto simp: group_server_main_def group_main_def initServer_def Server_end_def DataPool_end_def
      boot_simps group_args_def split: option.splits sum.splits if_splits)

text \<open>No thread of the old client starts without a socket: a socket that cannot be opened ends the program.\<close>

lemma old_client_needs_socket:
  assumes "old_client_main argv = Inr (Some p)" "Thread_create f \<in> set (snd (p k []))"
  shows "0 \<le> k [] (Socket Dgram) \<and> Sigaction 2 \<in> set (snd (p k []))"
  using assms
  by (auto simp: old_client_main_def old_client_threads_def initclient_def boot_simps res_simps
      split: option.splits if_splits)

end
