(* ===== verification/Spec2Isabelle.thy ===== *)
theory Spec2Isabelle
  imports ChatProps FileRelay ClientLogin SafetyProps RaceProps SyncProps Wire Wiring ReportProps StressProps PoolProps GroupProps EchoProps LogProps
    LogOps PollProps PollClient ThreadWrap OldClient Screen Options Sketches Mains
begin

text \<open>
  A model of the programs of this repository and the theorems about them. The repository holds a chat
  system over TCP and UDP (chat/), with a server, a client and a load generator; a group chat over UDP
  (include/, src/); an echo server; a thread pool in C (ThreadPool/); and an earlier chat server with an
  asynchronous log (histroy/).

  \<^bold>\<open>Shared theories.\<close>
  \<^item> \<open>Prelude\<close>: outcomes of operations that can stop the program (\<open>stop\<close>, \<open>res\<close>, \<open>rbind\<close>, \<open>rfold\<close>, the
    rules for \<open>ensures\<close>), blocks of memory with bounds-checked copies. \<open>CBytes\<close>: machine integers in
    packed structs, C strings. \<open>StdMap\<close>: \<open>std::map\<close> in key order, locale \<open>std_map\<close>.
    \<open>Kernel\<close>: \<open>recv\<close>, \<open>FIONREAD\<close>, the flags of epoll.
  \<^item> \<open>PackQueue\<close>: the hand-over lists (CList, CUserList, SaveList, UserList), locale
    \<open>counted_queue\<close>: first in, first out, with the counter that the constructors leave uninitialised. \<open>SendBuffer\<close>: CCmdSend, locale
    \<open>out_stream\<close>. \<open>Framing\<close>: CCmdRecv and the reading part of CIo::epollRead, locale \<open>framer\<close>. \<open>Ring\<close>: ring
    buffers, locale \<open>bounded_queue\<close>. The laws of a locale are what its clients need; each is interpreted on
    the model of every class that provides it.
  \<^item> \<open>Sync\<close>: the mutex wrappers (mutex.cpp, savemutex.cpp, MutexLock.h), condition variables (Condition.h) and
    threads whose statements interleave; \<open>SyncProps\<close> has the methods of the hand-over lists statement by
    statement, locale \<open>guarded_list\<close> (a \<open>counted_queue\<close> too), and shows that calls under a mutex have the effect
    of whole calls one after the other, which is why the other theories take a method as one step.
  \<^item> \<open>Boot\<close>: the start of all programs as system calls whose results the kernel decides; \<open>BootProps\<close> shows in
    which order the chat server starts and how many processes the echo server forks; \<open>Options\<close> has the
    arguments of the programs, \<open>Mains\<close> the main functions that put the rest together, from arguments to
    destructors, and what userManger.h and log.h declare.

  \<^bold>\<open>The chat server\<close> (chat/chat-server/src). Three threads, \<open>CAccept\<close> (accept.cpp), \<open>CIo\<close> (io.cpp) and
  \<open>CCmd\<close> (cmd.cpp), share connection objects through pointers and hand each other work through lists.
  \<open>ServerState\<close> has the objects (proto.h, user.h, unloginuser.h) and the state of the three modules;
  \<open>AcceptThread\<close>, \<open>IoThread\<close>, \<open>CmdThread\<close> have one definition per handler or phase of each loop;
  \<open>ServerSystem\<close> lets them interleave in any order and proves the invariant by which no thread touches an
  object that another has deleted; \<open>RouterSpec\<close> states what the router promises, on streams of bytes per
  user. Properties: \<open>TransportProps\<close> (lists, buffers, receivers), \<open>RouterProps\<close> (packets reach their
  receivers), \<open>LoginProps\<close> (a login through all threads and how it goes wrong; users who disconnect),
  \<open>UdpProps\<close> (files: what is kept, resent and forgotten), \<open>SafetyProps\<close> (no use after free), \<open>RaceProps\<close> (what
  happens where two threads of the I/O module do not exclude each other: the shared \<open>nread\<close>, and a datagram
  and its address pushed one after the other). \<open>Wire\<close> lays out the structs of proto.h and of the two head.h
  byte by byte and shows that the programs agree on them; the offsets in the operations are theirs. \<open>Wiring\<close>
  has the constructors, destructors and connections of the module objects of all three programs of chat/.

  \<^bold>\<open>The client\<close> (chat/client-test/src). \<open>ClientState\<close> (UserData, files), \<open>ClientIO\<close> (IOModel: the TCP
  thread and the datagram thread), \<open>ClientCmd\<close> (CmdModel: the menu, the messages shown, files cut up and
  put together, reports of missing datagrams). Properties: \<open>ClientProps\<close>, \<open>FileProps\<close>, \<open>ReportProps\<close>; \<open>ChatProps\<close> follows a message from one
  client through the server to the screen of another, \<open>FileRelay\<close> a file
  through the server to the disk of another, \<open>ClientLogin\<close> a login with both programs.

  \<^bold>\<open>The load generator\<close> (chat/stress-test/src). \<open>StressTest\<close> has its send buffer and receiver, with their
  refinements to the server's; \<open>StressModel\<close> the login loop (LoginModel), the messages (Cmdmodel) and the
  I/O thread (Iomodel). Properties: \<open>StressProps\<close>.

  \<^bold>\<open>The group chat.\<close> \<open>DataPool\<close> (include/dataPool.h): the ring of messages with its two semaphores, and a
  producer and a consumer that interleave between semaphore and access. \<open>GroupServer\<close> (include/server.h,
  include/info.h), \<open>GroupClient\<close> (include/client.h, include/version.h, src/client.cpp). Properties:
  \<open>PoolProps\<close> (the pool carries the messages in order), \<open>GroupProps\<close> (a message from one window to all, the
  list of users, the server as constructed, the layout of the screen). \<open>Screen\<close> has what the windows of this
  client, of test/txproj_version.cpp and of version 0.0.2 ask of ncurses, as a list of calls.

  \<^bold>\<open>The thread pool.\<close> \<open>ThreadPool\<close> (ThreadPool/threadpool.c): ring of tasks, the calls, and workers as a
  step relation. Properties in \<open>PoolProps\<close>: order of the tasks, termination of a shutdown, and what a second
  \<open>threadpool_destroy\<close> does.

  \<^bold>\<open>The echo server.\<close> \<open>EchoServer\<close> (src/echoserver.cpp): the growing buffer of a connection, whose reading
  loop is a \<open>partial_function\<close> because it need not end, and the loop over events. Properties: \<open>EchoProps\<close>.

  \<^bold>\<open>The earlier chat server.\<close> \<open>LogStream\<close> (LogStream.h, LogStream.cpp, Logging.cpp; \<open>LogOps\<close> has every operator
  over the memory of the buffer, related to the text of \<open>LogStream\<close>, and the cached thread id), \<open>AsyncLog\<close>
  (AsyncLogging.cpp, LogFile.cpp, FileUtil.cpp; the logging thread cut where it holds the mutex) with
  properties in \<open>LogProps\<close>; \<open>PollServer\<close> (server.cpp) with properties in \<open>PollProps\<close>, \<open>PollClient\<close> (client.c);
  \<open>ThreadWrap\<close> (Thread.cpp, CountDownLatch.cpp): starting a thread, as two threads around a latch.
  \<open>OldClient\<close> is the client of version 0.0.2, an earlier form of the group client.

  \<^bold>\<open>Conventions.\<close> Arguments named \<open>junk\<close>, \<open>jk\<close> or \<open>jcap\<close>, \<open>jtv\<close> and the like are the contents of memory that the code does not
  initialise: a theorem holds for all of them. What the network, the scheduler and the clock decide (the
  bytes that have arrived, how many bytes a send takes, which events are reported, the time) are arguments
  or arbitrary steps. A loop over a container is a fold or a recursion over its elements; an endless loop of
  a thread is one pass of it, or a step relation. The login loop of the load generator takes the outcomes of
  its rounds as a list, and its theorem is about every length of it; the loops of the echo server and of the
  poll server are recursive functions, the first partial, the second with a measure (entries still to
  visit), and no other bound or fuel is used. Memory errors, null pointers, failed asserts and \<open>exit\<close> are
  values, so that a theorem that an operation returns \<open>Inr\<close> says that none of them happens.

  \<^bold>\<open>Library code.\<close> The JSON library of the group chat and \<open>inet_ntoa\<close>, \<open>strftime\<close> and \<open>snprintf\<close> are
  arguments; the hypotheses about them (an object that was written is read back; an address has at most 15
  characters) are documented behaviour, and the witnesses instantiate them.

  \<^bold>\<open>Not modelled.\<close> Sleeping and console output; what ncurses draws; the fields of socket addresses but for
  ports; memory that cannot be allocated, but in the thread pool; the class of the messages of version 0.0.2,
  which is not in the repository; CSqlite, which is commented out; files generated by CMake. Of the sketches tcpServer.c and listen_pthread.c, which call functions
  found nowhere, \<open>Sketches\<close> has a pass of each loop.
\<close>

end
